(* ===== verification/Prelude.thy ===== *)
theory Prelude
  imports Main "HOL-Library.Word" "HOL-Library.List_Lexorder" "HOL-Library.Char_ord"
begin

text \<open>
  Shared vocabulary of the development: names for the Go machine types, results of
  fallible operations, key-ordered association lists for Go maps and Cosmos collections
  that the code iterates in key order, and the word and sum lemmas that the component
  theories rest on.
\<close>

section \<open>Machine types\<close>

type_synonym u8 = "8 word"
type_synonym u32 = "32 word"
type_synonym u64 = "64 word"

text \<open>Go \<open>int64\<close>: a 64-bit pattern, compared through \<^term>\<open>sint\<close>.\<close>
type_synonym i64 = "64 word"

type_synonym bytes = "u8 list"

text \<open>The largest values of the unsigned types (\<open>math.MaxUint32\<close>, \<open>math.MaxUint64\<close>).\<close>

abbreviation maxU32 :: u32 where "maxU32 \<equiv> 0xFFFFFFFF"
abbreviation maxU64 :: u64 where "maxU64 \<equiv> 0xFFFFFFFFFFFFFFFF"

named_theorems u64_simps \<open>facts that move 64-bit arithmetic to natural numbers\<close>

lemma unat_u64_bound [u64_simps]: "unat (x :: u64) < 2 ^ 64"
  using unsigned_less [where ?'a = nat, of x] by simp

lemma unat_u64_le: "unat (x :: u64) \<le> 18446744073709551615"
  using unat_u64_bound [of x] by simp

lemma unat_u64_add:
  "unat (x :: u64) + unat y < 2 ^ 64 \<Longrightarrow> unat (x + y) = unat x + unat y"
  by (simp add: unat_word_ariths)

lemma unat_u64_add_le: "unat (x + y :: 'a::len word) \<le> unat x + unat y"
  by (simp add: unat_word_ariths)

lemma unat_u64_sub: "y \<le> x \<Longrightarrow> unat (x - y :: 'a::len word) = unat x - unat y"
  by (rule unat_sub)

lemma u64_leD: "x \<le> (y :: 'a::len word) \<Longrightarrow> unat x \<le> unat y"
  by (simp add: word_le_nat_alt)

lemma u64_not_lessD: "\<not> x < (y :: 'a::len word) \<Longrightarrow> unat y \<le> unat x"
  by (simp add: word_less_nat_alt)

text \<open>The carry test of \<open>a + b\<close> (\<open>result < a\<close>, or \<open>bits.Add64\<close>) is the overflow test.\<close>

lemma u64_carry_iff: "x + y < (x :: u64) \<longleftrightarrow> 2 ^ 64 \<le> unat x + unat y"
proof -
  have bounds: "unat x < 2 ^ 64" "unat y < 2 ^ 64"
    by (rule unat_u64_bound)+
  have s: "unat (x + y) = (unat x + unat y) mod 2 ^ 64"
    by (simp add: unat_word_ariths)
  show ?thesis
  proof (cases "unat x + unat y < 2 ^ 64")
    case True
    then show ?thesis by (simp add: word_less_nat_alt s)
  next
    case False
    then have "(unat x + unat y) mod 2 ^ 64 = unat x + unat y - 2 ^ 64"
      using bounds by (simp add: mod_if)
    with False bounds show ?thesis by (simp add: word_less_nat_alt s)
  qed
qed

text \<open>\<open>bits.Add64(x, y, 0)\<close>: the wrapped sum and the carry.\<close>

definition add64 :: "u64 \<Rightarrow> u64 \<Rightarrow> u64 \<times> bool" where
  "add64 x y = (x + y, x + y < x)"

lemma add64_no_carry:
  "add64 x y = (r, False) \<longleftrightarrow> unat x + unat y < 2 ^ 64 \<and> r = x + y"
  by (auto simp: add64_def u64_carry_iff)

section \<open>Key-ordered maps\<close>

type_synonym ('k, 'v) kv = "('k \<times> 'v) list"

fun kv_set :: "'k::linorder \<Rightarrow> 'v \<Rightarrow> ('k, 'v) kv \<Rightarrow> ('k, 'v) kv" where
  "kv_set k v [] = [(k, v)]"
| "kv_set k v ((k', v') # m) =
     (if k < k' then (k, v) # (k', v') # m
      else if k = k' then (k, v) # m
      else (k', v') # kv_set k v m)"

definition kv_del :: "'k \<Rightarrow> ('k, 'v) kv \<Rightarrow> ('k, 'v) kv" where
  "kv_del k m = filter (\<lambda>p. fst p \<noteq> k) m"

abbreviation kv_get :: "('k, 'v) kv \<Rightarrow> 'k \<Rightarrow> 'v option" where
  "kv_get \<equiv> map_of"

definition kv_inv :: "('k::linorder, 'v) kv \<Rightarrow> bool" where
  "kv_inv m \<longleftrightarrow> sorted_wrt (<) (map fst m)"

definition kv_sum :: "('k \<Rightarrow> 'v \<Rightarrow> nat) \<Rightarrow> ('k, 'v) kv \<Rightarrow> nat" where
  "kv_sum f m = sum_list (map (\<lambda>(k, v). f k v) m)"

lemma kv_get_set [simp]: "kv_get (kv_set k v m) = (kv_get m)(k \<mapsto> v)"
  by (induction k v m rule: kv_set.induct) (auto simp: fun_eq_iff)

lemma kv_get_del [simp]: "kv_get (kv_del k m) = (kv_get m)(k := None)"
  by (induction m) (auto simp: kv_del_def fun_eq_iff)

lemma set_kv_set: "set (map fst (kv_set k v m)) = insert k (set (map fst m))"
  by (induction k v m rule: kv_set.induct) auto

lemma kv_inv_Nil [simp]: "kv_inv []"
  by (simp add: kv_inv_def)

lemma kv_inv_set [simp]: "kv_inv m \<Longrightarrow> kv_inv (kv_set k v m)"
proof (induction k v m rule: kv_set.induct)
  case (2 k v k' v' m)
  then show ?case
    using set_kv_set [of k v m] by (auto simp: kv_inv_def)
qed (simp add: kv_inv_def)

lemma kv_inv_del [simp]: "kv_inv m \<Longrightarrow> kv_inv (kv_del k m)"
  by (induction m) (auto simp: kv_inv_def kv_del_def)

lemma kv_inv_distinct: "kv_inv m \<Longrightarrow> distinct (map fst m)"
  by (simp add: kv_inv_def strict_sorted_iff)

lemma kv_get_in: "kv_inv m \<Longrightarrow> kv_get m k = Some v \<longleftrightarrow> (k, v) \<in> set m"
  by (simp add: kv_inv_distinct)

lemma kv_sum_Nil [simp]: "kv_sum f [] = 0"
  by (simp add: kv_sum_def)

lemma kv_sum_Cons [simp]: "kv_sum f ((k, v) # m) = f k v + kv_sum f m"
  by (simp add: kv_sum_def)

lemma kv_del_notin [simp]: "k \<notin> fst ` set m \<Longrightarrow> kv_del k m = m"
  by (induction m) (auto simp: kv_del_def)

lemma kv_get_above: "\<forall>x\<in>set m. k < fst x \<Longrightarrow> kv_get m (k :: 'k::linorder) = None"
  by (induction m) auto

lemma kv_sum_set:
  "kv_inv m \<Longrightarrow>
   kv_sum f (kv_set k v m) + (case kv_get m k of None \<Rightarrow> 0 | Some w \<Rightarrow> f k w)
     = kv_sum f m + f k v"
proof (induction k v m rule: kv_set.induct)
  case (2 k v k' v' m)
  have "kv_get m k = None" if "k < k'"
    using that "2.prems" by (intro kv_get_above) (auto simp: kv_inv_def dest: order.strict_trans)
  with 2 show ?case
    by (auto simp: kv_inv_def split: option.splits)
qed simp

lemma kv_sum_del:
  "kv_inv m \<Longrightarrow>
   kv_sum f (kv_del k m) + (case kv_get m k of None \<Rightarrow> 0 | Some w \<Rightarrow> f k w) = kv_sum f m"
proof (induction m)
  case (Cons p m)
  obtain k' v' where p: "p = (k', v')" by (cases p)
  show ?case
  proof (cases "k' = k")
    case True
    with Cons.prems p have "k \<notin> fst ` set m"
      by (auto simp: kv_inv_def)
    then have "kv_del k m = m" by simp
    with True p show ?thesis by (simp add: kv_del_def)
  next
    case False
    with Cons p show ?thesis by (auto simp: kv_inv_def kv_del_def split: option.splits)
  qed
qed (simp add: kv_del_def)

lemma kv_set_same: "kv_inv m \<Longrightarrow> kv_get m k = Some v \<Longrightarrow> kv_set k v m = m"
proof (induction k v m rule: kv_set.induct)
  case (2 k v k' v' m)
  have "kv_get m k = None" if "k < k'"
    using that "2.prems"(1) by (intro kv_get_above) (auto simp: kv_inv_def dest: order.strict_trans)
  with 2 show ?case
    by (auto simp: kv_inv_def split: if_splits)
qed simp

lemma kv_keys_dom: "fst ` set m = dom (kv_get m)"
  by (simp add: dom_map_of_conv_image_fst)

lemma kv_set_last: "\<forall>x \<in> fst ` set m. x < k \<Longrightarrow> kv_set k v m = m @ [(k, v)]"
  by (induction m) auto

lemma foldl_kv_set_ordered:
  "sorted_wrt (<) (map fst m @ map f xs) \<Longrightarrow>
   foldl (\<lambda>m x. kv_set (f x) (g x) m) m xs = m @ map (\<lambda>x. (f x, g x)) xs"
proof (induction xs arbitrary: m)
  case (Cons x xs)
  have "kv_set (f x) (g x) m = m @ [(f x, g x)]"
    using Cons.prems by (intro kv_set_last) (auto simp: sorted_wrt_append)
  moreover have "sorted_wrt (<) (map fst (m @ [(f x, g x)]) @ map f xs)"
    using Cons.prems by simp
  ultimately show ?case
    using Cons.IH [of "m @ [(f x, g x)]"] by simp
qed simp

text \<open>
  What the ledgers of the development use of a store with totals: lookups after updates and
  deletions, and the total of a valuation over all entries.
\<close>

locale totalled_store =
  fixes get :: "'m \<Rightarrow> 'k \<Rightarrow> 'v option"
    and upd :: "'k \<Rightarrow> 'v \<Rightarrow> 'm \<Rightarrow> 'm"
    and del :: "'k \<Rightarrow> 'm \<Rightarrow> 'm"
    and total :: "('k \<Rightarrow> 'v \<Rightarrow> nat) \<Rightarrow> 'm \<Rightarrow> nat"
    and ok :: "'m \<Rightarrow> bool"
  assumes ok_upd: "ok m \<Longrightarrow> ok (upd k v m)"
    and ok_del: "ok m \<Longrightarrow> ok (del k m)"
    and get_upd: "get (upd k v m) = (get m)(k \<mapsto> v)"
    and get_del: "get (del k m) = (get m)(k := None)"
    and total_upd: "ok m \<Longrightarrow>
      total f (upd k v m) + (case get m k of None \<Rightarrow> 0 | Some w \<Rightarrow> f k w) = total f m + f k v"
    and total_del: "ok m \<Longrightarrow>
      total f (del k m) + (case get m k of None \<Rightarrow> 0 | Some w \<Rightarrow> f k w) = total f m"
begin

lemma entry_le_total: "ok m \<Longrightarrow> get m k = Some v \<Longrightarrow> f k v \<le> total f m"
  using total_del [of m f k] by simp

lemma total_upd_new: "ok m \<Longrightarrow> get m k = None \<Longrightarrow> total f (upd k v m) = total f m + f k v"
  using total_upd [of m f k v] by simp

lemma total_upd_old:
  "ok m \<Longrightarrow> get m k = Some w \<Longrightarrow> total f (upd k v m) + f k w = total f m + f k v"
  using total_upd [of m f k v] by simp

lemma total_upd_same:
  "ok m \<Longrightarrow> get m k = Some w \<Longrightarrow> f k v = f k w \<Longrightarrow> total f (upd k v m) = total f m"
  using total_upd_old [of m k w f v] by simp

lemma total_del_old: "ok m \<Longrightarrow> get m k = Some w \<Longrightarrow> total f (del k m) + f k w = total f m"
  using total_del [of m f k] by simp

lemma total_upd_le:
  "ok m \<Longrightarrow> get m k = Some w \<Longrightarrow> f k v + b \<le> f k w + a \<Longrightarrow> total f m \<le> b \<Longrightarrow>
   total f (upd k v m) \<le> a"
  using total_upd_old [of m k w f v] by simp

end

interpretation kvs: totalled_store kv_get kv_set kv_del kv_sum kv_inv
  by unfold_locales (simp_all add: kv_sum_set kv_sum_del del: fun_upd_apply)

text \<open>
  Runs of a transition system that keeps an invariant and an amount: what holds of one step
  holds of every sequence of steps.
\<close>

locale conserving =
  fixes step :: "'s \<Rightarrow> 's \<Rightarrow> bool"
    and inv :: "'s \<Rightarrow> bool"
    and amount :: "'s \<Rightarrow> 'n"
  assumes inv_step: "inv s \<Longrightarrow> step s t \<Longrightarrow> inv t"
    and amount_step: "inv s \<Longrightarrow> step s t \<Longrightarrow> amount t = amount s"
begin

lemma inv_steps: "step\<^sup>*\<^sup>* s t \<Longrightarrow> inv s \<Longrightarrow> inv t"
  by (induction rule: rtranclp_induct) (auto dest: inv_step)

lemma amount_steps: "step\<^sup>*\<^sup>* s t \<Longrightarrow> inv s \<Longrightarrow> amount t = amount s"
proof (induction rule: rtranclp_induct)
  case (step t u)
  then have "inv t" by (blast intro: inv_steps)
  with step show ?case by (simp add: amount_step)
qed simp

end

section \<open>Fallible operations\<close>

text \<open>
  A pure fallible operation returns \<open>'e + 'a\<close>, with the error on the left. An operation
  on a state that may already have changed the state when it fails returns the result
  together with the state it leaves.
\<close>

definition bindE :: "'e + 'a \<Rightarrow> ('a \<Rightarrow> 'e + 'b) \<Rightarrow> 'e + 'b" where
  "bindE x f = (case x of Inl e \<Rightarrow> Inl e | Inr a \<Rightarrow> f a)"

lemma bindE_simps [simp]:
  "bindE (Inl e) f = Inl e"
  "bindE (Inr a) f = f a"
  by (simp_all add: bindE_def)

lemma bindE_Inr_iff: "bindE x f = Inr b \<longleftrightarrow> (\<exists>a. x = Inr a \<and> f a = Inr b)"
  by (cases x) auto

named_theorems inr_iffs \<open>when a guarded computation succeeds\<close>

lemma if_Inl_iff [inr_iffs]: "(if c then Inl e else x) = Inr a \<longleftrightarrow> \<not> c \<and> x = Inr a"
  by simp

lemma option_Inl_iff [inr_iffs]:
  "(case m of None \<Rightarrow> Inl e | Some d \<Rightarrow> f d) = Inr a \<longleftrightarrow> (\<exists>d. m = Some d \<and> f d = Inr a)"
  by (cases m) simp_all

declare bindE_Inr_iff [inr_iffs]

lemma bindE_Inl_iff:
  "bindE x f = Inl e \<longleftrightarrow> x = Inl e \<or> (\<exists>a. x = Inr a \<and> f a = Inl e)"
  by (cases x) auto

fun mapE :: "('a \<Rightarrow> 'e + 'b) \<Rightarrow> 'a list \<Rightarrow> 'e + 'b list" where
  "mapE f [] = Inr []"
| "mapE f (x # xs) = bindE (f x) (\<lambda>y. bindE (mapE f xs) (\<lambda>ys. Inr (y # ys)))"

lemma mapE_total: "(\<And>x. x \<in> set xs \<Longrightarrow> f x = Inr (g x)) \<Longrightarrow> mapE f xs = Inr (map g xs)"
  by (induction xs) auto

lemma bindE_cong [fundef_cong]:
  "x = y \<Longrightarrow> (\<And>a. y = Inr a \<Longrightarrow> f a = g a) \<Longrightarrow> bindE x f = bindE y g"
  by (cases y) auto

type_synonym ('e, 'a, 's) res = "('e + 'a) \<times> 's"

text \<open>Sequencing of fallible operations on a state; a failure keeps the state it reached.\<close>

definition bindS :: "('e, 'a, 's) res \<Rightarrow> ('a \<Rightarrow> 's \<Rightarrow> ('e, 'b, 's) res) \<Rightarrow> ('e, 'b, 's) res" where
  "bindS r f = (case r of (Inl e, s) \<Rightarrow> (Inl e, s) | (Inr a, s) \<Rightarrow> f a s)"

lemma bindS_simps [simp]:
  "bindS (Inl e, s) f = (Inl e, s)"
  "bindS (Inr a, s) f = f a s"
  by (simp_all add: bindS_def)

lemma bindS_eq:
  "bindS r f = (x, t) \<longleftrightarrow>
     (\<exists>e. r = (Inl e, t) \<and> x = Inl e) \<or> (\<exists>a s. r = (Inr a, s) \<and> f a s = (x, t))"
  by (auto simp: bindS_def split: prod.splits sum.splits)

lemma bindS_cong [fundef_cong]:
  "r = r' \<Longrightarrow> (\<And>a s. r' = (Inr a, s) \<Longrightarrow> f a s = g a s) \<Longrightarrow> bindS r f = bindS r' g"
  by (auto simp: bindS_def split: prod.splits sum.splits)

end
