(* ===== verification/GoStd.thy ===== *)
theory GoStd
  imports Prelude
begin

text \<open>
  The parts of the Go standard library that the modelled code calls on data:
  \<open>crypto/sha256\<close>, the big- and little-endian integer encodings of \<open>encoding/binary\<close>,
  the conversion of a \<open>string\<close> to its bytes, decimal numerals (\<open>fmt\<close>, \<open>strconv\<close>) and
  \<open>encoding/hex\<close>.
\<close>

unbundle bit_operations_syntax

section \<open>encoding/binary\<close>

definition be32 :: "u32 \<Rightarrow> bytes" where
  "be32 x = map (\<lambda>i. ucast (drop_bit (8 * i) x)) [3, 2, 1, 0]"

definition be64 :: "u64 \<Rightarrow> bytes" where
  "be64 x = map (\<lambda>i. ucast (drop_bit (8 * i) x)) [7, 6, 5, 4, 3, 2, 1, 0]"

definition le64 :: "u64 \<Rightarrow> bytes" where
  "le64 x = map (\<lambda>i. ucast (drop_bit (8 * i) x)) [0, 1, 2, 3, 4, 5, 6, 7]"

definition get_le64 :: "bytes \<Rightarrow> u64" where
  "get_le64 bs = foldr (\<lambda>b acc. push_bit 8 acc OR ucast b) (take 8 bs) 0"

definition get_be64 :: "bytes \<Rightarrow> u64" where
  "get_be64 bs = foldl (\<lambda>acc b. push_bit 8 acc OR ucast b) 0 (take 8 bs)"

lemma length_be32 [simp]: "length (be32 x) = 4"
  by (simp add: be32_def)

lemma length_be64 [simp]: "length (be64 x) = 8"
  by (simp add: be64_def)

lemma length_le64 [simp]: "length (le64 x) = 8"
  by (simp add: le64_def)

lemma get_le64_le64 [simp]: "get_le64 (le64 x) = x"
proof (rule bit_word_eqI)
  fix n assume "n < LENGTH(64)"
  then have n: "n < 64" by simp
  have chunk: "(k \<le> n \<and> n - k < 64 \<and> n - k < 8 \<and> bit x (k + (n - k)))
      \<longleftrightarrow> (k \<le> n \<and> n < k + 8 \<and> bit x n)" for k
    using n by auto
  show "bit (get_le64 (le64 x)) n = bit x n"
    unfolding get_le64_def le64_def
    using n by (simp add: bit_simps chunk) arith
qed

section \<open>crypto/sha256\<close>

definition string_bytes :: "string \<Rightarrow> bytes" where
  "string_bytes s = map of_char s"

text \<open>
  The constants are not tabulated but computed from what they are: the first 32 bits of the
  fractional parts of the cube roots of the first 64 primes, and of the square roots of the
  first eight.
\<close>

fun root_bits :: "nat \<Rightarrow> nat \<Rightarrow> nat \<Rightarrow> nat \<Rightarrow> nat" where
  "root_bits e x 0 r = r"
| "root_bits e x (Suc k) r = root_bits e x k (if (r + 2 ^ k) ^ e \<le> x then r + 2 ^ k else r)"

definition primes_below :: "nat \<Rightarrow> nat list" where
  "primes_below n = filter (\<lambda>p. list_all (\<lambda>d. p mod d \<noteq> 0) [2..<p]) [2..<n]"

definition sha_K :: "u32 list" where
  "sha_K = map (\<lambda>p. of_nat (root_bits 3 (p * 2 ^ 96) 36 0)) (primes_below 312)"

definition sha_init :: "u32 list" where
  "sha_init = map (\<lambda>p. of_nat (root_bits 2 (p * 2 ^ 64) 36 0)) (primes_below 20)"

definition sha_pad :: "bytes \<Rightarrow> bytes" where
  "sha_pad m = (let n = length m in
     m @ [0x80] @ replicate ((119 - n mod 64) mod 64) 0 @ be64 (of_nat (8 * n)))"

fun be32_words :: "bytes \<Rightarrow> u32 list" where
  "be32_words (a # b # c # d # bs) =
     (push_bit 24 (ucast a) OR push_bit 16 (ucast b) OR push_bit 8 (ucast c) OR ucast d)
       # be32_words bs"
| "be32_words bs = []"

definition sha_next :: "u32 list \<Rightarrow> u32" where
  \<comment> \<open>the schedule kept newest first: w t from w (t-2), w (t-7), w (t-15), w (t-16)\<close>
  "sha_next r =
     (let x = r ! 14; y = r ! 1 in
      (word_rotr 17 y XOR word_rotr 19 y XOR drop_bit 10 y) + r ! 6
        + (word_rotr 7 x XOR word_rotr 18 x XOR drop_bit 3 x) + r ! 15)"

fun sha_extend :: "nat \<Rightarrow> u32 list \<Rightarrow> u32 list" where
  "sha_extend 0 r = r"
| "sha_extend (Suc n) r = sha_extend n (sha_next r # r)"

definition sha_schedule :: "u32 list \<Rightarrow> u32 list" where
  "sha_schedule ws = rev (sha_extend 48 (rev ws))"

fun sha_round :: "u32 list \<Rightarrow> u32 \<times> u32 \<Rightarrow> u32 list" where
  "sha_round [a, b, c, d, e, f, g, h] (k, w) =
     (let t1 = h + (word_rotr 6 e XOR word_rotr 11 e XOR word_rotr 25 e)
                 + ((e AND f) XOR (NOT e AND g)) + k + w;
          t2 = (word_rotr 2 a XOR word_rotr 13 a XOR word_rotr 22 a)
                 + ((a AND b) XOR (a AND c) XOR (b AND c))
      in [t1 + t2, a, b, c, d + t1, e, f, g])"
| "sha_round s kw = s"

definition sha_block :: "u32 list \<Rightarrow> u32 list \<Rightarrow> u32 list" where
  "sha_block s ws = map2 (+) s (foldl sha_round s (zip sha_K (sha_schedule ws)))"

function sha_blocks :: "u32 list \<Rightarrow> u32 list \<Rightarrow> u32 list" where
  "sha_blocks s ws = (if ws = [] then s else sha_blocks (sha_block s (take 16 ws)) (drop 16 ws))"
  by pat_completeness auto
termination
  by (relation "measure (\<lambda>(s, ws). length ws)") auto

declare sha_blocks.simps [simp del]

definition sha256 :: "bytes \<Rightarrow> bytes" where
  "sha256 m = concat (map be32 (sha_blocks sha_init (be32_words (sha_pad m))))"

lemma length_sha_round: "length s = 8 \<Longrightarrow> length (sha_round s kw) = 8"
  by (cases "(s, kw)" rule: sha_round.cases) (auto simp: Let_def)

lemma length_foldl_sha_round: "length s = 8 \<Longrightarrow> length (foldl sha_round s kws) = 8"
  by (induction kws arbitrary: s) (auto simp: length_sha_round)

lemma length_sha_blocks: "length s = 8 \<Longrightarrow> length (sha_blocks s ws) = 8"
proof (induction s ws rule: sha_blocks.induct)
  case (1 s ws)
  then show ?case
    by (subst sha_blocks.simps) (auto simp: sha_block_def length_foldl_sha_round)
qed

lemma length_sha256 [simp]: "length (sha256 m) = 32"
proof -
  have "length (sha_blocks sha_init ws) = 8" for ws
    by (rule length_sha_blocks) (unfold sha_init_def length_map, code_simp)
  then show ?thesis
    by (simp add: sha256_def length_concat comp_def sum_list_triv)
qed

section \<open>Numerals\<close>

text \<open>The verb \<open>%d\<close> of \<open>fmt\<close> on an unsigned and on a signed number.\<close>

definition digit_char :: "nat \<Rightarrow> char" where
  "digit_char d = char_of (48 + d)"

fun dec_nat :: "nat \<Rightarrow> string" where
  "dec_nat n = (if n < 10 then [digit_char n] else dec_nat (n div 10) @ [digit_char (n mod 10)])"

declare dec_nat.simps [simp del]

definition dec_int :: "int \<Rightarrow> string" where
  "dec_int i = (if i < 0 then CHR ''-'' # dec_nat (nat (- i)) else dec_nat (nat i))"

text \<open>\<open>strconv.ParseUint(s, 10, 64)\<close>.\<close>

fun dec_value :: "nat \<Rightarrow> string \<Rightarrow> nat option" where
  "dec_value acc [] = Some acc"
| "dec_value acc (c # cs) =
     (let d = (of_char c :: nat) in
      if 48 \<le> d \<and> d \<le> 57 then dec_value (10 * acc + (d - 48)) cs else None)"

definition ParseUint64 :: "string \<Rightarrow> u64 option" where
  "ParseUint64 s =
     (if s = [] then None
      else case dec_value 0 s of
        None \<Rightarrow> None
      | Some v \<Rightarrow> if v < 2 ^ 64 then Some (of_nat v) else None)"

lemma dec_value_append:
  "dec_value acc (xs @ ys) = (case dec_value acc xs of None \<Rightarrow> None | Some v \<Rightarrow> dec_value v ys)"
  by (induction acc xs rule: dec_value.induct) (auto simp: Let_def)

lemma of_char_digit: "d < 10 \<Longrightarrow> (of_char (digit_char d) :: nat) = 48 + d"
  by (simp add: digit_char_def)

lemma dec_nat_neq_Nil: "dec_nat n \<noteq> []"
  by (subst dec_nat.simps) simp

lemma dec_value_dec_nat: "dec_value 0 (dec_nat n) = Some n"
proof (induction n rule: dec_nat.induct)
  case (1 n)
  then show ?case
    by (subst dec_nat.simps) (auto simp: dec_value_append of_char_digit Let_def)
qed

lemma ParseUint64_dec: "ParseUint64 (dec_nat (unat x)) = Some x"
  using unat_u64_bound [of x] by (simp add: ParseUint64_def dec_value_dec_nat dec_nat_neq_Nil)

text \<open>\<open>hex.EncodeToString\<close>.\<close>

definition hex_char :: "nat \<Rightarrow> char" where
  "hex_char d = char_of (if d < 10 then 48 + d else 87 + d)"

definition hex_string :: "bytes \<Rightarrow> string" where
  "hex_string bs = concat (map (\<lambda>b. [hex_char (unat b div 16), hex_char (unat b mod 16)]) bs)"

end
