(* ===== verification/DevshardTypes.thy ===== *)
theory DevshardTypes
  imports GoStd
begin

text \<open>
  The data of a devshard session (\<open>devshard/types\<close>): session phases and inference
  statuses, inference records, host statistics, the session configuration and how it is
  derived from an escrow, the slot group, the 128-bit validator bitmap, the nonce limits,
  the transactions of a diff and the signed contents built from them.
\<close>

unbundle bit_operations_syntax

section \<open>Errors\<close>

text \<open>
  The sentinel errors the state machine returns, by their Go names; \<open>ErrMarshal\<close>,
  \<open>ErrStore\<close>, \<open>ErrEntryMismatch\<close> and \<open>ErrStoreRequired\<close> stand for the wrapped errors
  without a sentinel. \<open>GoPanic\<close> is a run-time panic (integer division by zero, nil
  dereference): it is not an error return, and nothing is rolled back when it happens.
\<close>

datatype devshard_error =
    ErrInvalidNonce | ErrInvalidUserSig | ErrInvalidProposerSig | ErrInvalidExecutorSig
  | ErrInsufficientBalance | ErrMultipleStartMsgs | ErrSessionFinalizing | ErrInferenceNotFound
  | ErrInferenceSealed | ErrInvalidTransition | ErrSelfValidation | ErrWrongExecutorSlot
  | ErrInsufficientVotes | ErrInvalidTimeoutReason | ErrDuplicateVote | ErrAlreadyFinalizing
  | ErrEmptyTx | ErrDuplicateInferenceID | ErrInvalidVoteSig | ErrInvalidInferenceID
  | ErrCostOverflow | ErrSlotNotInGroup | ErrPostStateRootMismatch | ErrSeedTooShort
  | ErrInvalidGroup | ErrEscrowIDMismatch
  | ErrMarshal | ErrStore | ErrEntryMismatch | ErrStoreRequired
  | GoPanic

section \<open>Phases and statuses\<close>

datatype SessionPhase = PhaseActive | PhaseFinalizing | PhaseSettlement

fun phase_byte :: "SessionPhase \<Rightarrow> u8" where
  "phase_byte PhaseActive = 0"
| "phase_byte PhaseFinalizing = 1"
| "phase_byte PhaseSettlement = 2"

text \<open>
  The status is a \<open>uint8\<close> with seven named values; \<open>StatusRaw\<close> holds a value without a
  name, which only a decoded storage row can contain.
\<close>

datatype InferenceStatus =
    StatusPending | StatusStarted | StatusFinished | StatusChallenged
  | StatusValidated | StatusInvalidated | StatusTimedOut | StatusRaw u8

fun status_code :: "InferenceStatus \<Rightarrow> u8" where
  "status_code StatusPending = 0"
| "status_code StatusStarted = 1"
| "status_code StatusFinished = 2"
| "status_code StatusChallenged = 3"
| "status_code StatusValidated = 4"
| "status_code StatusInvalidated = 5"
| "status_code StatusTimedOut = 6"
| "status_code (StatusRaw c) = c"

definition status_of :: "u8 \<Rightarrow> InferenceStatus" where
  "status_of c =
     (if c = 0 then StatusPending else if c = 1 then StatusStarted
      else if c = 2 then StatusFinished else if c = 3 then StatusChallenged
      else if c = 4 then StatusValidated else if c = 5 then StatusInvalidated
      else if c = 6 then StatusTimedOut else StatusRaw c)"

definition named_status :: "InferenceStatus \<Rightarrow> bool" where
  "named_status s \<longleftrightarrow> (\<forall>c. s \<noteq> StatusRaw c)"

lemma status_of_code: "named_status s \<Longrightarrow> status_of (status_code s) = s"
  by (cases s) (auto simp: status_of_def named_status_def)

section \<open>The validator bitmap\<close>

type_synonym Bitmap128 = "u64 \<times> u64"

definition MaxGroupSize :: nat where
  "MaxGroupSize = 128"

definition Bitmap_Set :: "Bitmap128 \<Rightarrow> u32 \<Rightarrow> Bitmap128" where
  "Bitmap_Set b i =
     (if MaxGroupSize \<le> unat i then b
      else if unat i div 64 = 0 then (fst b OR push_bit (unat i mod 64) 1, snd b)
      else (fst b, snd b OR push_bit (unat i mod 64) 1))"

definition Bitmap_IsSet :: "Bitmap128 \<Rightarrow> u32 \<Rightarrow> bool" where
  "Bitmap_IsSet b i =
     (if MaxGroupSize \<le> unat i then False
      else (drop_bit (unat i mod 64) (if unat i div 64 = 0 then fst b else snd b)) AND 1 = 1)"

definition Bitmap_Bytes :: "Bitmap128 \<Rightarrow> bytes" where
  "Bitmap_Bytes b = le64 (fst b) @ le64 (snd b)"

definition Bitmap128FromBytes :: "bytes \<Rightarrow> Bitmap128" where
  "Bitmap128FromBytes data =
     (if 16 \<le> length data then (get_le64 (take 8 data), get_le64 (drop 8 data)) else (0, 0))"

lemma and_one_drop_bit: "(drop_bit n (x :: u64) AND 1 = 1) = bit x n"
  by (simp add: and_one_eq bit_iff_odd_drop_bit [symmetric] odd_iff_mod_2_eq_one [symmetric])

lemma Bitmap_IsSet_Set:
  "Bitmap_IsSet (Bitmap_Set b i) j \<longleftrightarrow>
     (i = j \<and> unat i < MaxGroupSize) \<or> Bitmap_IsSet b j"
proof (cases "unat j < MaxGroupSize \<and> unat i < MaxGroupSize")
  case True
  then have "unat i div 64 = unat j div 64 \<and> unat i mod 64 = unat j mod 64 \<longleftrightarrow> i = j"
    by (metis div_mult_mod_eq word_unat_eq_iff)
  moreover have "unat i div 64 \<in> {0, 1}" "unat j div 64 \<in> {0, 1}"
    using True by (auto simp: MaxGroupSize_def)
  ultimately show ?thesis
    using True
    by (auto simp: Bitmap_Set_def Bitmap_IsSet_def MaxGroupSize_def and_one_drop_bit
        bit_or_iff bit_exp_iff possible_bit_word div_eq_0_iff)
next
  case False
  then show ?thesis
    by (auto simp: Bitmap_Set_def Bitmap_IsSet_def)
qed

lemma Bitmap128FromBytes_Bytes: "Bitmap128FromBytes (Bitmap_Bytes b) = b"
proof -
  have "take 8 (le64 x @ ys) = le64 x" "drop 8 (le64 x @ ys) = ys" for x ys
    by simp_all
  then show ?thesis
    by (simp add: Bitmap128FromBytes_def Bitmap_Bytes_def)
qed

section \<open>Session state\<close>

record InferenceRecord =
  Status :: InferenceStatus
  ExecutorSlot :: u32
  Model :: string
  PromptHash :: bytes
  ResponseHash :: bytes
  InputLength :: u64
  MaxTokens :: u64
  InputTokens :: u64
  OutputTokens :: u64
  ReservedCost :: u64
  ActualCost :: u64
  StartedAt :: i64
  ConfirmedAt :: i64
  VotesValid :: u32
  VotesInvalid :: u32
  ValidatedBy :: Bitmap128

record HostStats =
  Missed :: u32
  Invalid :: u32
  Cost :: u64
  RequiredValidations :: u32
  CompletedValidations :: u32

definition HostStats_zero :: HostStats where
  "HostStats_zero = \<lparr>Missed = 0, Invalid = 0, Cost = 0,
     RequiredValidations = 0, CompletedValidations = 0\<rparr>"

record SessionConfig =
  RefusalTimeout :: i64
  ExecutionTimeout :: i64
  TokenPrice :: u64
  CreateDevshardFee :: u64
  FeePerNonce :: u64
  VoteThreshold :: u32
  ValidationRate :: u32
  InferenceSealGraceNonces :: u32
  InferenceSealGraceSeconds :: u32
  AutoSealEveryNNonces :: u32

record SlotAssignment =
  SlotID :: u32
  ValidatorAddress :: string

record EscrowState =
  EscrowID :: string
  StateRootAndProtocolVersion :: string
  Config :: SessionConfig
  Group :: "SlotAssignment list"
  Balance :: u64
  Fees :: u64
  Phase :: SessionPhase
  FinalizeNonce :: u64
  Inferences :: "(u64, InferenceRecord) kv"
  HostStatsMap :: "(u32, HostStats) kv"
  WarmKeys :: "(u32, string) kv"
  LatestNonce :: u64
  SealedAcc :: bytes

section \<open>Groups\<close>

text \<open>\<open>ValidateGroup\<close>: slot ids are the positions of their entries.\<close>

fun slots_in_order :: "nat \<Rightarrow> SlotAssignment list \<Rightarrow> bool" where
  "slots_in_order i [] = True"
| "slots_in_order i (s # ss) = (SlotID s = of_nat i \<and> slots_in_order (Suc i) ss)"

definition ValidateGroup :: "SlotAssignment list \<Rightarrow> devshard_error + unit" where
  "ValidateGroup g =
     (if length g = 0 then Inl ErrInvalidGroup
      else if MaxGroupSize < length g then Inl ErrInvalidGroup
      else if slots_in_order 0 g then Inr () else Inl ErrInvalidGroup)"

lemma slots_in_order_nth:
  "slots_in_order i g \<longleftrightarrow> (\<forall>j < length g. SlotID (g ! j) = of_nat (i + j))"
proof (induction g arbitrary: i)
  case (Cons s ss)
  then show ?case
    by (auto simp: nth_Cons split: nat.splits)
qed simp

section \<open>Session configuration\<close>

definition DefaultInferenceSealGraceNonces :: "nat \<Rightarrow> u32" where
  "DefaultInferenceSealGraceNonces groupSize =
     (let grace = groupSize * 1 in of_nat (if grace < 20 then 20 else grace))"

definition NormalizeSessionConfig :: "SessionConfig \<Rightarrow> nat \<Rightarrow> SessionConfig" where
  "NormalizeSessionConfig cfg groupSize =
     (let cfg = (if InferenceSealGraceNonces cfg = 0
                 then cfg\<lparr>InferenceSealGraceNonces := DefaultInferenceSealGraceNonces groupSize\<rparr>
                 else cfg);
          cfg = (if InferenceSealGraceSeconds cfg = 0
                 then cfg\<lparr>InferenceSealGraceSeconds := 3600\<rparr> else cfg)
      in if AutoSealEveryNNonces cfg = 0 then cfg\<lparr>AutoSealEveryNNonces := 150\<rparr> else cfg)"

definition DefaultSessionConfig :: "nat \<Rightarrow> SessionConfig" where
  "DefaultSessionConfig groupSize = NormalizeSessionConfig
     \<lparr>RefusalTimeout = 60, ExecutionTimeout = 32 * 60, TokenPrice = 1,
      CreateDevshardFee = 10000, FeePerNonce = 1000,
      VoteThreshold = of_nat groupSize div 2, ValidationRate = 5000,
      InferenceSealGraceNonces = 0, InferenceSealGraceSeconds = 0, AutoSealEveryNNonces = 0\<rparr>
     groupSize"

record EscrowSessionFields =
  f_TokenPrice :: u64
  f_CreateDevshardFee :: u64
  f_FeePerNonce :: u64
  f_InferenceSealGraceNonces :: u32
  f_InferenceSealGraceSeconds :: u32
  f_AutoSealEveryNNonces :: u32
  f_ValidationRate :: u32
  f_VoteThresholdFactor :: u32

definition ComputeVoteThreshold :: "nat \<Rightarrow> u32 \<Rightarrow> u32" where
  "ComputeVoteThreshold groupSize factor =
     (if factor = 0 then of_nat groupSize div 2 else of_nat groupSize * factor div 100)"

definition SessionConfigFromEscrow :: "nat \<Rightarrow> EscrowSessionFields \<Rightarrow> SessionConfig" where
  "SessionConfigFromEscrow groupSize fs =
     (let cfg = DefaultSessionConfig groupSize;
          cfg = (if f_TokenPrice fs > 0 then cfg\<lparr>TokenPrice := f_TokenPrice fs\<rparr> else cfg);
          cfg = (if f_CreateDevshardFee fs > 0
                 then cfg\<lparr>CreateDevshardFee := f_CreateDevshardFee fs\<rparr> else cfg);
          cfg = (if f_FeePerNonce fs > 0 then cfg\<lparr>FeePerNonce := f_FeePerNonce fs\<rparr> else cfg);
          cfg = (if f_InferenceSealGraceNonces fs > 0
                 then cfg\<lparr>InferenceSealGraceNonces := f_InferenceSealGraceNonces fs\<rparr> else cfg);
          cfg = (if f_InferenceSealGraceSeconds fs > 0
                 then cfg\<lparr>InferenceSealGraceSeconds := f_InferenceSealGraceSeconds fs\<rparr> else cfg);
          cfg = (if f_AutoSealEveryNNonces fs > 0
                 then cfg\<lparr>AutoSealEveryNNonces := f_AutoSealEveryNNonces fs\<rparr> else cfg);
          cfg = (if f_ValidationRate fs > 0
                 then cfg\<lparr>ValidationRate := f_ValidationRate fs\<rparr> else cfg);
          cfg = cfg\<lparr>VoteThreshold := ComputeVoteThreshold groupSize (f_VoteThresholdFactor fs)\<rparr>
      in NormalizeSessionConfig cfg groupSize)"

definition SessionConfigWithPrice :: "nat \<Rightarrow> u64 \<Rightarrow> SessionConfig" where
  "SessionConfigWithPrice groupSize tokenPrice = SessionConfigFromEscrow groupSize
     \<lparr>f_TokenPrice = tokenPrice, f_CreateDevshardFee = 0, f_FeePerNonce = 0,
      f_InferenceSealGraceNonces = 0, f_InferenceSealGraceSeconds = 0,
      f_AutoSealEveryNNonces = 0, f_ValidationRate = 0, f_VoteThresholdFactor = 0\<rparr>"

section \<open>Transactions\<close>

datatype TimeoutReason =
    TIMEOUT_REASON_UNSPECIFIED | TIMEOUT_REASON_REFUSED | TIMEOUT_REASON_EXECUTION

record MsgStartInference =
  si_InferenceId :: u64
  si_PromptHash :: bytes
  si_Model :: string
  si_InputLength :: u64
  si_MaxTokens :: u64
  si_StartedAt :: i64

record MsgConfirmStart =
  cs_InferenceId :: u64
  cs_ExecutorSig :: bytes
  cs_ConfirmedAt :: i64

record MsgFinishInference =
  fi_InferenceId :: u64
  fi_ResponseHash :: bytes
  fi_InputTokens :: u64
  fi_OutputTokens :: u64
  fi_ExecutorSlot :: u32
  fi_ProposerSig :: bytes
  fi_EscrowId :: string

record TimeoutVote =
  tv_VoterSlot :: u32
  tv_Accept :: bool
  tv_Signature :: bytes

record MsgTimeoutInference =
  ti_InferenceId :: u64
  ti_Reason :: TimeoutReason
  ti_Votes :: "TimeoutVote list"

record MsgValidation =
  va_InferenceId :: u64
  va_ValidatorSlot :: u32
  va_Valid :: bool
  va_ProposerSig :: bytes
  va_EscrowId :: string

record MsgValidationVote =
  vv_InferenceId :: u64
  vv_VoterSlot :: u32
  vv_VoteValid :: bool
  vv_ProposerSig :: bytes
  vv_EscrowId :: string

record MsgRevealSeed =
  rs_SlotId :: u32
  rs_Signature :: bytes
  rs_ProposerSig :: bytes
  rs_EscrowId :: string

text \<open>The \<open>oneof\<close> of a \<open>DevshardTx\<close>; \<open>TxEmpty\<close> is the transaction with no message set.\<close>

datatype DevshardTx =
    TxStartInference MsgStartInference
  | TxConfirmStart MsgConfirmStart
  | TxFinishInference MsgFinishInference
  | TxTimeoutInference MsgTimeoutInference
  | TxValidation MsgValidation
  | TxValidationVote MsgValidationVote
  | TxRevealSeed MsgRevealSeed
  | TxFinalizeRound
  | TxEmpty

record Diff =
  d_Nonce :: u64
  d_Txs :: "DevshardTx list"
  d_UserSig :: bytes
  d_PostStateRoot :: bytes

text \<open>The messages that the code serialises with deterministic protobuf encoding.\<close>

record HostStatsProto =
  hp_SlotId :: u32
  hp_Missed :: u32
  hp_Invalid :: u32
  hp_Cost :: u64
  hp_RequiredValidations :: u32
  hp_CompletedValidations :: u32

record InferenceRecordProto =
  ip_InferenceId :: u64
  ip_Status :: u32
  ip_ExecutorSlot :: u32
  ip_Model :: string
  ip_PromptHash :: bytes
  ip_ResponseHash :: bytes
  ip_InputLength :: u64
  ip_MaxTokens :: u64
  ip_InputTokens :: u64
  ip_OutputTokens :: u64
  ip_ReservedCost :: u64
  ip_ActualCost :: u64
  ip_StartedAt :: i64
  ip_ConfirmedAt :: i64
  ip_VotesValid :: u32
  ip_VotesInvalid :: u32
  ip_ValidatedBy :: bytes

record ExecutorReceiptContent =
  er_InferenceId :: u64
  er_PromptHash :: bytes
  er_Model :: string
  er_InputLength :: u64
  er_MaxTokens :: u64
  er_StartedAt :: i64
  er_EscrowId :: string
  er_ConfirmedAt :: i64

datatype ProtoMsg =
    PDiffContent u64 "DevshardTx list" string bytes
  | PExecutorReceipt ExecutorReceiptContent
  | PTimeoutVote string u64 TimeoutReason bool
  | PStateSignature bytes string u64
  | PFinish MsgFinishInference
  | PValidation MsgValidation
  | PValidationVote MsgValidationVote
  | PHostStatsMap "HostStatsProto list"
  | PInferenceRecord InferenceRecordProto

section \<open>Nonce limits\<close>

definition FinalizeNonceReserve :: "int \<Rightarrow> u64" where
  "FinalizeNonceReserve groupSize =
     (let groupSize = (if groupSize < 0 then 0 else groupSize) in of_int groupSize + 1)"

definition MaxActiveNonce :: "u32 \<Rightarrow> int \<Rightarrow> u64" where
  "MaxActiveNonce maxNonce groupSize =
     (if maxNonce = 0 then maxU64
      else let reserve = FinalizeNonceReserve groupSize in
        if ucast maxNonce \<le> reserve then 0 else ucast maxNonce - reserve)"

definition DiffHasActiveCompletionWork :: "Diff \<Rightarrow> bool" where
  "DiffHasActiveCompletionWork d = list_ex (\<lambda>tx. case tx of
       TxStartInference _ \<Rightarrow> True | TxTimeoutInference _ \<Rightarrow> True
     | TxValidation _ \<Rightarrow> True | TxValidationVote _ \<Rightarrow> True | _ \<Rightarrow> False) (d_Txs d)"

end
