(* ===== verification/DevshardHash.thy ===== *)
theory DevshardHash
  imports DevshardTypes
begin

text \<open>
  The state commitment of a devshard session (\<open>devshard/state/hash.go\<close>): the host
  statistics hash, the inference-set hash, the sealed accumulator, the rest hash and the
  state root. Protobuf serialisation is third-party code; it is the record \<^verbatim>\<open>codec\<close>,
  an argument of every definition that serialises.
\<close>

section \<open>Serialisation\<close>

record codec =
  marshal :: "ProtoMsg \<Rightarrow> bytes option"
  unmarshalRecord :: "bytes \<Rightarrow> InferenceRecordProto option"
  AppendTag :: "bytes \<Rightarrow> nat \<Rightarrow> nat \<Rightarrow> bytes"
  AppendVarint :: "bytes \<Rightarrow> u64 \<Rightarrow> bytes"

definition marshalE :: "'z codec_scheme \<Rightarrow> ProtoMsg \<Rightarrow> devshard_error + bytes" where
  "marshalE c m = (case marshal c m of None \<Rightarrow> Inl ErrMarshal | Some d \<Rightarrow> Inr d)"

definition inference_proto :: "u64 \<Rightarrow> InferenceRecord \<Rightarrow> InferenceRecordProto" where
  "inference_proto iid r =
     \<lparr>ip_InferenceId = iid, ip_Status = ucast (status_code (Status r)),
      ip_ExecutorSlot = ExecutorSlot r, ip_Model = Model r, ip_PromptHash = PromptHash r,
      ip_ResponseHash = ResponseHash r, ip_InputLength = InputLength r,
      ip_MaxTokens = MaxTokens r, ip_InputTokens = InputTokens r,
      ip_OutputTokens = OutputTokens r, ip_ReservedCost = ReservedCost r,
      ip_ActualCost = ActualCost r, ip_StartedAt = StartedAt r, ip_ConfirmedAt = ConfirmedAt r,
      ip_VotesValid = VotesValid r, ip_VotesInvalid = VotesInvalid r,
      ip_ValidatedBy = Bitmap_Bytes (ValidatedBy r)\<rparr>"

definition marshalInferenceEntry ::
  "'z codec_scheme \<Rightarrow> u64 \<Rightarrow> InferenceRecord \<Rightarrow> devshard_error + bytes" where
  "marshalInferenceEntry c iid r = marshalE c (PInferenceRecord (inference_proto iid r))"

definition unmarshalInferenceEntry ::
  "'z codec_scheme \<Rightarrow> bytes \<Rightarrow> devshard_error + (u64 \<times> InferenceRecord)" where
  "unmarshalInferenceEntry c data =
     (case unmarshalRecord c data of
        None \<Rightarrow> Inl ErrMarshal
      | Some m \<Rightarrow> Inr (ip_InferenceId m,
          \<lparr>Status = status_of (ucast (ip_Status m)), ExecutorSlot = ip_ExecutorSlot m,
           Model = ip_Model m, PromptHash = ip_PromptHash m, ResponseHash = ip_ResponseHash m,
           InputLength = ip_InputLength m, MaxTokens = ip_MaxTokens m,
           InputTokens = ip_InputTokens m, OutputTokens = ip_OutputTokens m,
           ReservedCost = ip_ReservedCost m, ActualCost = ip_ActualCost m,
           StartedAt = ip_StartedAt m, ConfirmedAt = ip_ConfirmedAt m,
           VotesValid = ip_VotesValid m, VotesInvalid = ip_VotesInvalid m,
           ValidatedBy = Bitmap128FromBytes (ip_ValidatedBy m)\<rparr>))"

section \<open>Component hashes\<close>

definition computeHostStatsHash ::
  "'z codec_scheme \<Rightarrow> (u32, HostStats) kv \<Rightarrow> devshard_error + bytes" where
  "computeHostStatsHash c hostStats =
     bindE (marshalE c (PHostStatsMap (map (\<lambda>(iid, s).
        \<lparr>hp_SlotId = iid, hp_Missed = Missed s, hp_Invalid = Invalid s, hp_Cost = Cost s,
         hp_RequiredValidations = RequiredValidations s,
         hp_CompletedValidations = CompletedValidations s\<rparr>) hostStats)))
     (\<lambda>data. Inr (sha256 data))"

definition computeWarmKeysHash :: "(u32, string) kv \<Rightarrow> bytes" where
  "computeWarmKeysHash warmKeys =
     (if warmKeys = [] then sha256 []
      else sha256 (concat (map (\<lambda>(iid, a).
        let addr = string_bytes a in be32 iid @ be32 (of_nat (length addr)) @ addr) warmKeys)))"

fun appendEntries :: "'z codec_scheme \<Rightarrow> bytes \<Rightarrow> (u64, bytes) kv \<Rightarrow> bytes" where
  "appendEntries c buf [] = buf"
| "appendEntries c buf ((iid, entry) # es) =
     appendEntries c
       (AppendVarint c (AppendTag c buf 1 2) (of_nat (length entry)) @ entry) es"

definition computeInferencesHashFromEntries ::
  "'z codec_scheme \<Rightarrow> (u64, bytes) kv \<Rightarrow> bytes" where
  "computeInferencesHashFromEntries c entries = sha256 (appendEntries c [] entries)"

definition computeInferencesHash ::
  "'z codec_scheme \<Rightarrow> (u64, InferenceRecord) kv \<Rightarrow> devshard_error + bytes" where
  "computeInferencesHash c inferences =
     bindE (mapE (\<lambda>(iid, r). bindE (marshalInferenceEntry c iid r) (\<lambda>e. Inr (iid, e))) inferences)
       (\<lambda>entries. Inr (computeInferencesHashFromEntries c entries))"

definition sealedAccBytes32 :: "bytes \<Rightarrow> bytes" where
  "sealedAccBytes32 b =
     (if 32 \<le> length b then take 32 b else b @ replicate (32 - length b) 0)"

definition FoldSealedAccumulator :: "bytes \<Rightarrow> u64 \<Rightarrow> u64 \<Rightarrow> bytes \<Rightarrow> bytes" where
  "FoldSealedAccumulator acc sealNonce infID committedEntry =
     sha256 (acc @ be64 sealNonce @ be64 infID @ committedEntry)"

definition ComputeInferencesHashV2 ::
  "'z codec_scheme \<Rightarrow> bytes \<Rightarrow> (u64, InferenceRecord) kv \<Rightarrow> devshard_error + bytes" where
  "ComputeInferencesHashV2 c sealedAcc liveInferences =
     bindE (computeInferencesHash c liveInferences)
       (\<lambda>liveHash. Inr (sha256 (sealedAcc @ liveHash)))"

definition ComputeRestHashV2 ::
  "'z codec_scheme \<Rightarrow> u64 \<Rightarrow> bytes \<Rightarrow> (u64, InferenceRecord) kv \<Rightarrow> (u32, string) kv
     \<Rightarrow> devshard_error + bytes" where
  "ComputeRestHashV2 c balance sealedAcc liveInferences warmKeys =
     bindE (ComputeInferencesHashV2 c sealedAcc liveInferences)
       (\<lambda>infHash. Inr (sha256 (be64 balance @ infHash @ computeWarmKeysHash warmKeys)))"

definition computeRestHash ::
  "'z codec_scheme \<Rightarrow> u64 \<Rightarrow> (u64, InferenceRecord) kv \<Rightarrow> (u32, string) kv
     \<Rightarrow> devshard_error + bytes" where
  "computeRestHash c balance inferences warmKeys =
     bindE (computeInferencesHash c inferences)
       (\<lambda>infHash. Inr (sha256 (be64 balance @ infHash @ computeWarmKeysHash warmKeys)))"

section \<open>The state root\<close>

definition ComputeVersionHash :: "string \<Rightarrow> bytes" where
  "ComputeVersionHash version = sha256 (string_bytes version)"

definition ComputeStateRootFromRestHash ::
  "bytes \<Rightarrow> bytes \<Rightarrow> u64 \<Rightarrow> SessionPhase \<Rightarrow> string \<Rightarrow> bytes" where
  "ComputeStateRootFromRestHash hostStatsHash restHash fees phase version =
     sha256 (hostStatsHash @ be64 fees @ restHash @ ComputeVersionHash version @ [phase_byte phase])"

definition ComputeStateRoot ::
  "'z codec_scheme \<Rightarrow> u64 \<Rightarrow> (u32, HostStats) kv \<Rightarrow> (u64, InferenceRecord) kv
     \<Rightarrow> SessionPhase \<Rightarrow> (u32, string) kv \<Rightarrow> u64 \<Rightarrow> string \<Rightarrow> devshard_error + bytes" where
  "ComputeStateRoot c balance hostStats inferences phase warmKeys fees version =
     bindE (computeHostStatsHash c hostStats) (\<lambda>hostStatsHash.
     bindE (ComputeRestHashV2 c balance (sealedAccBytes32 []) inferences warmKeys) (\<lambda>restHash.
       Inr (ComputeStateRootFromRestHash hostStatsHash restHash fees phase version)))"

section \<open>Lengths and totality\<close>

lemma length_sealedAccBytes32 [simp]: "length (sealedAccBytes32 b) = 32"
  by (simp add: sealedAccBytes32_def)

lemma sealedAccBytes32_id: "length b = 32 \<Longrightarrow> sealedAccBytes32 b = b"
  by (simp add: sealedAccBytes32_def)

lemma length_FoldSealedAccumulator [simp]: "length (FoldSealedAccumulator acc n i e) = 32"
  by (simp add: FoldSealedAccumulator_def)

definition marshal_total :: "'z codec_scheme \<Rightarrow> bool" where
  "marshal_total c \<longleftrightarrow> (\<forall>m. marshal c m \<noteq> None)"

text \<open>A decoded entry is the record that was encoded (\<open>unmarshal\<close> inverts \<open>marshal\<close>).\<close>

definition codec_inverse :: "'z codec_scheme \<Rightarrow> bool" where
  "codec_inverse c \<longleftrightarrow>
     (\<forall>m d. marshal c (PInferenceRecord m) = Some d \<longrightarrow> unmarshalRecord c d = Some m)"

lemma ucast_status: "ucast (ucast (c :: u8) :: u32) = c"
  by (simp add: unsigned_ucast_eq take_bit_word_eq_self)

lemma unmarshal_marshal_entry:
  assumes "codec_inverse c" and "named_status (Status r)"
    and "marshalInferenceEntry c iid r = Inr d"
  shows "unmarshalInferenceEntry c d = Inr (iid, r)"
proof -
  from assms(3) have "marshal c (PInferenceRecord (inference_proto iid r)) = Some d"
    by (auto simp: marshalInferenceEntry_def marshalE_def split: option.splits)
  with assms(1) have "unmarshalRecord c d = Some (inference_proto iid r)"
    by (simp add: codec_inverse_def)
  with assms(2) show ?thesis
    by (cases r)
      (simp add: unmarshalInferenceEntry_def inference_proto_def ucast_status
        status_of_code Bitmap128FromBytes_Bytes)
qed

end
