(* ===== verification/DevshardMachine.thy ===== *)
theory DevshardMachine
  imports DevshardHash
begin

text \<open>
  The devshard state machine (\<open>devshard/state/machine.go\<close> and \<open>seal.go\<close>): construction,
  the eight transactions, the application of a diff with its rollback, the best-effort
  composition of a diff, validate-then-commit, and the sealing of inferences into the
  accumulator. The signature verifier, the warm-key resolver and the storage back end are
  interfaces with no code of their own in the state machine: they are fields of the record
  \<^verbatim>\<open>devshard_env\<close>. A storage back end is seen through the operations it accepts; the log
  of accepted operations is part of the state, and \<^verbatim>\<open>storeFails\<close> says which operation fails.
  Logging is left out. The mutex makes each operation atomic, so each is one function.
\<close>

section \<open>State\<close>

record InferenceRow =
  row_InferenceID :: u64
  row_SealedNonce :: u64
  row_ObsPresent :: bool
  row_Status :: u32
  row_ExecutorSlot :: u32
  row_VotesValid :: u32
  row_VotesInvalid :: u32
  row_ValidatedBy :: bytes
  row_Model :: string
  row_PromptHash :: bytes
  row_ResponseHash :: bytes
  row_InputLength :: u64
  row_MaxTokens :: u64
  row_InputTokens :: u64
  row_OutputTokens :: u64
  row_ReservedCost :: u64
  row_ActualCost :: u64
  row_StartedAt :: i64
  row_ConfirmedAt :: i64

text \<open>The storage calls of the state machine, with the escrow they are keyed by.\<close>

datatype StoreOp =
    InsertSealedInference string InferenceRow
  | DrainInferenceValidationObs string u64
  | DeleteSealedInferences string

record devshard_env = codec +
  RecoverAddress :: "bytes \<Rightarrow> bytes \<Rightarrow> string option"
  warmResolver :: "(string \<Rightarrow> string \<Rightarrow> bool option) option"
  storeFails :: "StoreOp list \<Rightarrow> StoreOp \<Rightarrow> bool"
  GetSealedInference :: "StoreOp list \<Rightarrow> string \<Rightarrow> u64 \<Rightarrow> InferenceRow option"

record deferredObsWrite =
  dw_id :: u64
  dw_row :: InferenceRow
  dw_drain :: bool

record StateMachine =
  state :: EscrowState
  userAddress :: string
  committedEntries :: "(u64, bytes) kv"
  sealedNonces :: "(u64, u64) kv"
  slotToAddress :: "(u32, string) kv"
  addressToSlotCount :: "string \<Rightarrow> u32"
  addressToSlots :: "string \<Rightarrow> u32 list"
  totalSlots :: u32
  obsDeferred :: "deferredObsWrite list option"
  storeLog :: "StoreOp list"

record mutableSnapshot =
  snap_Balance :: u64
  snap_Fees :: u64
  snap_Phase :: SessionPhase
  snap_FinalizeNonce :: u64
  snap_LatestNonce :: u64
  snap_Inferences :: "(u64, InferenceRecord) kv"
  snap_Committed :: "(u64, bytes) kv"
  snap_HostStats :: "(u32, HostStats) kv"
  snap_WarmKeys :: "(u32, string) kv"
  snap_SealedAcc :: bytes
  snap_SealedNonces :: "(u64, u64) kv"

record ValidatedDiff =
  vd_Root :: bytes
  vd_WarmAfter :: "(u32, string) kv"
  vd_Applied :: "DevshardTx list"
  vd_nonce :: u64
  vd_post :: mutableSnapshot
  vd_obs :: "deferredObsWrite list"

text \<open>Results of operations on the machine.\<close>

type_synonym 'a sm_res = "(devshard_error, 'a, StateMachine) res"

section \<open>Checked arithmetic\<close>

definition safeMul :: "u64 \<Rightarrow> u64 \<Rightarrow> u64 \<times> bool" where
  "safeMul a b =
     (if a = 0 \<or> b = 0 then (0, True)
      else let result = a * b in if result div a \<noteq> b then (0, False) else (result, True))"

definition safeAdd :: "u64 \<Rightarrow> u64 \<Rightarrow> u64 \<times> bool" where
  "safeAdd a b = (let result = a + b in if result < a then (0, False) else (result, True))"

definition tokenCost :: "u64 \<Rightarrow> u64 \<Rightarrow> u64 \<Rightarrow> devshard_error + u64" where
  "tokenCost a b price =
     (let (sum, ok) = safeAdd a b in
      if \<not> ok then Inl ErrCostOverflow
      else let (cost, ok) = safeMul sum price in
        if \<not> ok then Inl ErrCostOverflow else Inr cost)"

section \<open>Construction\<close>

definition NewStateMachine ::
  "bool \<Rightarrow> string \<Rightarrow> string list \<Rightarrow> string \<Rightarrow> SessionConfig \<Rightarrow> SlotAssignment list \<Rightarrow> u64 \<Rightarrow> string
     \<Rightarrow> devshard_error + StateMachine" where
  "NewStateMachine storePresent effectiveVersion versionOpts escrowID cfg grp balance userAddr =
     (if \<not> storePresent then Inl ErrStoreRequired
      else
        let slotToAddr = foldl (\<lambda>m s. kv_set (SlotID s) (ValidatorAddress s) m) [] grp;
            addrToSlotCount = foldl (\<lambda>f s. f(ValidatorAddress s := f (ValidatorAddress s) + 1))
              (\<lambda>_. 0) grp;
            cfg = NormalizeSessionConfig cfg (length grp);
            hostStats = foldl (\<lambda>m s. kv_set (SlotID s) HostStats_zero m) [] grp;
            addrToSlots = (\<lambda>a. map fst (filter (\<lambda>p. snd p = a) slotToAddr))
        in if balance < CreateDevshardFee cfg then Inl ErrInsufficientBalance
           else Inr
             \<lparr>state =
                \<lparr>EscrowID = escrowID,
                 StateRootAndProtocolVersion = foldl (\<lambda>_ v. v) effectiveVersion versionOpts,
                 Config = cfg, Group = grp,
                 Balance = balance - CreateDevshardFee cfg, Fees = CreateDevshardFee cfg,
                 Phase = PhaseActive, FinalizeNonce = 0, Inferences = [],
                 HostStatsMap = hostStats, WarmKeys = [], LatestNonce = 0, SealedAcc = []\<rparr>,
              userAddress = userAddr, committedEntries = [], sealedNonces = [],
              slotToAddress = slotToAddr, addressToSlotCount = addrToSlotCount,
              addressToSlots = addrToSlots, totalSlots = of_nat (length grp),
              obsDeferred = None, storeLog = []\<rparr>)"

section \<open>Snapshots\<close>

definition snapshotMutable :: "StateMachine \<Rightarrow> mutableSnapshot" where
  "snapshotMutable sm =
     \<lparr>snap_Balance = Balance (state sm), snap_Fees = Fees (state sm),
      snap_Phase = Phase (state sm), snap_FinalizeNonce = FinalizeNonce (state sm),
      snap_LatestNonce = LatestNonce (state sm), snap_Inferences = Inferences (state sm),
      snap_Committed = committedEntries sm, snap_HostStats = HostStatsMap (state sm),
      snap_WarmKeys = WarmKeys (state sm), snap_SealedAcc = SealedAcc (state sm),
      snap_SealedNonces = sealedNonces sm\<rparr>"

definition restoreMutable :: "mutableSnapshot \<Rightarrow> StateMachine \<Rightarrow> StateMachine" where
  "restoreMutable snap sm = sm
     \<lparr>state := (state sm)
        \<lparr>Balance := snap_Balance snap, Fees := snap_Fees snap, Phase := snap_Phase snap,
         FinalizeNonce := snap_FinalizeNonce snap, LatestNonce := snap_LatestNonce snap,
         Inferences := snap_Inferences snap, HostStatsMap := snap_HostStats snap,
         WarmKeys := snap_WarmKeys snap, SealedAcc := snap_SealedAcc snap\<rparr>,
      committedEntries := snap_Committed snap, sealedNonces := snap_SealedNonces snap\<rparr>"

section \<open>Lookups\<close>

definition isDuplicateInferenceID :: "StateMachine \<Rightarrow> u64 \<Rightarrow> bool" where
  "isDuplicateInferenceID sm i \<longleftrightarrow>
     kv_get (Inferences (state sm)) i \<noteq> None \<or> kv_get (committedEntries sm) i \<noteq> None
     \<or> kv_get (sealedNonces sm) i \<noteq> None"

definition isInferenceEvictedFromLive :: "StateMachine \<Rightarrow> u64 \<Rightarrow> bool" where
  "isInferenceEvictedFromLive sm i \<longleftrightarrow>
     kv_get (Inferences (state sm)) i = None
     \<and> (kv_get (committedEntries sm) i \<noteq> None \<or> kv_get (sealedNonces sm) i \<noteq> None)"

definition SlotAddress :: "StateMachine \<Rightarrow> u32 \<Rightarrow> string" where
  "SlotAddress sm slot = (case kv_get (slotToAddress sm) slot of None \<Rightarrow> [] | Some a \<Rightarrow> a)"

definition QuorumThreshold :: "StateMachine \<Rightarrow> u32" where
  "QuorumThreshold sm = 2 * totalSlots sm div 3 + 1"

definition LiveInferenceIDs :: "StateMachine \<Rightarrow> u64 set" where
  "LiveInferenceIDs sm = set (map fst (Inferences (state sm)))"

definition IsWarmKeyAddress :: "StateMachine \<Rightarrow> string \<Rightarrow> bool" where
  "IsWarmKeyAddress sm addr = list_ex (\<lambda>p. snd p = addr) (WarmKeys (state sm))"

text \<open>Assignments through a record pointer of the inference map, and to a host's statistics.\<close>

definition setInference :: "u64 \<Rightarrow> InferenceRecord \<Rightarrow> StateMachine \<Rightarrow> StateMachine" where
  "setInference i r sm = sm\<lparr>state := (state sm)\<lparr>Inferences := kv_set i r (Inferences (state sm))\<rparr>\<rparr>"

definition setHostStats :: "u32 \<Rightarrow> HostStats \<Rightarrow> StateMachine \<Rightarrow> StateMachine" where
  "setHostStats slot h sm =
     sm\<lparr>state := (state sm)\<lparr>HostStatsMap := kv_set slot h (HostStatsMap (state sm))\<rparr>\<rparr>"

definition addBalance :: "u64 \<Rightarrow> StateMachine \<Rightarrow> StateMachine" where
  "addBalance x sm = sm\<lparr>state := (state sm)\<lparr>Balance := Balance (state sm) + x\<rparr>\<rparr>"

section \<open>Committed entries and observability rows\<close>

definition updateCommittedEntryLocked ::
  "devshard_env \<Rightarrow> u64 \<Rightarrow> InferenceRecord \<Rightarrow> StateMachine \<Rightarrow> unit sm_res" where
  "updateCommittedEntryLocked env i r sm =
     (case marshalInferenceEntry env i r of
        Inl e \<Rightarrow> (Inl e, sm)
      | Inr entry \<Rightarrow> (Inr (), sm\<lparr>committedEntries := kv_set i entry (committedEntries sm)\<rparr>))"

definition inferenceObsRow :: "u64 \<Rightarrow> u64 \<Rightarrow> InferenceRecord \<Rightarrow> InferenceRow" where
  "inferenceObsRow i sealedNonce r =
     \<lparr>row_InferenceID = i, row_SealedNonce = sealedNonce, row_ObsPresent = True,
      row_Status = ucast (status_code (Status r)), row_ExecutorSlot = ExecutorSlot r,
      row_VotesValid = VotesValid r, row_VotesInvalid = VotesInvalid r,
      row_ValidatedBy = Bitmap_Bytes (ValidatedBy r), row_Model = Model r,
      row_PromptHash = PromptHash r, row_ResponseHash = ResponseHash r,
      row_InputLength = InputLength r, row_MaxTokens = MaxTokens r,
      row_InputTokens = InputTokens r, row_OutputTokens = OutputTokens r,
      row_ReservedCost = ReservedCost r, row_ActualCost = ActualCost r,
      row_StartedAt = StartedAt r, row_ConfirmedAt = ConfirmedAt r\<rparr>"

definition inferenceRecordFromObsRow :: "InferenceRow \<Rightarrow> InferenceRecord" where
  "inferenceRecordFromObsRow row =
     \<lparr>Status = status_of (ucast (row_Status row)), ExecutorSlot = row_ExecutorSlot row,
      Model = row_Model row, PromptHash = row_PromptHash row, ResponseHash = row_ResponseHash row,
      InputLength = row_InputLength row, MaxTokens = row_MaxTokens row,
      InputTokens = row_InputTokens row, OutputTokens = row_OutputTokens row,
      ReservedCost = row_ReservedCost row, ActualCost = row_ActualCost row,
      StartedAt = row_StartedAt row, ConfirmedAt = row_ConfirmedAt row,
      VotesValid = row_VotesValid row, VotesInvalid = row_VotesInvalid row,
      ValidatedBy = Bitmap128FromBytes (row_ValidatedBy row)\<rparr>"

text \<open>One call of the storage back end.\<close>

definition storeCall :: "devshard_env \<Rightarrow> StoreOp \<Rightarrow> StateMachine \<Rightarrow> unit sm_res" where
  "storeCall env sop sm =
     (if storeFails env (storeLog sm) sop then (Inl ErrStore, sm)
      else (Inr (), sm\<lparr>storeLog := storeLog sm @ [sop]\<rparr>))"

definition upsertInferenceObsLocked ::
  "devshard_env \<Rightarrow> u64 \<Rightarrow> u64 \<Rightarrow> InferenceRecord \<Rightarrow> StateMachine \<Rightarrow> unit sm_res" where
  "upsertInferenceObsLocked env i sealedNonce r sm =
     (let row = inferenceObsRow i sealedNonce r in
      case obsDeferred sm of
        Some ws \<Rightarrow> (Inr (), sm\<lparr>obsDeferred :=
          Some (ws @ [\<lparr>dw_id = i, dw_row = row, dw_drain = sealedNonce > 0\<rparr>])\<rparr>)
      | None \<Rightarrow>
         (case storeCall env (InsertSealedInference (EscrowID (state sm)) row) sm of
            (Inl e, sm1) \<Rightarrow> (Inl e, sm1)
          | (Inr _, sm1) \<Rightarrow>
             if sealedNonce > 0
             then storeCall env (DrainInferenceValidationObs (EscrowID (state sm1)) i) sm1
             else (Inr (), sm1)))"

definition persistLiveInferenceObsBestEffortLocked ::
  "devshard_env \<Rightarrow> u64 \<Rightarrow> InferenceRecord \<Rightarrow> StateMachine \<Rightarrow> StateMachine" where
  "persistLiveInferenceObsBestEffortLocked env i r sm =
     snd (upsertInferenceObsLocked env i
       (case kv_get (sealedNonces sm) i of None \<Rightarrow> 0 | Some n \<Rightarrow> n) r sm)"

section \<open>Signatures\<close>

definition ResolveWarmKey ::
  "devshard_env \<Rightarrow> u32 \<Rightarrow> string \<Rightarrow> string \<Rightarrow> StateMachine \<Rightarrow> bool \<times> StateMachine" where
  "ResolveWarmKey env slot recovered expected sm =
     (case kv_get (WarmKeys (state sm)) slot of
        Some warm \<Rightarrow> (warm = recovered, sm)
      | None \<Rightarrow>
         (case warmResolver env of
            None \<Rightarrow> (False, sm)
          | Some resolver \<Rightarrow>
             (case resolver recovered expected of
                Some True \<Rightarrow>
                  (True, sm\<lparr>state := (state sm)\<lparr>WarmKeys :=
                     kv_set slot recovered (WarmKeys (state sm))\<rparr>\<rparr>)
              | _ \<Rightarrow> (False, sm))))"

definition CheckWarmKey :: "devshard_env \<Rightarrow> string \<Rightarrow> string \<Rightarrow> bool" where
  "CheckWarmKey env warmAddr coldAddr =
     (case warmResolver env of None \<Rightarrow> False
      | Some resolver \<Rightarrow> resolver warmAddr coldAddr = Some True)"

definition verifyProposerSig ::
  "devshard_env \<Rightarrow> ProtoMsg \<Rightarrow> bytes \<Rightarrow> string \<Rightarrow> u32 \<Rightarrow> StateMachine \<Rightarrow> unit sm_res" where
  "verifyProposerSig env msgWithoutSig sig expectedAddress slot sm =
     (case marshalE env msgWithoutSig of
        Inl e \<Rightarrow> (Inl e, sm)
      | Inr data \<Rightarrow>
         (case RecoverAddress env data sig of
            None \<Rightarrow> (Inl ErrInvalidProposerSig, sm)
          | Some recovered \<Rightarrow>
             if recovered \<noteq> expectedAddress
             then (let (ok, sm1) = (if slot \<noteq> maxU32
                       then ResolveWarmKey env slot recovered expectedAddress sm else (False, sm))
                   in if ok then (Inr (), sm1) else (Inl ErrInvalidProposerSig, sm1))
             else (Inr (), sm)))"

definition addressHasValidated :: "StateMachine \<Rightarrow> InferenceRecord \<Rightarrow> u32 \<Rightarrow> bool" where
  "addressHasValidated sm r slot =
     list_ex (\<lambda>sl. Bitmap_IsSet (ValidatedBy r) sl) (addressToSlots sm (SlotAddress sm slot))"

definition verifyDiffUserSig :: "devshard_env \<Rightarrow> Diff \<Rightarrow> StateMachine \<Rightarrow> devshard_error + unit" where
  "verifyDiffUserSig env d sm =
     bindE (marshalE env (PDiffContent (d_Nonce d) (d_Txs d) (EscrowID (state sm)) (d_PostStateRoot d)))
       (\<lambda>data. case RecoverAddress env data (d_UserSig d) of
          None \<Rightarrow> Inl ErrInvalidUserSig
        | Some recovered \<Rightarrow> if recovered \<noteq> userAddress sm then Inl ErrInvalidUserSig else Inr ())"

section \<open>Transactions\<close>

definition pendingRecord :: "MsgStartInference \<Rightarrow> u32 \<Rightarrow> u64 \<Rightarrow> InferenceRecord" where
  "pendingRecord msg executorSlot reservedCost =
     \<lparr>Status = StatusPending, ExecutorSlot = executorSlot, Model = si_Model msg,
      PromptHash = si_PromptHash msg, ResponseHash = [],
      InputLength = si_InputLength msg, MaxTokens = si_MaxTokens msg,
      InputTokens = 0, OutputTokens = 0, ReservedCost = reservedCost,
      ActualCost = 0, StartedAt = si_StartedAt msg, ConfirmedAt = 0,
      VotesValid = 0, VotesInvalid = 0, ValidatedBy = (0, 0)\<rparr>"

definition applyStartInference ::
  "devshard_env \<Rightarrow> MsgStartInference \<Rightarrow> StateMachine \<Rightarrow> unit sm_res" where
  "applyStartInference env msg sm =
     (if Phase (state sm) \<noteq> PhaseActive then (Inl ErrSessionFinalizing, sm)
      else if isDuplicateInferenceID sm (si_InferenceId msg) then (Inl ErrDuplicateInferenceID, sm)
      else if Group (state sm) = [] then (Inl GoPanic, sm)
      else
        let grp = Group (state sm);
            executorSlot = SlotID (grp ! unat (si_InferenceId msg mod of_nat (length grp)))
        in case tokenCost (si_InputLength msg) (si_MaxTokens msg) (TokenPrice (Config (state sm))) of
             Inl e \<Rightarrow> (Inl e, sm)
           | Inr reservedCost \<Rightarrow>
              if Balance (state sm) < reservedCost then (Inl ErrInsufficientBalance, sm)
              else
                let r = pendingRecord msg executorSlot reservedCost;
                    sm1 = sm\<lparr>state := (state sm)\<lparr>Balance := Balance (state sm) - reservedCost\<rparr>\<rparr>
                in updateCommittedEntryLocked env (si_InferenceId msg) r
                     (setInference (si_InferenceId msg) r sm1))"

text \<open>The outcome when a transaction names an inference that is not live.\<close>

definition notLive :: "u64 \<Rightarrow> StateMachine \<Rightarrow> unit sm_res" where
  "notLive i sm =
     (if isInferenceEvictedFromLive sm i then (Inl ErrInvalidTransition, sm)
      else (Inl ErrInferenceNotFound, sm))"

definition notLiveForValidation :: "u64 \<Rightarrow> StateMachine \<Rightarrow> unit sm_res" where
  "notLiveForValidation i sm =
     (case kv_get (sealedNonces sm) i of
        Some n \<Rightarrow> if n > 0 then (Inl ErrInferenceSealed, sm) else (Inl ErrInferenceNotFound, sm)
      | None \<Rightarrow> (Inl ErrInferenceNotFound, sm))"

definition applyConfirmStart ::
  "devshard_env \<Rightarrow> MsgConfirmStart \<Rightarrow> StateMachine \<Rightarrow> unit sm_res" where
  "applyConfirmStart env msg sm =
     (case kv_get (Inferences (state sm)) (cs_InferenceId msg) of
        None \<Rightarrow> notLive (cs_InferenceId msg) sm
      | Some r \<Rightarrow>
         if Status r \<noteq> StatusPending then (Inl ErrInvalidTransition, sm)
         else
           (case marshalE env (PExecutorReceipt
                \<lparr>er_InferenceId = cs_InferenceId msg, er_PromptHash = PromptHash r,
                 er_Model = Model r, er_InputLength = InputLength r, er_MaxTokens = MaxTokens r,
                 er_StartedAt = StartedAt r, er_EscrowId = EscrowID (state sm),
                 er_ConfirmedAt = cs_ConfirmedAt msg\<rparr>) of
              Inl e \<Rightarrow> (Inl e, sm)
            | Inr receiptData \<Rightarrow>
               (case RecoverAddress env receiptData (cs_ExecutorSig msg) of
                  None \<Rightarrow> (Inl ErrInvalidExecutorSig, sm)
                | Some recovered \<Rightarrow>
                   let expectedAddr = SlotAddress sm (ExecutorSlot r);
                       (ok, sm1) = (if recovered \<noteq> expectedAddr
                         then ResolveWarmKey env (ExecutorSlot r) recovered expectedAddr sm
                         else (True, sm))
                   in if \<not> ok then (Inl ErrInvalidExecutorSig, sm1)
                      else
                        let r1 = r\<lparr>Status := StatusStarted, ConfirmedAt := cs_ConfirmedAt msg\<rparr>
                        in updateCommittedEntryLocked env (cs_InferenceId msg) r1
                             (setInference (cs_InferenceId msg) r1 sm1))))"

definition applyFinishInference ::
  "devshard_env \<Rightarrow> MsgFinishInference \<Rightarrow> StateMachine \<Rightarrow> unit sm_res" where
  "applyFinishInference env msg sm =
     (case kv_get (Inferences (state sm)) (fi_InferenceId msg) of
        None \<Rightarrow> notLive (fi_InferenceId msg) sm
      | Some r \<Rightarrow>
         if Status r \<noteq> StatusStarted then (Inl ErrInvalidTransition, sm)
         else if fi_ExecutorSlot msg \<noteq> ExecutorSlot r then (Inl ErrWrongExecutorSlot, sm)
         else
           (case verifyProposerSig env (PFinish (msg\<lparr>fi_ProposerSig := []\<rparr>)) (fi_ProposerSig msg)
                   (SlotAddress sm (ExecutorSlot r)) (ExecutorSlot r) sm of
              (Inl e, sm1) \<Rightarrow> (Inl e, sm1)
            | (Inr _, sm1) \<Rightarrow>
               if fi_EscrowId msg \<noteq> EscrowID (state sm1) then (Inl ErrEscrowIDMismatch, sm1)
               else
                 (case tokenCost (fi_InputTokens msg) (fi_OutputTokens msg)
                         (TokenPrice (Config (state sm1))) of
                    Inl e \<Rightarrow> (Inl e, sm1)
                  | Inr cost \<Rightarrow>
                     let actualCost = (if cost > ReservedCost r then ReservedCost r else cost);
                         surplus = ReservedCost r - actualCost;
                         r1 = r\<lparr>Status := StatusFinished, ResponseHash := fi_ResponseHash msg,
                                InputTokens := fi_InputTokens msg,
                                OutputTokens := fi_OutputTokens msg, ActualCost := actualCost\<rparr>;
                         sm2 = setInference (fi_InferenceId msg) r1 (addBalance surplus sm1)
                     in case kv_get (HostStatsMap (state sm2)) (ExecutorSlot r) of
                          None \<Rightarrow> (Inl GoPanic, sm2)
                        | Some h \<Rightarrow>
                           updateCommittedEntryLocked env (fi_InferenceId msg) r1
                             (setHostStats (ExecutorSlot r) (h\<lparr>Cost := Cost h + actualCost\<rparr>) sm2))))"

definition validation_status_ok :: "InferenceStatus \<Rightarrow> bool" where
  "validation_status_ok s \<longleftrightarrow>
     s \<in> {StatusFinished, StatusChallenged, StatusValidated, StatusInvalidated}"

definition applyValidation ::
  "devshard_env \<Rightarrow> MsgValidation \<Rightarrow> StateMachine \<Rightarrow> unit sm_res" where
  "applyValidation env msg sm =
     (case kv_get (Inferences (state sm)) (va_InferenceId msg) of
        None \<Rightarrow> notLiveForValidation (va_InferenceId msg) sm
      | Some r \<Rightarrow>
         if kv_get (slotToAddress sm) (va_ValidatorSlot msg) = None then (Inl ErrSlotNotInGroup, sm)
         else if va_ValidatorSlot msg = ExecutorSlot r then (Inl ErrSelfValidation, sm)
         else if addressHasValidated sm r (va_ValidatorSlot msg) then (Inr (), sm)
         else if \<not> validation_status_ok (Status r) then (Inl ErrInvalidTransition, sm)
         else
           (case verifyProposerSig env (PValidation (msg\<lparr>va_ProposerSig := []\<rparr>)) (va_ProposerSig msg)
                   (SlotAddress sm (va_ValidatorSlot msg)) (va_ValidatorSlot msg) sm of
              (Inl e, sm1) \<Rightarrow> (Inl e, sm1)
            | (Inr _, sm1) \<Rightarrow>
               if va_EscrowId msg \<noteq> EscrowID (state sm1) then (Inl ErrEscrowIDMismatch, sm1)
               else
                 let r1 = r\<lparr>ValidatedBy := Bitmap_Set (ValidatedBy r) (va_ValidatorSlot msg)\<rparr>
                 in if Status r1 = StatusFinished
                    then
                      let weight = addressToSlotCount sm1 (SlotAddress sm1 (va_ValidatorSlot msg))
                      in if va_Valid msg
                         then
                           let r2 = r1\<lparr>VotesValid := VotesValid r1 + weight\<rparr>
                           in updateCommittedEntryLocked env (va_InferenceId msg) r2
                                (setInference (va_InferenceId msg) r2 sm1)
                         else
                           let r2 = r1\<lparr>VotesInvalid := VotesInvalid r1 + weight,
                                       Status := StatusChallenged\<rparr>;
                               sm2 = persistLiveInferenceObsBestEffortLocked env (va_InferenceId msg) r2
                                       (setInference (va_InferenceId msg) r2 sm1)
                           in updateCommittedEntryLocked env (va_InferenceId msg) r2 sm2
                    else updateCommittedEntryLocked env (va_InferenceId msg) r1
                           (setInference (va_InferenceId msg) r1 sm1)))"

definition applyValidationVote ::
  "devshard_env \<Rightarrow> MsgValidationVote \<Rightarrow> StateMachine \<Rightarrow> unit sm_res" where
  "applyValidationVote env msg sm =
     (case kv_get (Inferences (state sm)) (vv_InferenceId msg) of
        None \<Rightarrow> notLiveForValidation (vv_InferenceId msg) sm
      | Some r \<Rightarrow>
         if kv_get (slotToAddress sm) (vv_VoterSlot msg) = None then (Inl ErrSlotNotInGroup, sm)
         else if Status r = StatusValidated \<or> Status r = StatusInvalidated then (Inr (), sm)
         else if Status r \<noteq> StatusChallenged then (Inl ErrInvalidTransition, sm)
         else if addressHasValidated sm r (vv_VoterSlot msg) then (Inl ErrDuplicateVote, sm)
         else
           (case verifyProposerSig env (PValidationVote (msg\<lparr>vv_ProposerSig := []\<rparr>))
                   (vv_ProposerSig msg) (SlotAddress sm (vv_VoterSlot msg)) (vv_VoterSlot msg) sm of
              (Inl e, sm1) \<Rightarrow> (Inl e, sm1)
            | (Inr _, sm1) \<Rightarrow>
               if vv_EscrowId msg \<noteq> EscrowID (state sm1) then (Inl ErrEscrowIDMismatch, sm1)
               else
                 let voterAddr = SlotAddress sm1 (vv_VoterSlot msg);
                     weight = addressToSlotCount sm1 voterAddr;
                     r1 = r\<lparr>ValidatedBy := foldl Bitmap_Set (ValidatedBy r) (addressToSlots sm1 voterAddr)\<rparr>;
                     r2 = (if vv_VoteValid msg then r1\<lparr>VotesValid := VotesValid r1 + weight\<rparr>
                           else r1\<lparr>VotesInvalid := VotesInvalid r1 + weight\<rparr>);
                     threshold = VoteThreshold (Config (state sm1))
                 in if VotesInvalid r2 > threshold
                    then
                      let r3 = r2\<lparr>Status := StatusInvalidated\<rparr>;
                          sm2 = setInference (vv_InferenceId msg) r3 sm1
                      in (case kv_get (HostStatsMap (state sm2)) (ExecutorSlot r3) of
                            None \<Rightarrow> (Inl GoPanic, sm2)
                          | Some h \<Rightarrow>
                             let h1 = h\<lparr>Invalid := Invalid h + 1,
                                        Cost := (if Cost h < ActualCost r3 then 0
                                                 else Cost h - ActualCost r3)\<rparr>;
                                 sm3 = persistLiveInferenceObsBestEffortLocked env (vv_InferenceId msg) r3
                                         (addBalance (ActualCost r3) (setHostStats (ExecutorSlot r3) h1 sm2))
                             in updateCommittedEntryLocked env (vv_InferenceId msg) r3 sm3)
                    else if VotesValid r2 > threshold
                    then
                      let r3 = r2\<lparr>Status := StatusValidated\<rparr>;
                          sm2 = persistLiveInferenceObsBestEffortLocked env (vv_InferenceId msg) r3
                                  (setInference (vv_InferenceId msg) r3 sm1)
                      in updateCommittedEntryLocked env (vv_InferenceId msg) r3 sm2
                    else updateCommittedEntryLocked env (vv_InferenceId msg) r2
                           (setInference (vv_InferenceId msg) r2 sm1)))"

text \<open>The loop over the votes of a timeout, with the addresses seen and the weight accepted.\<close>

fun countTimeoutVotes ::
  "devshard_env \<Rightarrow> u64 \<Rightarrow> TimeoutReason \<Rightarrow> TimeoutVote list \<Rightarrow> string list \<Rightarrow> u32 \<Rightarrow> StateMachine
     \<Rightarrow> u32 sm_res" where
  "countTimeoutVotes env i reason [] seen acc sm = (Inr acc, sm)"
| "countTimeoutVotes env i reason (v # vs) seen acc sm =
     (case kv_get (slotToAddress sm) (tv_VoterSlot v) of
        None \<Rightarrow> (Inl ErrSlotNotInGroup, sm)
      | Some voterAddr \<Rightarrow>
         if voterAddr \<in> set seen then (Inl ErrDuplicateVote, sm)
         else
           (case marshalE env (PTimeoutVote (EscrowID (state sm)) i reason (tv_Accept v)) of
              Inl e \<Rightarrow> (Inl e, sm)
            | Inr voteData \<Rightarrow>
               (case RecoverAddress env voteData (tv_Signature v) of
                  None \<Rightarrow> (Inl ErrInvalidVoteSig, sm)
                | Some recovered \<Rightarrow>
                   let (ok, sm1) = (if recovered \<noteq> voterAddr
                         then ResolveWarmKey env (tv_VoterSlot v) recovered voterAddr sm
                         else (True, sm))
                   in if \<not> ok then (Inl ErrInvalidVoteSig, sm1)
                      else countTimeoutVotes env i reason vs (voterAddr # seen)
                             (if tv_Accept v then acc + addressToSlotCount sm1 voterAddr else acc) sm1)))"

definition timeoutReasonOk :: "TimeoutReason \<Rightarrow> InferenceStatus \<Rightarrow> bool" where
  "timeoutReasonOk reason s =
     (case reason of
        TIMEOUT_REASON_REFUSED \<Rightarrow> s = StatusPending
      | TIMEOUT_REASON_EXECUTION \<Rightarrow> s = StatusStarted
      | TIMEOUT_REASON_UNSPECIFIED \<Rightarrow> False)"

definition applyTimeout ::
  "devshard_env \<Rightarrow> MsgTimeoutInference \<Rightarrow> StateMachine \<Rightarrow> unit sm_res" where
  "applyTimeout env msg sm =
     (case kv_get (Inferences (state sm)) (ti_InferenceId msg) of
        None \<Rightarrow> notLive (ti_InferenceId msg) sm
      | Some r \<Rightarrow>
         if \<not> timeoutReasonOk (ti_Reason msg) (Status r) then (Inl ErrInvalidTimeoutReason, sm)
         else
           (case countTimeoutVotes env (ti_InferenceId msg) (ti_Reason msg) (ti_Votes msg) [] 0 sm of
              (Inl e, sm1) \<Rightarrow> (Inl e, sm1)
            | (Inr acceptCount, sm1) \<Rightarrow>
               if acceptCount \<le> VoteThreshold (Config (state sm1)) then (Inl ErrInsufficientVotes, sm1)
               else
                 let r1 = r\<lparr>Status := StatusTimedOut\<rparr>;
                     sm2 = setInference (ti_InferenceId msg) r1 sm1
                 in case kv_get (HostStatsMap (state sm2)) (ExecutorSlot r1) of
                      None \<Rightarrow> (Inl GoPanic, sm2)
                    | Some h \<Rightarrow>
                       updateCommittedEntryLocked env (ti_InferenceId msg) r1
                         (addBalance (ReservedCost r1)
                           (setHostStats (ExecutorSlot r1) (h\<lparr>Missed := Missed h + 1\<rparr>) sm2))))"

definition applyRevealSeed :: "MsgRevealSeed \<Rightarrow> StateMachine \<Rightarrow> unit sm_res" where
  "applyRevealSeed msg sm = (Inr (), sm)"

definition applyFinalizeRound :: "StateMachine \<Rightarrow> unit sm_res" where
  "applyFinalizeRound sm =
     (if Phase (state sm) \<noteq> PhaseActive then (Inl ErrAlreadyFinalizing, sm)
      else (Inr (), sm\<lparr>state := (state sm)\<lparr>Phase := PhaseFinalizing\<rparr>\<rparr>))"

fun applyTx :: "devshard_env \<Rightarrow> DevshardTx \<Rightarrow> StateMachine \<Rightarrow> unit sm_res" where
  "applyTx env (TxStartInference m) sm = applyStartInference env m sm"
| "applyTx env (TxConfirmStart m) sm = applyConfirmStart env m sm"
| "applyTx env (TxFinishInference m) sm = applyFinishInference env m sm"
| "applyTx env (TxValidation m) sm = applyValidation env m sm"
| "applyTx env (TxValidationVote m) sm = applyValidationVote env m sm"
| "applyTx env (TxTimeoutInference m) sm = applyTimeout env m sm"
| "applyTx env (TxRevealSeed m) sm = applyRevealSeed m sm"
| "applyTx env TxFinalizeRound sm = applyFinalizeRound sm"
| "applyTx env TxEmpty sm = (Inl ErrEmptyTx, sm)"

end
