(* ===== verification/DevshardSeal.thy ===== *)
theory DevshardSeal
  imports DevshardMachine
begin

text \<open>
  Sealing (\<open>devshard/state/seal.go\<close> and the settlement default of \<open>machine.go\<close>): the drain of
  the live inferences at settlement, the deterministic auto-seal sweep with its state clock,
  and the rebuilding of committed entries and of the sealed index on recovery. Entries leave
  the live map in ascending id order and are folded into the accumulator.
\<close>

section \<open>The auto-seal schedule\<close>

definition autoSealInterval :: "SessionConfig \<Rightarrow> u64" where
  "autoSealInterval cfg =
     (let n = AutoSealEveryNNonces cfg in if n = 0 then 150 else ucast n)"

definition shouldAutoSealAtNonce :: "u64 \<Rightarrow> u64 \<Rightarrow> bool" where
  "shouldAutoSealAtNonce interval nonce = (if interval = 0 then True else nonce mod interval = 0)"

definition nextAutoSealNonceAtInterval :: "u64 \<Rightarrow> u64 \<Rightarrow> u64" where
  "nextAutoSealNonceAtInterval interval after =
     (let n = after + 1 in
      if interval = 0 then n
      else let r = n mod interval in if r \<noteq> 0 then n + (interval - r) else n)"

section \<open>Committed entries on recovery\<close>

definition rebuildCommittedEntriesLocked :: "devshard_env \<Rightarrow> StateMachine \<Rightarrow> StateMachine" where
  "rebuildCommittedEntriesLocked env sm =
     foldl (\<lambda>s (i, r). snd (updateCommittedEntryLocked env i r s))
       (sm\<lparr>committedEntries := []\<rparr>) (Inferences (state sm))"

definition hydrateCommittedInferenceLocked ::
  "devshard_env \<Rightarrow> StateMachine \<Rightarrow> u64 \<Rightarrow> devshard_error + InferenceRecord" where
  "hydrateCommittedInferenceLocked env sm i =
     (case kv_get (committedEntries sm) i of
        None \<Rightarrow> Inl ErrInferenceNotFound
      | Some entry \<Rightarrow> bindE (unmarshalInferenceEntry env entry) (\<lambda>(entryID, r).
          if entryID \<noteq> i then Inl ErrEntryMismatch else Inr r))"

definition computeStateRootLocked :: "devshard_env \<Rightarrow> StateMachine \<Rightarrow> devshard_error + bytes" where
  "computeStateRootLocked env sm =
     bindE (computeHostStatsHash env (HostStatsMap (state sm))) (\<lambda>hostStatsHash.
     bindE (ComputeRestHashV2 env (Balance (state sm)) (sealedAccBytes32 (SealedAcc (state sm)))
              (Inferences (state sm)) (WarmKeys (state sm))) (\<lambda>restHash.
     Inr (ComputeStateRootFromRestHash hostStatsHash restHash (Fees (state sm)) (Phase (state sm))
            (StateRootAndProtocolVersion (state sm)))))"

definition RestoreCommittedEntries ::
  "devshard_env \<Rightarrow> (u64, bytes) kv \<Rightarrow> StateMachine \<Rightarrow> StateMachine" where
  "RestoreCommittedEntries env entries sm =
     (if entries = [] then rebuildCommittedEntriesLocked env sm
      else foldl (\<lambda>s (i, r). snd (updateCommittedEntryLocked env i r s))
             (sm\<lparr>committedEntries := entries\<rparr>) (Inferences (state sm)))"

definition RestoreSealedNonces :: "(u64, u64) kv \<Rightarrow> StateMachine \<Rightarrow> StateMachine" where
  "RestoreSealedNonces nonces sm = sm\<lparr>sealedNonces := nonces\<rparr>"

definition GetCommittedRecord :: "devshard_env \<Rightarrow> StateMachine \<Rightarrow> u64 \<Rightarrow> InferenceRecord option" where
  "GetCommittedRecord env sm i =
     (case kv_get (Inferences (state sm)) i of
        Some r \<Rightarrow> Some r
      | None \<Rightarrow> (case hydrateCommittedInferenceLocked env sm i of Inl _ \<Rightarrow> None | Inr r \<Rightarrow> Some r))"

section \<open>Settlement drain\<close>

definition settleLiveRecordLocked ::
  "u64 \<Rightarrow> InferenceRecord \<Rightarrow> StateMachine \<Rightarrow> InferenceRecord sm_res" where
  "settleLiveRecordLocked i r sm =
     (case Status r of
        StatusStarted \<Rightarrow>
          let r1 = r\<lparr>ActualCost := ReservedCost r, Status := StatusFinished\<rparr>;
              sm1 = setInference i r1 sm
          in (case kv_get (HostStatsMap (state sm1)) (ExecutorSlot r1) of
                None \<Rightarrow> (Inl GoPanic, sm1)
              | Some h \<Rightarrow> (Inr r1, setHostStats (ExecutorSlot r1)
                  (h\<lparr>Cost := Cost h + ReservedCost r1\<rparr>) sm1))
      | StatusPending \<Rightarrow>
          let r1 = r\<lparr>ActualCost := 0, Status := StatusTimedOut\<rparr>
          in (Inr r1, setInference i r1 (addBalance (ReservedCost r) sm))
      | _ \<Rightarrow> (Inr r, sm))"

text \<open>
  Steps that both seal loops share: the entry just committed, its fold into the accumulator,
  the note of the seal nonce, and the removal from the committed and the live maps.
\<close>

definition foldEntry :: "u64 \<Rightarrow> u64 \<Rightarrow> bytes \<Rightarrow> StateMachine \<Rightarrow> bytes" where
  "foldEntry sealNonce i cur sm = FoldSealedAccumulator cur sealNonce i
     (case kv_get (committedEntries sm) i of None \<Rightarrow> [] | Some e \<Rightarrow> e)"

definition noteSealed :: "u64 \<Rightarrow> u64 \<Rightarrow> StateMachine \<Rightarrow> StateMachine" where
  "noteSealed sealNonce i sm =
     sm\<lparr>sealedNonces := kv_set i sealNonce (sealedNonces sm),
        committedEntries := kv_del i (committedEntries sm)\<rparr>"

definition dropLive :: "u64 \<Rightarrow> StateMachine \<Rightarrow> StateMachine" where
  "dropLive i sm = sm\<lparr>state := (state sm)\<lparr>Inferences := kv_del i (Inferences (state sm))\<rparr>\<rparr>"

definition setSealedAcc :: "bytes \<Rightarrow> StateMachine \<Rightarrow> StateMachine" where
  "setSealedAcc acc sm = sm\<lparr>state := (state sm)\<lparr>SealedAcc := acc\<rparr>\<rparr>"

text \<open>The body of the drain loop for one id, then the loop.\<close>

definition drainOne :: "devshard_env \<Rightarrow> u64 \<Rightarrow> u64 \<Rightarrow> bytes \<Rightarrow> StateMachine \<Rightarrow> bytes sm_res" where
  "drainOne env sealNonce i cur sm =
     (case kv_get (Inferences (state sm)) i of
        None \<Rightarrow> (Inl GoPanic, sm)
      | Some r \<Rightarrow>
         bindS (settleLiveRecordLocked i r sm) (\<lambda>r1 sm1.
         bindS (updateCommittedEntryLocked env i r1 sm1) (\<lambda>_ sm2.
         bindS (upsertInferenceObsLocked env i sealNonce r1 (noteSealed sealNonce i sm2)) (\<lambda>_ sm3.
         (Inr (foldEntry sealNonce i cur sm2), dropLive i sm3)))))"

fun drainLoop :: "devshard_env \<Rightarrow> u64 \<Rightarrow> u64 list \<Rightarrow> bytes \<Rightarrow> StateMachine \<Rightarrow> bytes sm_res" where
  "drainLoop env sealNonce [] cur sm = (Inr cur, sm)"
| "drainLoop env sealNonce (i # is) cur sm =
     bindS (drainOne env sealNonce i cur sm) (\<lambda>cur1 sm1. drainLoop env sealNonce is cur1 sm1)"

definition drainLiveIntoSealedAccLocked ::
  "devshard_env \<Rightarrow> u64 \<Rightarrow> StateMachine \<Rightarrow> unit sm_res" where
  "drainLiveIntoSealedAccLocked env sealNonce sm =
     (if Inferences (state sm) = [] then (Inr (), sm)
      else bindS (drainLoop env sealNonce (map fst (Inferences (state sm)))
                    (sealedAccBytes32 (SealedAcc (state sm))) sm)
             (\<lambda>cur sm1. (Inr (), setSealedAcc cur sm1)))"

section \<open>Auto-seal\<close>

definition sealEligibleStatus :: "InferenceStatus \<Rightarrow> bool" where
  "sealEligibleStatus s \<longleftrightarrow>
     s \<in> {StatusFinished, StatusValidated, StatusInvalidated, StatusTimedOut}"

definition terminalAutoSealStatus :: "InferenceStatus \<Rightarrow> bool" where
  "terminalAutoSealStatus s \<longleftrightarrow> s \<in> {StatusValidated, StatusInvalidated, StatusTimedOut}"

record StateClockWindow =
  Clock :: i64
  MinConfirmedAt :: i64
  MaxConfirmedAt :: i64
  Known :: bool

definition StateClockWindow_zero :: StateClockWindow where
  "StateClockWindow_zero = \<lparr>Clock = 0, MinConfirmedAt = 0, MaxConfirmedAt = 0, Known = False\<rparr>"

text \<open>The scan of the tail window: (records seen, minimum, maximum) over positive times.\<close>

fun scanConfirmed :: "nat \<times> i64 \<times> i64 \<Rightarrow> i64 list \<Rightarrow> nat \<times> i64 \<times> i64" where
  "scanConfirmed acc [] = acc"
| "scanConfirmed (n, mn, mx) (c # cs) =
     (if sint c \<le> 0 then scanConfirmed (n, mn, mx) cs
      else if n = 0 then scanConfirmed (Suc n, c, c) cs
      else scanConfirmed (Suc n, (if sint c < sint mn then c else mn),
             (if sint mx < sint c then c else mx)) cs)"

definition stateClockLocked :: "StateMachine \<Rightarrow> StateClockWindow" where
  "stateClockLocked sm =
     (let infs = Inferences (state sm) in
      if infs = [] then StateClockWindow_zero
      else
        let window = length (Group (state sm)) * 3;
            window = (if window \<le> 0 then 3 else window);
            start = (if window < length infs then length infs - window else 0);
            (n, mn, mx) = scanConfirmed (0, 0, 0) (map (ConfirmedAt \<circ> snd) (drop start infs))
        in if n = 0 then StateClockWindow_zero
           else \<lparr>Clock = mx, MinConfirmedAt = mn, MaxConfirmedAt = mx, Known = True\<rparr>)"

definition autoSealEligible :: "SessionConfig \<Rightarrow> i64 \<Rightarrow> u64 \<Rightarrow> u64 \<Rightarrow> InferenceRecord \<Rightarrow> bool" where
  "autoSealEligible cfg stateClock sealNonce i r =
     (let sealGraceNonces = ucast (InferenceSealGraceNonces cfg);
          graceSeconds = ucast (InferenceSealGraceSeconds cfg) in
      if \<not> sealEligibleStatus (Status r) then False
      else if \<not> (sealNonce \<ge> i + sealGraceNonces) then False
      else if terminalAutoSealStatus (Status r) then True
      else let remaining = graceSeconds - (stateClock - ConfirmedAt r) in sint remaining \<le> 0)"

definition autoSealOne :: "devshard_env \<Rightarrow> u64 \<Rightarrow> u64 \<Rightarrow> bytes \<Rightarrow> StateMachine \<Rightarrow> bytes sm_res" where
  "autoSealOne env sealNonce i cur sm =
     (case kv_get (Inferences (state sm)) i of
        None \<Rightarrow> (Inl GoPanic, sm)
      | Some r \<Rightarrow>
         bindS (updateCommittedEntryLocked env i r sm) (\<lambda>_ sm1.
         let sm2 = snd (upsertInferenceObsLocked env i sealNonce r (noteSealed sealNonce i sm1))
         in (Inr (foldEntry sealNonce i cur sm1), dropLive i sm2)))"

fun autoSealLoop :: "devshard_env \<Rightarrow> u64 \<Rightarrow> u64 list \<Rightarrow> bytes \<Rightarrow> StateMachine \<Rightarrow> bytes sm_res" where
  "autoSealLoop env sealNonce [] cur sm = (Inr cur, sm)"
| "autoSealLoop env sealNonce (i # is) cur sm =
     bindS (autoSealOne env sealNonce i cur sm) (\<lambda>cur1 sm1. autoSealLoop env sealNonce is cur1 sm1)"

definition autoSealLocked ::
  "devshard_env \<Rightarrow> u64 \<Rightarrow> StateMachine \<Rightarrow> (u64 list \<times> StateClockWindow) sm_res" where
  "autoSealLocked env sealNonce sm =
     (let clockWin = stateClockLocked sm;
          stateClock = Clock clockWin in
      if Inferences (state sm) = [] \<or> stateClock = 0 then (Inr ([], StateClockWindow_zero), sm)
      else
        let eligible = map fst (filter (\<lambda>(i, r).
              autoSealEligible (Config (state sm)) stateClock sealNonce i r) (Inferences (state sm)))
        in if eligible = [] then (Inr ([], clockWin), sm)
           else bindS (autoSealLoop env sealNonce eligible
                         (sealedAccBytes32 (SealedAcc (state sm))) sm)
                  (\<lambda>cur sm1. (Inr (eligible, clockWin), setSealedAcc cur sm1)))"

definition SealInference :: "devshard_env \<Rightarrow> u64 \<Rightarrow> StateMachine \<Rightarrow> unit sm_res" where
  "SealInference env i sm =
     (case kv_get (Inferences (state sm)) i of
        None \<Rightarrow> (Inr (), sm)
      | Some r \<Rightarrow>
         bindS (updateCommittedEntryLocked env i r sm) (\<lambda>_ sm1.
         let sealNonce = LatestNonce (state sm1);
             acc = foldEntry sealNonce i (sealedAccBytes32 (SealedAcc (state sm1))) sm1
         in bindS (upsertInferenceObsLocked env i sealNonce r
                     (setSealedAcc acc (noteSealed sealNonce i sm1)))
              (\<lambda>_ sm2. (Inr (), dropLive i sm2))))"

section \<open>Sealed rows\<close>

definition lookupSealedInferenceLocked ::
  "devshard_env \<Rightarrow> StateMachine \<Rightarrow> u64 \<Rightarrow> InferenceRecord option" where
  "lookupSealedInferenceLocked env sm i =
     (case GetSealedInference env (storeLog sm) (EscrowID (state sm)) i of
        None \<Rightarrow> None
      | Some row \<Rightarrow> if row_ObsPresent row then Some (inferenceRecordFromObsRow row) else None)"

definition exportSealed ::
  "devshard_env \<Rightarrow> StateMachine \<Rightarrow> u64 \<Rightarrow> (u64, InferenceRecord) kv \<Rightarrow> (u64, InferenceRecord) kv" where
  "exportSealed env sm i out =
     (if kv_get out i \<noteq> None then out
      else case lookupSealedInferenceLocked env sm i of
        Some r \<Rightarrow> kv_set i r out
      | None \<Rightarrow> (case hydrateCommittedInferenceLocked env sm i of
          Inr r \<Rightarrow> kv_set i r out | Inl _ \<Rightarrow> out))"

definition ExportAllInferenceRecords ::
  "devshard_env \<Rightarrow> StateMachine \<Rightarrow> (u64, InferenceRecord) kv" where
  "ExportAllInferenceRecords env sm =
     foldl (\<lambda>out i. exportSealed env sm i out) (Inferences (state sm)) (map fst (sealedNonces sm))"

fun rebuildLoop :: "devshard_env \<Rightarrow> (u64, u64) kv \<Rightarrow> StateMachine \<Rightarrow> unit sm_res" where
  "rebuildLoop env [] sm = (Inr (), sm)"
| "rebuildLoop env ((i, nonce) # ps) sm =
     (if kv_get (Inferences (state sm)) i \<noteq> None then rebuildLoop env ps sm
      else
        let bare = \<lparr>row_InferenceID = i, row_SealedNonce = nonce, row_ObsPresent = False,
                    row_Status = 0, row_ExecutorSlot = 0, row_VotesValid = 0,
                    row_VotesInvalid = 0, row_ValidatedBy = [], row_Model = [],
                    row_PromptHash = [], row_ResponseHash = [], row_InputLength = 0,
                    row_MaxTokens = 0, row_InputTokens = 0, row_OutputTokens = 0,
                    row_ReservedCost = 0, row_ActualCost = 0, row_StartedAt = 0,
                    row_ConfirmedAt = 0\<rparr>;
            row = (case kv_get (committedEntries sm) i of
                     None \<Rightarrow> bare
                   | Some cached \<Rightarrow>
                      (case unmarshalInferenceEntry env cached of
                         Inl _ \<Rightarrow> bare
                       | Inr (entryID, r) \<Rightarrow>
                          if entryID = i then inferenceObsRow i nonce r else bare))
        in bindS (storeCall env (InsertSealedInference (EscrowID (state sm)) row) sm)
             (\<lambda>_ sm1. rebuildLoop env ps sm1))"

definition RebuildSealedInferenceIndex :: "devshard_env \<Rightarrow> StateMachine \<Rightarrow> unit sm_res" where
  "RebuildSealedInferenceIndex env sm =
     bindS (storeCall env (DeleteSealedInferences (EscrowID (state sm))) sm)
       (\<lambda>_ sm1. rebuildLoop env (sealedNonces sm1) sm1)"

end
