(* ===== verification/DevshardDiff.thy ===== *)
theory DevshardDiff
  imports DevshardSeal
begin

text \<open>
  The application of a diff (\<open>devshard/state/machine.go\<close>): the strict application by a host
  or a replay (\<open>applyCore\<close>, \<open>ApplyDiff\<close>, \<open>ApplyLocal\<close>), the best-effort composition by the
  user, the persist-first pair of validation (or preview) and commit, and the restoration of
  a stored state. Every error return of \<open>applyCore\<close> restores the snapshot taken first; a panic
  restores nothing.
\<close>

section \<open>Rollback\<close>

definition orRollback ::
  "mutableSnapshot \<Rightarrow> 'a sm_res \<Rightarrow> ('a \<Rightarrow> StateMachine \<Rightarrow> 'b sm_res) \<Rightarrow> 'b sm_res" where
  "orRollback snap r k =
     (case r of
        (Inl e, sm) \<Rightarrow> (Inl e, if e = GoPanic then sm else restoreMutable snap sm)
      | (Inr a, sm) \<Rightarrow> k a sm)"

section \<open>The end of a nonce\<close>

text \<open>
  The checks before and the steps after the transactions, which \<open>applyCore\<close> and
  \<open>localBestEffortLocked\<close> both contain: the start messages of the diff, the fee of the nonce,
  the nonce and the finalization nonce, the transition to settlement, auto-seal and the root.
\<close>

fun start_id :: "DevshardTx \<Rightarrow> u64 option" where
  "start_id (TxStartInference m) = Some (si_InferenceId m)"
| "start_id _ = None"

definition checkStarts :: "u64 \<Rightarrow> DevshardTx list \<Rightarrow> devshard_error + unit" where
  "checkStarts nonce txs =
     (let ids = List.map_filter start_id txs in
      if list_ex (\<lambda>i. i \<noteq> nonce) ids then Inl ErrInvalidInferenceID
      else if length ids > 1 then Inl ErrMultipleStartMsgs else Inr ())"

definition chargeNonceFee :: "StateMachine \<Rightarrow> unit sm_res" where
  "chargeNonceFee sm =
     (if Phase (state sm) = PhaseActive
      then if Balance (state sm) < FeePerNonce (Config (state sm))
           then (Inl ErrInsufficientBalance, sm)
           else (Inr (), sm\<lparr>state := (state sm)
             \<lparr>Balance := Balance (state sm) - FeePerNonce (Config (state sm)),
              Fees := Fees (state sm) + FeePerNonce (Config (state sm))\<rparr>\<rparr>)
      else (Inr (), sm))"

definition advanceNonce :: "u64 \<Rightarrow> StateMachine \<Rightarrow> StateMachine" where
  "advanceNonce nonce sm =
     (let sm1 = sm\<lparr>state := (state sm)\<lparr>LatestNonce := nonce\<rparr>\<rparr> in
      if Phase (state sm1) = PhaseFinalizing \<and> FinalizeNonce (state sm1) = 0
      then sm1\<lparr>state := (state sm1)\<lparr>FinalizeNonce := nonce\<rparr>\<rparr> else sm1)"

definition settleAtDeadline :: "devshard_env \<Rightarrow> StateMachine \<Rightarrow> unit sm_res" where
  "settleAtDeadline env sm =
     (if Phase (state sm) = PhaseFinalizing
         \<and> LatestNonce (state sm) \<ge> FinalizeNonce (state sm) + of_nat (length (Group (state sm)))
      then drainLiveIntoSealedAccLocked env (LatestNonce (state sm))
             (sm\<lparr>state := (state sm)\<lparr>Phase := PhaseSettlement\<rparr>\<rparr>)
      else (Inr (), sm))"

definition autoSealStep :: "devshard_env \<Rightarrow> u64 \<Rightarrow> StateMachine \<Rightarrow> unit sm_res" where
  "autoSealStep env nonce sm =
     (if Phase (state sm) = PhaseActive
         \<and> shouldAutoSealAtNonce (autoSealInterval (Config (state sm))) nonce
      then bindS (autoSealLocked env nonce sm) (\<lambda>_ sm1. (Inr (), sm1))
      else (Inr (), sm))"

definition finishNonce :: "devshard_env \<Rightarrow> u64 \<Rightarrow> StateMachine \<Rightarrow> bytes sm_res" where
  "finishNonce env nonce sm =
     bindS (chargeNonceFee sm) (\<lambda>_ sm1.
     bindS (settleAtDeadline env (advanceNonce nonce sm1)) (\<lambda>_ sm2.
     bindS (autoSealStep env nonce sm2) (\<lambda>_ sm3.
     (computeStateRootLocked env sm3, sm3))))"

section \<open>Strict application\<close>

fun applyTxs :: "devshard_env \<Rightarrow> DevshardTx list \<Rightarrow> StateMachine \<Rightarrow> unit sm_res" where
  "applyTxs env [] sm = (Inr (), sm)"
| "applyTxs env (tx # txs) sm = bindS (applyTx env tx sm) (\<lambda>_ sm1. applyTxs env txs sm1)"

definition applyCore ::
  "devshard_env \<Rightarrow> u64 \<Rightarrow> DevshardTx list \<Rightarrow> bytes \<Rightarrow> StateMachine \<Rightarrow> bytes sm_res" where
  "applyCore env nonce txs postStateRoot sm =
     (if nonce \<noteq> LatestNonce (state sm) + 1 then (Inl ErrInvalidNonce, sm)
      else case checkStarts nonce txs of
        Inl e \<Rightarrow> (Inl e, sm)
      | Inr _ \<Rightarrow>
         let snap = snapshotMutable sm in
         orRollback snap (applyTxs env txs sm) (\<lambda>_ sm1.
         orRollback snap (finishNonce env nonce sm1) (\<lambda>root sm2.
         if postStateRoot \<noteq> [] \<and> root \<noteq> postStateRoot
         then (Inl ErrPostStateRootMismatch, restoreMutable snap sm2)
         else (Inr root, sm2))))"

definition ApplyDiff :: "devshard_env \<Rightarrow> Diff \<Rightarrow> StateMachine \<Rightarrow> bytes sm_res" where
  "ApplyDiff env d sm =
     (case verifyDiffUserSig env d sm of
        Inl e \<Rightarrow> (Inl e, sm)
      | Inr _ \<Rightarrow> applyCore env (d_Nonce d) (d_Txs d) (d_PostStateRoot d) sm)"

definition ApplyLocal :: "devshard_env \<Rightarrow> u64 \<Rightarrow> DevshardTx list \<Rightarrow> StateMachine \<Rightarrow> bytes sm_res" where
  "ApplyLocal env nonce txs sm = applyCore env nonce txs [] sm"

section \<open>Best-effort composition\<close>

fun applyBestEffort ::
  "devshard_env \<Rightarrow> DevshardTx list \<Rightarrow> StateMachine \<Rightarrow> (DevshardTx list) sm_res" where
  "applyBestEffort env [] sm = (Inr [], sm)"
| "applyBestEffort env (tx # txs) sm =
     (case applyTx env tx sm of
        (Inr _, sm1) \<Rightarrow>
          bindS (applyBestEffort env txs sm1) (\<lambda>applied sm2. (Inr (tx # applied), sm2))
      | (Inl e, sm1) \<Rightarrow>
          if e = GoPanic \<or> start_id tx \<noteq> None then (Inl e, sm1)
          else applyBestEffort env txs sm1)"

definition localBestEffortLocked ::
  "devshard_env \<Rightarrow> u64 \<Rightarrow> DevshardTx list \<Rightarrow> StateMachine \<Rightarrow> (bytes \<times> DevshardTx list) sm_res" where
  "localBestEffortLocked env nonce txs sm =
     (let snap = snapshotMutable sm in
      if nonce \<noteq> LatestNonce (state sm) + 1 then (Inl ErrInvalidNonce, sm)
      else case checkStarts nonce txs of
        Inl e \<Rightarrow> (Inl e, sm)
      | Inr _ \<Rightarrow>
         orRollback snap (applyBestEffort env txs sm) (\<lambda>applied sm1.
         orRollback snap (finishNonce env nonce sm1) (\<lambda>root sm2.
         (Inr (root, applied), sm2))))"

definition ApplyLocalBestEffort ::
  "devshard_env \<Rightarrow> u64 \<Rightarrow> DevshardTx list \<Rightarrow> StateMachine \<Rightarrow> (bytes \<times> DevshardTx list) sm_res" where
  "ApplyLocalBestEffort env nonce txs sm = localBestEffortLocked env nonce txs sm"

section \<open>Validate, then commit\<close>

text \<open>
  A trial application on the live machine: observability writes are buffered, and the mutable
  state is restored on success too.
\<close>

definition trialApply ::
  "(StateMachine \<Rightarrow> 'a sm_res) \<Rightarrow> ('a \<Rightarrow> ValidatedDiff \<Rightarrow> ValidatedDiff) \<Rightarrow> u64 \<Rightarrow> StateMachine
     \<Rightarrow> ValidatedDiff sm_res" where
  "trialApply f fill nonce sm =
     (let pre = snapshotMutable sm in
      case f (sm\<lparr>obsDeferred := Some []\<rparr>) of
        (Inl e, sm1) \<Rightarrow> (Inl e, if e = GoPanic then sm1 else sm1\<lparr>obsDeferred := None\<rparr>)
      | (Inr a, sm1) \<Rightarrow>
         (Inr (fill a \<lparr>vd_Root = [], vd_WarmAfter = WarmKeys (state sm1), vd_Applied = [],
                vd_nonce = nonce, vd_post = snapshotMutable sm1,
                vd_obs = (case obsDeferred sm1 of None \<Rightarrow> [] | Some ws \<Rightarrow> ws)\<rparr>),
          restoreMutable pre (sm1\<lparr>obsDeferred := None\<rparr>)))"

definition ValidateDiff :: "devshard_env \<Rightarrow> Diff \<Rightarrow> StateMachine \<Rightarrow> ValidatedDiff sm_res" where
  "ValidateDiff env d sm =
     (case verifyDiffUserSig env d sm of
        Inl e \<Rightarrow> (Inl e, sm)
      | Inr _ \<Rightarrow> trialApply (applyCore env (d_Nonce d) (d_Txs d) (d_PostStateRoot d))
          (\<lambda>root vd. vd\<lparr>vd_Root := root\<rparr>) (d_Nonce d) sm)"

definition PreviewLocalBestEffort ::
  "devshard_env \<Rightarrow> u64 \<Rightarrow> DevshardTx list \<Rightarrow> StateMachine \<Rightarrow> ValidatedDiff sm_res" where
  "PreviewLocalBestEffort env nonce txs sm =
     trialApply (localBestEffortLocked env nonce txs)
       (\<lambda>(root, applied) vd. vd\<lparr>vd_Root := root, vd_Applied := applied\<rparr>) nonce sm"

definition flushWrite :: "devshard_env \<Rightarrow> StateMachine \<Rightarrow> deferredObsWrite \<Rightarrow> StateMachine" where
  "flushWrite env sm w =
     (case storeCall env (InsertSealedInference (EscrowID (state sm)) (dw_row w)) sm of
        (Inl _, sm1) \<Rightarrow> sm1
      | (Inr _, sm1) \<Rightarrow>
         if dw_drain w
         then snd (storeCall env (DrainInferenceValidationObs (EscrowID (state sm1)) (dw_id w)) sm1)
         else sm1)"

definition flushDeferredObsLocked ::
  "devshard_env \<Rightarrow> deferredObsWrite list \<Rightarrow> StateMachine \<Rightarrow> StateMachine" where
  "flushDeferredObsLocked env writes sm = foldl (flushWrite env) sm writes"

definition CommitValidated :: "devshard_env \<Rightarrow> ValidatedDiff \<Rightarrow> StateMachine \<Rightarrow> bool \<times> StateMachine" where
  "CommitValidated env vd sm =
     (if vd_nonce vd \<noteq> LatestNonce (state sm) + 1 then (False, sm)
      else (True, flushDeferredObsLocked env (vd_obs vd) (restoreMutable (vd_post vd) sm)))"

section \<open>Recovery\<close>

definition InjectWarmKeys :: "(u32, string) kv \<Rightarrow> StateMachine \<Rightarrow> StateMachine" where
  "InjectWarmKeys delta sm =
     foldl (\<lambda>s (slot, addr).
        if kv_get (WarmKeys (state s)) slot \<noteq> None then s
        else s\<lparr>state := (state s)\<lparr>WarmKeys := kv_set slot addr (WarmKeys (state s))\<rparr>\<rparr>) sm delta"

definition RestoreState :: "devshard_env \<Rightarrow> EscrowState option \<Rightarrow> StateMachine \<Rightarrow> StateMachine" where
  "RestoreState env st sm =
     (case st of None \<Rightarrow> sm
      | Some s \<Rightarrow> rebuildCommittedEntriesLocked env (sm\<lparr>state := s\<rparr>))"

end
