(* ===== verification/DevshardSession.thy ===== *)
theory DevshardSession
  imports DevshardTypes
begin

text \<open>
  The contract of a devshard session, stated without signatures, serialisation or storage:
  which changes of an inference and of its executor's statistics are allowed, how much each
  credits to the escrow, and how a session moves. The theory shows that every run of the
  contract conserves the escrowed amount, never pays an executor less than the live
  inferences it was paid for, never counts more missed and invalid inferences for a slot
  than were assigned to it, and never counts an address twice in a vote. \<open>DevshardRefine\<close>
  shows that the state machine implements this contract.
\<close>

section \<open>Terms of a session\<close>

text \<open>What is fixed for a session: the slots by position, their owners and vote weights.\<close>

record terms =
  t_slots :: "u32 list"
  t_owner :: "u32 \<Rightarrow> string"
  t_weight :: "string \<Rightarrow> u32"
  t_slotsOf :: "string \<Rightarrow> u32 list"
  t_threshold :: u32

definition terms_ok :: "terms \<Rightarrow> bool" where
  "terms_ok T \<longleftrightarrow>
     t_slots T \<noteq> [] \<and> length (t_slots T) \<le> MaxGroupSize
     \<and> t_slots T = map of_nat [0..<length (t_slots T)]
     \<and> (\<forall>a. t_slotsOf T a = filter (\<lambda>s. t_owner T s = a) (t_slots T)
          \<and> unat (t_weight T a) = length (t_slotsOf T a))"

definition slot_of :: "terms \<Rightarrow> u64 \<Rightarrow> u32" where
  "slot_of T i = t_slots T ! unat (i mod of_nat (length (t_slots T)))"

section \<open>Changes of one inference\<close>

text \<open>
  A vote of the owner of \<open>slot\<close>, none of whose slots has voted before: the bit of the slot or
  of all slots of the owner is set, and the weight goes to one of the tallies or to none.
\<close>

definition mark :: "terms \<Rightarrow> u32 \<Rightarrow> InferenceRecord \<Rightarrow> Bitmap128 \<Rightarrow> bool" where
  "mark T slot r vb \<longleftrightarrow>
     slot \<in> set (t_slots T)
     \<and> (\<forall>s \<in> set (t_slotsOf T (t_owner T slot)). \<not> Bitmap_IsSet (ValidatedBy r) s)
     \<and> (vb = Bitmap_Set (ValidatedBy r) slot
        \<or> vb = foldl Bitmap_Set (ValidatedBy r) (t_slotsOf T (t_owner T slot)))"

definition tally :: "terms \<Rightarrow> u32 \<Rightarrow> bool \<Rightarrow> InferenceRecord \<Rightarrow> InferenceRecord" where
  "tally T slot valid r =
     (if valid then r\<lparr>VotesValid := VotesValid r + t_weight T (t_owner T slot)\<rparr>
      else r\<lparr>VotesInvalid := VotesInvalid r + t_weight T (t_owner T slot)\<rparr>)"

text \<open>
  \<open>change T r h r' h' g\<close>: record \<open>r\<close> with executor statistics \<open>h\<close> may become \<open>r'\<close> with \<open>h'\<close>,
  and \<open>g\<close> is credited to the free balance.
\<close>

inductive change ::
  "terms \<Rightarrow> InferenceRecord \<Rightarrow> HostStats \<Rightarrow> InferenceRecord \<Rightarrow> HostStats \<Rightarrow> u64 \<Rightarrow> bool" for T where
  confirm: "Status r = StatusPending \<Longrightarrow>
     change T r h (r\<lparr>Status := StatusStarted, ConfirmedAt := t\<rparr>) h 0"
| finish: "Status r = StatusStarted \<Longrightarrow> c \<le> ReservedCost r \<Longrightarrow>
     change T r h
       (r\<lparr>Status := StatusFinished, ResponseHash := rh, InputTokens := it, OutputTokens := ot,
          ActualCost := c\<rparr>)
       (h\<lparr>Cost := Cost h + c\<rparr>) (ReservedCost r - c)"
| note_late: "Status r \<in> {StatusChallenged, StatusValidated, StatusInvalidated} \<Longrightarrow>
     mark T slot r vb \<Longrightarrow> change T r h (r\<lparr>ValidatedBy := vb\<rparr>) h 0"
| approve: "Status r = StatusFinished \<Longrightarrow> mark T slot r vb \<Longrightarrow>
     change T r h (tally T slot True (r\<lparr>ValidatedBy := vb\<rparr>)) h 0"
| challenge: "Status r = StatusFinished \<Longrightarrow> mark T slot r vb \<Longrightarrow>
     change T r h
       ((tally T slot False (r\<lparr>ValidatedBy := vb\<rparr>))\<lparr>Status := StatusChallenged\<rparr>) h 0"
| vote: "Status r = StatusChallenged \<Longrightarrow> mark T slot r vb \<Longrightarrow>
     change T r h (tally T slot valid (r\<lparr>ValidatedBy := vb\<rparr>)) h 0"
| uphold: "Status r = StatusChallenged \<Longrightarrow> mark T slot r vb \<Longrightarrow>
     r' = tally T slot valid (r\<lparr>ValidatedBy := vb\<rparr>) \<Longrightarrow> VotesValid r' > t_threshold T \<Longrightarrow>
     change T r h (r'\<lparr>Status := StatusValidated\<rparr>) h 0"
| overturn: "Status r = StatusChallenged \<Longrightarrow> mark T slot r vb \<Longrightarrow>
     r' = tally T slot valid (r\<lparr>ValidatedBy := vb\<rparr>) \<Longrightarrow> VotesInvalid r' > t_threshold T \<Longrightarrow>
     change T r h (r'\<lparr>Status := StatusInvalidated\<rparr>)
       (h\<lparr>Invalid := Invalid h + 1,
          Cost := (if Cost h < ActualCost r then 0 else Cost h - ActualCost r)\<rparr>)
       (ActualCost r)"
| timeout: "Status r \<in> {StatusPending, StatusStarted} \<Longrightarrow>
     change T r h (r\<lparr>Status := StatusTimedOut\<rparr>) (h\<lparr>Missed := Missed h + 1\<rparr>) (ReservedCost r)"

text \<open>The settlement defaults for inferences still in flight.\<close>

inductive settle_change ::
  "InferenceRecord \<Rightarrow> HostStats \<Rightarrow> InferenceRecord \<Rightarrow> HostStats \<Rightarrow> u64 \<Rightarrow> bool" where
  settle_started: "Status r = StatusStarted \<Longrightarrow>
     settle_change r h (r\<lparr>ActualCost := ReservedCost r, Status := StatusFinished\<rparr>)
       (h\<lparr>Cost := Cost h + ReservedCost r\<rparr>) 0"
| settle_pending: "Status r = StatusPending \<Longrightarrow>
     settle_change r h (r\<lparr>ActualCost := 0, Status := StatusTimedOut\<rparr>) h (ReservedCost r)"

section \<open>Sessions\<close>

record session =
  s_free :: u64
  s_fees :: u64
  s_phase :: SessionPhase
  s_nonce :: u64
  s_hosts :: "(u32, HostStats) kv"
  s_live :: "(u64, InferenceRecord) kv"
  s_known :: "u64 set"

definition moved :: "u64 \<Rightarrow> InferenceRecord \<Rightarrow> HostStats \<Rightarrow> u64 \<Rightarrow> session \<Rightarrow> session" where
  "moved i r' h' g s = s\<lparr>s_free := s_free s + g, s_live := kv_set i r' (s_live s),
     s_hosts := kv_set (ExecutorSlot r') h' (s_hosts s)\<rparr>"

text \<open>The steps of a transaction.\<close>

inductive tx_step :: "terms \<Rightarrow> session \<Rightarrow> session \<Rightarrow> bool" for T where
  start: "s_phase s = PhaseActive \<Longrightarrow> i = s_nonce s + 1 \<Longrightarrow> i \<notin> s_known s \<Longrightarrow>
     Status r = StatusPending \<Longrightarrow> ExecutorSlot r = slot_of T i \<Longrightarrow>
     VotesValid r = 0 \<Longrightarrow> VotesInvalid r = 0 \<Longrightarrow> ReservedCost r \<le> s_free s \<Longrightarrow>
     tx_step T s (s\<lparr>s_free := s_free s - ReservedCost r, s_live := kv_set i r (s_live s),
       s_known := insert i (s_known s)\<rparr>)"
| move: "kv_get (s_live s) i = Some r \<Longrightarrow> kv_get (s_hosts s) (ExecutorSlot r) = Some h \<Longrightarrow>
     change T r h r' h' g \<Longrightarrow> tx_step T s (moved i r' h' g s)"
| finalize: "s_phase s = PhaseActive \<Longrightarrow> tx_step T s (s\<lparr>s_phase := PhaseFinalizing\<rparr>)"

text \<open>The steps at the end of a nonce, and sealing.\<close>

inductive end_step :: "session \<Rightarrow> session \<Rightarrow> bool" where
  fee: "s_phase s = PhaseActive \<Longrightarrow> f \<le> s_free s \<Longrightarrow>
     end_step s (s\<lparr>s_free := s_free s - f, s_fees := s_fees s + f\<rparr>)"
| tick: "end_step s (s\<lparr>s_nonce := s_nonce s + 1\<rparr>)"
| deadline: "s_phase s = PhaseFinalizing \<Longrightarrow> end_step s (s\<lparr>s_phase := PhaseSettlement\<rparr>)"
| settle: "kv_get (s_live s) i = Some r \<Longrightarrow> kv_get (s_hosts s) (ExecutorSlot r) = Some h \<Longrightarrow>
     settle_change r h r' h' g \<Longrightarrow> end_step s (moved i r' h' g s)"
| seal: "kv_get (s_live s) i = Some r \<Longrightarrow> Status r \<notin> {StatusPending, StatusStarted} \<Longrightarrow>
     end_step s (s\<lparr>s_live := kv_del i (s_live s)\<rparr>)"

definition sess_step :: "terms \<Rightarrow> session \<Rightarrow> session \<Rightarrow> bool" where
  "sess_step T s s' \<longleftrightarrow> tx_step T s s' \<or> end_step s s'"

inductive_cases change_cases: "change T r h r' h' g"
inductive_cases settle_change_cases: "settle_change r h r' h' g"

section \<open>Books\<close>

definition held :: "InferenceRecord \<Rightarrow> nat" where
  "held r = (if Status r \<in> {StatusPending, StatusStarted} then unat (ReservedCost r) else 0)"

definition paid :: "InferenceRecord \<Rightarrow> nat" where
  "paid r = (if Status r \<in> {StatusFinished, StatusChallenged, StatusValidated}
             then unat (ActualCost r) else 0)"

text \<open>Inferences that may still end as missed or invalid.\<close>

definition undecided :: "InferenceRecord \<Rightarrow> nat" where
  "undecided r = (if Status r \<in> {StatusPending, StatusStarted, StatusFinished, StatusChallenged}
                  then 1 else 0)"

definition only_slot :: "u32 \<Rightarrow> (InferenceRecord \<Rightarrow> nat) \<Rightarrow> u64 \<Rightarrow> InferenceRecord \<Rightarrow> nat" where
  "only_slot slot f i r = (if ExecutorSlot r = slot then f r else 0)"

definition costs :: "(u32, HostStats) kv \<Rightarrow> nat" where
  "costs hosts = kv_sum (\<lambda>_ h. unat (Cost h)) hosts"

definition wealth :: "session \<Rightarrow> nat" where
  "wealth s = unat (s_free s) + unat (s_fees s) + costs (s_hosts s)
     + kv_sum (\<lambda>_. held) (s_live s)"

definition faults :: "HostStats \<Rightarrow> nat" where
  "faults h = unat (Missed h) + unat (Invalid h)"

definition voted :: "terms \<Rightarrow> Bitmap128 \<Rightarrow> u32 set" where
  "voted T vb = {s \<in> set (t_slots T).
     \<exists>s' \<in> set (t_slots T). t_owner T s' = t_owner T s \<and> Bitmap_IsSet vb s'}"

definition votes_ok :: "terms \<Rightarrow> InferenceRecord \<Rightarrow> bool" where
  "votes_ok T r \<longleftrightarrow>
     unat (VotesValid r) + unat (VotesInvalid r) \<le> card (voted T (ValidatedBy r))"

definition maps_ok :: "terms \<Rightarrow> session \<Rightarrow> bool" where
  "maps_ok T s \<longleftrightarrow> kv_inv (s_live s) \<and> kv_inv (s_hosts s)
     \<and> set (t_slots T) \<subseteq> dom (kv_get (s_hosts s))
     \<and> finite (s_known s) \<and> dom (kv_get (s_live s)) \<subseteq> s_known s
     \<and> (\<forall>i r. kv_get (s_live s) i = Some r \<longrightarrow> ExecutorSlot r = slot_of T i \<and> votes_ok T r)"

definition books_ok :: "terms \<Rightarrow> session \<Rightarrow> bool" where
  "books_ok T s \<longleftrightarrow>
     (\<forall>slot h. kv_get (s_hosts s) slot = Some h \<longrightarrow>
        kv_sum (only_slot slot paid) (s_live s) \<le> unat (Cost h)
        \<and> faults h + kv_sum (only_slot slot undecided) (s_live s)
            \<le> card {i \<in> s_known s. slot_of T i = slot})"

definition session_ok :: "terms \<Rightarrow> session \<Rightarrow> bool" where
  "session_ok T s \<longleftrightarrow> terms_ok T \<and> maps_ok T s \<and> books_ok T s \<and> wealth s < 2 ^ 64"

section \<open>Local facts about changes\<close>

lemma slot_of_in:
  assumes "terms_ok T"
  shows "slot_of T i \<in> set (t_slots T)"
proof -
  let ?n = "length (t_slots T)"
  have n: "0 < ?n" "?n \<le> 128"
    using assms by (auto simp: terms_ok_def MaxGroupSize_def)
  then have "unat (of_nat ?n :: u64) = ?n"
    by (simp add: unat_of_nat)
  with n have "unat (i mod of_nat ?n) < ?n"
    by (simp add: unat_mod_distrib)
  then show ?thesis
    by (simp add: slot_of_def)
qed

lemma change_executor [simp]: "change T r h r' h' g \<Longrightarrow> ExecutorSlot r' = ExecutorSlot r"
  by (auto elim!: change.cases simp: tally_def)

lemma settle_change_executor [simp]: "settle_change r h r' h' g \<Longrightarrow> ExecutorSlot r' = ExecutorSlot r"
  by (auto elim!: settle_change.cases)

text \<open>
  A local balance: what a change moves between the executor's cost, the reservation and the
  escrow cancels, when the amounts involved fit.
\<close>

definition balanced :: "InferenceRecord \<Rightarrow> HostStats \<Rightarrow> InferenceRecord \<Rightarrow> HostStats \<Rightarrow> u64 \<Rightarrow> bool" where
  "balanced r h r' h' g \<longleftrightarrow>
     unat g + unat (Cost h') + held r' = unat (Cost h) + held r
     \<and> paid r' + unat (Cost h) \<le> paid r + unat (Cost h')
     \<and> faults h' + undecided r' \<le> faults h + undecided r"

lemma unat_succ_le: "unat (x + 1 :: 'a::len word) \<le> Suc (unat x)"
  using unat_u64_add_le [of x 1] unsigned_1 [where 'a = nat] by (simp add: unat_word_ariths)

lemma change_balanced:
  assumes "change T r h r' h' g" and "unat (Cost h) + held r < 2 ^ 64" and "paid r \<le> unat (Cost h)"
  shows "balanced r h r' h' g"
  using assms
proof (cases rule: change.cases)
  case (finish c rh it ot)
  then have "unat (Cost h + c) = unat (Cost h) + unat c"
    using assms(2) by (intro unat_u64_add) (auto simp: held_def dest: u64_leD)
  with finish show ?thesis
    by (auto simp: balanced_def held_def paid_def faults_def undecided_def unat_u64_sub dest: u64_leD)
next
  case (overturn slot vb r2 valid)
  have act: "ActualCost r2 = ActualCost r"
    using overturn by (simp add: tally_def)
  have le: "unat (ActualCost r) \<le> unat (Cost h)"
    using \<open>Status r = StatusChallenged\<close> assms(3) by (simp add: paid_def)
  then have "\<not> Cost h < ActualCost r" "ActualCost r \<le> Cost h"
    by (simp_all add: word_less_nat_alt word_le_nat_alt)
  with overturn le unat_succ_le [of "Invalid h"] show ?thesis
    by (simp add: balanced_def held_def paid_def faults_def undecided_def unat_u64_sub)
next
  case timeout
  with unat_succ_le [of "Missed h"] show ?thesis
    by (auto simp: balanced_def held_def paid_def faults_def undecided_def)
qed (auto simp: balanced_def held_def paid_def faults_def undecided_def tally_def)

lemma settle_change_balanced:
  assumes "settle_change r h r' h' g" and "unat (Cost h) + held r < 2 ^ 64"
  shows "balanced r h r' h' g"
  using assms
proof (cases rule: settle_change.cases)
  case settle_started
  then have "unat (Cost h + ReservedCost r) = unat (Cost h) + unat (ReservedCost r)"
    using assms(2) by (intro unat_u64_add) (auto simp: held_def)
  with settle_started show ?thesis
    by (simp add: balanced_def held_def paid_def faults_def undecided_def)
qed (simp add: balanced_def held_def paid_def faults_def undecided_def)

section \<open>Votes\<close>

lemma IsSet_foldl_Set:
  "Bitmap_IsSet (foldl Bitmap_Set vb ss) j \<longleftrightarrow>
     (j \<in> set ss \<and> unat j < MaxGroupSize) \<or> Bitmap_IsSet vb j"
  by (induction ss arbitrary: vb) (auto simp: Bitmap_IsSet_Set)

lemma terms_slotsOf:
  "terms_ok T \<Longrightarrow> set (t_slotsOf T a) = {s \<in> set (t_slots T). t_owner T s = a}"
  unfolding terms_ok_def by auto

lemma terms_slot_bound: "terms_ok T \<Longrightarrow> s \<in> set (t_slots T) \<Longrightarrow> unat s < MaxGroupSize"
proof -
  assume T: "terms_ok T" and "s \<in> set (t_slots T)"
  then have "s \<in> set (map of_nat [0..<length (t_slots T)])"
    unfolding terms_ok_def by metis
  then obtain j where "s = of_nat j" "j < length (t_slots T)"
    by auto
  with T show ?thesis
    by (auto simp: terms_ok_def MaxGroupSize_def unat_of_nat)
qed

lemma terms_distinct: "terms_ok T \<Longrightarrow> distinct (t_slots T)"
proof -
  assume T: "terms_ok T"
  have "inj_on (of_nat :: nat \<Rightarrow> u32) {0..<128}"
  proof (rule inj_onI)
    fix x y :: nat
    assume x: "x \<in> {0..<128}" and y: "y \<in> {0..<128}" and e: "(of_nat x :: u32) = of_nat y"
    have "unat (of_nat x :: u32) = x" using x by (simp add: unat_of_nat)
    moreover have "unat (of_nat y :: u32) = y" using y by (simp add: unat_of_nat)
    ultimately show "x = y" using e by metis
  qed
  moreover have "{0..<length (t_slots T)} \<subseteq> {0..<128}"
    using T by (auto simp: terms_ok_def MaxGroupSize_def)
  ultimately have "distinct (map (of_nat :: nat \<Rightarrow> u32) [0..<length (t_slots T)])"
    by (simp add: distinct_map inj_on_subset)
  with T show ?thesis
    unfolding terms_ok_def by metis
qed

lemma mark_IsSet:
  assumes "terms_ok T" and "mark T slot r vb"
  shows "Bitmap_IsSet vb slot"
    and "Bitmap_IsSet (ValidatedBy r) s \<Longrightarrow> Bitmap_IsSet vb s"
  using assms terms_slot_bound [of T slot]
  by (auto simp: mark_def Bitmap_IsSet_Set IsSet_foldl_Set terms_slotsOf)

lemma card_voted_mark:
  assumes T: "terms_ok T" and m: "mark T slot r vb"
  shows "card (voted T (ValidatedBy r)) + unat (t_weight T (t_owner T slot)) \<le> card (voted T vb)"
proof -
  let ?own = "set (t_slotsOf T (t_owner T slot))"
  have own: "?own = {s \<in> set (t_slots T). t_owner T s = t_owner T slot}"
    using T by (rule terms_slotsOf)
  have w: "unat (t_weight T (t_owner T slot)) = card ?own"
  proof -
    have "t_slotsOf T (t_owner T slot) = filter (\<lambda>s. t_owner T s = t_owner T slot) (t_slots T)"
      "unat (t_weight T (t_owner T slot)) = length (t_slotsOf T (t_owner T slot))"
      using T unfolding terms_ok_def by blast+
    then show ?thesis
      by (metis distinct_card distinct_filter terms_distinct [OF T])
  qed
  have disj: "voted T (ValidatedBy r) \<inter> ?own = {}"
    using m own by (auto simp: voted_def mark_def)
  have sub: "voted T (ValidatedBy r) \<union> ?own \<subseteq> voted T vb"
    using m own mark_IsSet [OF T m] by (auto simp: voted_def mark_def)
  have "finite (voted T vb)"
    by (simp add: voted_def)
  then have "card (voted T (ValidatedBy r) \<union> ?own) \<le> card (voted T vb)"
    using sub by (rule card_mono)
  then show ?thesis
    using disj by (simp add: w card_Un_disjoint voted_def)
qed

lemma votes_ok_mark:
  assumes "terms_ok T" and "mark T slot r vb" and "votes_ok T r"
  shows "votes_ok T (r\<lparr>ValidatedBy := vb\<rparr>)" and "votes_ok T (tally T slot valid (r\<lparr>ValidatedBy := vb\<rparr>))"
  using card_voted_mark [OF assms(1,2)] assms(3)
    unat_u64_add_le [of "VotesValid r" "t_weight T (t_owner T slot)"]
    unat_u64_add_le [of "VotesInvalid r" "t_weight T (t_owner T slot)"]
  by (auto simp: votes_ok_def tally_def)

lemma votes_ok_update [simp]:
  "votes_ok T (r\<lparr>Status := st\<rparr>) = votes_ok T r"
  "votes_ok T (r\<lparr>ConfirmedAt := t\<rparr>) = votes_ok T r"
  "votes_ok T (r\<lparr>ResponseHash := rh\<rparr>) = votes_ok T r"
  "votes_ok T (r\<lparr>InputTokens := it\<rparr>) = votes_ok T r"
  "votes_ok T (r\<lparr>OutputTokens := ot\<rparr>) = votes_ok T r"
  "votes_ok T (r\<lparr>ActualCost := c\<rparr>) = votes_ok T r"
  by (simp_all add: votes_ok_def)

lemma change_votes_ok: "change T r h r' h' g \<Longrightarrow> terms_ok T \<Longrightarrow> votes_ok T r \<Longrightarrow> votes_ok T r'"
  by (erule change.cases) (auto intro: votes_ok_mark)

lemma settle_change_votes_ok: "settle_change r h r' h' g \<Longrightarrow> votes_ok T r \<Longrightarrow> votes_ok T r'"
  by (erule settle_change.cases) (simp_all add: votes_ok_def)

section \<open>Moves keep the books\<close>

lemma moved_sel [simp]:
  "s_free (moved i r' h' g s) = s_free s + g"
  "s_fees (moved i r' h' g s) = s_fees s"
  "s_phase (moved i r' h' g s) = s_phase s"
  "s_nonce (moved i r' h' g s) = s_nonce s"
  "s_hosts (moved i r' h' g s) = kv_set (ExecutorSlot r') h' (s_hosts s)"
  "s_live (moved i r' h' g s) = kv_set i r' (s_live s)"
  "s_known (moved i r' h' g s) = s_known s"
  by (simp_all add: moved_def)

lemma maps_ok_host:
  assumes "maps_ok T s" and "terms_ok T" and "kv_get (s_live s) i = Some r"
  obtains h where "kv_get (s_hosts s) (ExecutorSlot r) = Some h"
proof -
  have "ExecutorSlot r \<in> dom (kv_get (s_hosts s))"
    using assms slot_of_in [OF assms(2), of i] by (auto simp: maps_ok_def)
  then show ?thesis using that by auto
qed

lemma entry_bounds:
  assumes ok: "session_ok T s" and r: "kv_get (s_live s) i = Some r"
    and h: "kv_get (s_hosts s) (ExecutorSlot r) = Some h"
  shows "unat (s_free s) + unat (Cost h) + held r < 2 ^ 64" and "paid r \<le> unat (Cost h)"
proof -
  have inv: "kv_inv (s_live s)" "kv_inv (s_hosts s)"
    using ok by (simp_all add: session_ok_def maps_ok_def)
  have "held r \<le> kv_sum (\<lambda>_. held) (s_live s)"
    using kvs.entry_le_total [OF inv(1) r] by fast
  moreover have "unat (Cost h) \<le> costs (s_hosts s)"
    unfolding costs_def using kvs.entry_le_total [OF inv(2) h] by fast
  ultimately show "unat (s_free s) + unat (Cost h) + held r < 2 ^ 64"
    using ok by (simp add: session_ok_def wealth_def)
  have "only_slot (ExecutorSlot r) paid i r \<le> kv_sum (only_slot (ExecutorSlot r) paid) (s_live s)"
    by (rule kvs.entry_le_total [OF inv(1) r])
  then show "paid r \<le> unat (Cost h)"
    using ok h by (force simp: session_ok_def books_ok_def only_slot_def)
qed

lemma moved_wealth:
  assumes ok: "session_ok T s" and r: "kv_get (s_live s) i = Some r"
    and h: "kv_get (s_hosts s) (ExecutorSlot r) = Some h"
    and b: "balanced r h r' h' g" and e: "ExecutorSlot r' = ExecutorSlot r"
  shows "wealth (moved i r' h' g s) = wealth s"
proof -
  have inv: "kv_inv (s_live s)" "kv_inv (s_hosts s)"
    using ok by (simp_all add: session_ok_def maps_ok_def)
  have "unat (s_free s + g) = unat (s_free s) + unat g"
    using b entry_bounds(1) [OF ok r h] by (intro unat_u64_add) (simp add: balanced_def)
  moreover have "costs (s_hosts (moved i r' h' g s)) + unat (Cost h) = costs (s_hosts s) + unat (Cost h')"
    using kvs.total_upd_old [OF inv(2) h, of "\<lambda>_ h. unat (Cost h)" h'] e by (simp add: costs_def)
  moreover have "kv_sum (\<lambda>_. held) (s_live (moved i r' h' g s)) + held r = kv_sum (\<lambda>_. held) (s_live s) + held r'"
    using kvs.total_upd_old [OF inv(1) r, of "\<lambda>_. held" r'] by simp
  ultimately show ?thesis
    using b by (simp add: wealth_def balanced_def)
qed

lemma moved_books:
  assumes ok: "session_ok T s" and r: "kv_get (s_live s) i = Some r"
    and h: "kv_get (s_hosts s) (ExecutorSlot r) = Some h"
    and b: "balanced r h r' h' g" and e: "ExecutorSlot r' = ExecutorSlot r"
  shows "books_ok T (moved i r' h' g s)"
  unfolding books_ok_def
proof (intro allI impI)
  fix slot k
  assume k: "kv_get (s_hosts (moved i r' h' g s)) slot = Some k"
  have inv: "kv_inv (s_live s)"
    using ok by (simp add: session_ok_def maps_ok_def)
  let ?C = "card {i \<in> s_known s. slot_of T i = slot}"
  define k0 where "k0 = (if slot = ExecutorSlot r then h else k)"
  have k0: "kv_get (s_hosts s) slot = Some k0"
    using k h e by (auto simp: k0_def split: if_splits)
  have kk: "k = (if slot = ExecutorSlot r then h' else k)"
    using k e by (auto split: if_splits)
  have "kv_sum (only_slot slot paid) (s_live s) \<le> unat (Cost k0)"
    and f: "faults k0 + kv_sum (only_slot slot undecided) (s_live s) \<le> ?C"
    using ok k0 by (simp_all add: session_ok_def books_ok_def)
  then have "kv_sum (only_slot slot paid) (kv_set i r' (s_live s)) \<le> unat (Cost k)"
    using b e kk
    by (intro kvs.total_upd_le [OF inv r]) (auto simp: only_slot_def balanced_def k0_def split: if_splits)
  moreover have "faults k + kv_sum (only_slot slot undecided) (kv_set i r' (s_live s)) \<le> ?C"
    using kvs.total_upd_old [OF inv r, of "only_slot slot undecided" r'] f b e kk
    by (auto simp: only_slot_def balanced_def k0_def split: if_splits)
  ultimately show "kv_sum (only_slot slot paid) (s_live (moved i r' h' g s)) \<le> unat (Cost k)
      \<and> faults k + kv_sum (only_slot slot undecided) (s_live (moved i r' h' g s))
          \<le> card {j \<in> s_known (moved i r' h' g s). slot_of T j = slot}"
    by simp
qed

lemma moved_ok:
  assumes ok: "session_ok T s" and r: "kv_get (s_live s) i = Some r"
    and h: "kv_get (s_hosts s) (ExecutorSlot r) = Some h"
    and b: "balanced r h r' h' g" and e: "ExecutorSlot r' = ExecutorSlot r"
    and v: "votes_ok T r'"
  shows "session_ok T (moved i r' h' g s)" and "wealth (moved i r' h' g s) = wealth s"
proof -
  show w: "wealth (moved i r' h' g s) = wealth s"
    by (rule moved_wealth [OF ok r h b e])
  have "maps_ok T (moved i r' h' g s)"
    using ok r e v by (auto simp: session_ok_def maps_ok_def)
  then show "session_ok T (moved i r' h' g s)"
    using w moved_books [OF ok r h b e] ok by (simp add: session_ok_def)
qed

section \<open>Every step keeps the contract\<close>

lemma start_ok:
  assumes ok: "session_ok T s" and i: "i \<notin> s_known s" and st: "Status r = StatusPending"
    and e: "ExecutorSlot r = slot_of T i" and v: "VotesValid r = 0" "VotesInvalid r = 0"
    and le: "ReservedCost r \<le> s_free s"
  defines "s' \<equiv> s\<lparr>s_free := s_free s - ReservedCost r, s_live := kv_set i r (s_live s),
       s_known := insert i (s_known s)\<rparr>"
  shows "session_ok T s'" and "wealth s' = wealth s"
proof -
  have inv: "kv_inv (s_live s)" "finite (s_known s)" and none: "kv_get (s_live s) i = None"
    using ok i by (auto simp: session_ok_def maps_ok_def)
  have new: "kv_sum f (kv_set i r (s_live s)) = kv_sum f (s_live s) + f i r" for f
    by (rule kvs.total_upd_new [OF inv(1) none])
  show w: "wealth s' = wealth s"
    using st u64_leD [OF le] by (simp add: s'_def wealth_def new unat_u64_sub [OF le] held_def)
  have card: "card {j \<in> insert i (s_known s). slot_of T j = slot} =
      card {j \<in> s_known s. slot_of T j = slot} + (if slot_of T i = slot then 1 else 0)" for slot
  proof -
    have "{j \<in> insert i (s_known s). slot_of T j = slot} =
        (if slot_of T i = slot then insert i {j \<in> s_known s. slot_of T j = slot}
         else {j \<in> s_known s. slot_of T j = slot})"
      by auto
    then show ?thesis using i inv(2) by simp
  qed
  have "books_ok T s'"
    using ok st e by (auto simp: session_ok_def books_ok_def s'_def new card only_slot_def paid_def undecided_def
        simp del: insert_iff)
  moreover have "maps_ok T s'"
    using ok e v by (auto simp: session_ok_def maps_ok_def s'_def votes_ok_def)
  ultimately show "session_ok T s'"
    using ok w by (simp add: session_ok_def)
qed

lemma seal_ok:
  assumes ok: "session_ok T s" and r: "kv_get (s_live s) i = Some r"
    and st: "Status r \<notin> {StatusPending, StatusStarted}"
  defines "s' \<equiv> s\<lparr>s_live := kv_del i (s_live s)\<rparr>"
  shows "session_ok T s'" and "wealth s' = wealth s"
proof -
  have inv: "kv_inv (s_live s)"
    using ok by (simp add: session_ok_def maps_ok_def)
  have le: "kv_sum f (kv_del i (s_live s)) \<le> kv_sum f (s_live s)" for f
    using kvs.total_del_old [OF inv r, of f] by simp
  have "books_ok T s'"
    using ok by (auto simp: s'_def session_ok_def books_ok_def intro: order_trans [OF le]
        order_trans [OF add_left_mono [OF le]])
  moreover have "maps_ok T s'"
    using ok by (auto simp: s'_def session_ok_def maps_ok_def)
  moreover show w: "wealth s' = wealth s"
    using st kvs.total_del_old [OF inv r, of "\<lambda>_. held"] by (simp add: s'_def wealth_def held_def)
  ultimately show "session_ok T s'"
    using ok by (simp add: session_ok_def)
qed

lemma move_step_ok:
  assumes ok: "session_ok T s" and r: "kv_get (s_live s) i = Some r"
    and h: "kv_get (s_hosts s) (ExecutorSlot r) = Some h" and c: "change T r h r' h' g"
  shows "session_ok T (moved i r' h' g s)" "wealth (moved i r' h' g s) = wealth s"
proof -
  have "balanced r h r' h' g"
    using change_balanced [OF c] entry_bounds [OF ok r h] by simp
  moreover have "votes_ok T r'"
    using change_votes_ok [OF c] ok r by (auto simp: session_ok_def maps_ok_def)
  ultimately show "session_ok T (moved i r' h' g s)" "wealth (moved i r' h' g s) = wealth s"
    using moved_ok [OF ok r h] change_executor [OF c] by blast+
qed

lemma settle_step_ok:
  assumes ok: "session_ok T s" and r: "kv_get (s_live s) i = Some r"
    and h: "kv_get (s_hosts s) (ExecutorSlot r) = Some h" and c: "settle_change r h r' h' g"
  shows "session_ok T (moved i r' h' g s)" "wealth (moved i r' h' g s) = wealth s"
proof -
  have "balanced r h r' h' g"
    using settle_change_balanced [OF c] entry_bounds [OF ok r h] by simp
  moreover have "votes_ok T r'"
    using settle_change_votes_ok [OF c] ok r by (auto simp: session_ok_def maps_ok_def)
  ultimately show "session_ok T (moved i r' h' g s)" "wealth (moved i r' h' g s) = wealth s"
    using moved_ok [OF ok r h] settle_change_executor [OF c] by blast+
qed

lemma fee_ok:
  assumes ok: "session_ok T s" and le: "f \<le> s_free s"
  defines "s' \<equiv> s\<lparr>s_free := s_free s - f, s_fees := s_fees s + f\<rparr>"
  shows "session_ok T s'" and "wealth s' = wealth s"
proof -
  have "unat (s_fees s + f) = unat (s_fees s) + unat f"
    using ok u64_leD [OF le] by (intro unat_u64_add) (simp add: session_ok_def wealth_def)
  then show w: "wealth s' = wealth s"
    using u64_leD [OF le] by (simp add: s'_def wealth_def unat_u64_sub [OF le])
  show "session_ok T s'"
    using ok w by (simp add: s'_def session_ok_def maps_ok_def books_ok_def)
qed

lemma tx_step_ok:
  assumes "tx_step T s s'" and ok: "session_ok T s"
  shows "session_ok T s' \<and> wealth s' = wealth s"
  using assms(1)
proof cases
  case (start i r)
  then show ?thesis using start_ok [OF ok, of i r] by simp
next
  case (move i r h r' h' g)
  then show ?thesis using move_step_ok [OF ok] by simp
next
  case finalize
  then show ?thesis using ok by (simp add: session_ok_def maps_ok_def books_ok_def wealth_def)
qed

lemma end_step_ok:
  assumes "end_step s s'" and ok: "session_ok T s"
  shows "session_ok T s' \<and> wealth s' = wealth s"
  using assms(1)
proof cases
  case (fee f)
  then show ?thesis using fee_ok [OF ok] by simp
next
  case (settle i r h r' h' g)
  then show ?thesis using settle_step_ok [OF ok] by simp
next
  case (seal i r)
  then show ?thesis using seal_ok [OF ok] by simp
qed (use ok in \<open>simp_all add: session_ok_def maps_ok_def books_ok_def wealth_def\<close>)

interpretation sess: conserving "sess_step T" "session_ok T" wealth
  by unfold_locales (auto simp: sess_step_def dest: tx_step_ok end_step_ok)

section \<open>Life of an inference\<close>

text \<open>The status transitions of one inference, and their closure.\<close>

inductive life :: "InferenceStatus \<Rightarrow> InferenceStatus \<Rightarrow> bool" where
  "life StatusPending StatusStarted"
| "life StatusStarted StatusFinished"
| "life StatusFinished StatusChallenged"
| "life StatusChallenged StatusValidated"
| "life StatusChallenged StatusInvalidated"
| "life StatusPending StatusTimedOut"
| "life StatusStarted StatusTimedOut"

lemma change_life: "change T r h r' h' g \<Longrightarrow> life\<^sup>=\<^sup>= (Status r) (Status r')"
  by (erule change.cases) (auto simp: tally_def intro: life.intros)

lemma settle_life: "settle_change r h r' h' g \<Longrightarrow> life\<^sup>=\<^sup>= (Status r) (Status r')"
  by (erule settle_change.cases) (auto intro: life.intros)

text \<open>
  How a step may change the record of one id: it may create it pending when the id is new,
  move its status along \<^term>\<open>life\<close>, or seal it. An id once known stays known.
\<close>

lemma tx_step_record:
  assumes "tx_step T s s'" and "i \<in> s_known s"
  shows "i \<in> s_known s'"
    and "kv_get (s_live s) i = Some r \<Longrightarrow> kv_get (s_live s') i = Some r' \<Longrightarrow>
           life\<^sup>*\<^sup>* (Status r) (Status r')"
    and "kv_get (s_live s) i = None \<Longrightarrow> kv_get (s_live s') i = None"
  using assms by (auto elim!: tx_step.cases split: if_splits dest!: change_life)

lemma end_step_record:
  assumes "end_step s s'" and "i \<in> s_known s"
  shows "i \<in> s_known s'"
    and "kv_get (s_live s) i = Some r \<Longrightarrow> kv_get (s_live s') i = Some r' \<Longrightarrow>
           life\<^sup>*\<^sup>* (Status r) (Status r')"
    and "kv_get (s_live s) i = None \<Longrightarrow> kv_get (s_live s') i = None"
  using assms by (auto elim!: end_step.cases split: if_splits dest!: settle_life)

lemma sess_steps_record:
  assumes "(sess_step T)\<^sup>*\<^sup>* s s'" and "i \<in> s_known s"
  shows "i \<in> s_known s' \<and> (kv_get (s_live s) i = None \<longrightarrow> kv_get (s_live s') i = None)
    \<and> (\<forall>r r'. kv_get (s_live s) i = Some r \<longrightarrow> kv_get (s_live s') i = Some r' \<longrightarrow>
         life\<^sup>*\<^sup>* (Status r) (Status r'))"
  using assms
proof (induction rule: rtranclp_induct)
  case (step t u)
  then have t: "i \<in> s_known t" by simp
  have u: "i \<in> s_known u" "kv_get (s_live t) i = None \<Longrightarrow> kv_get (s_live u) i = None"
    and l: "\<And>r r'. kv_get (s_live t) i = Some r \<Longrightarrow> kv_get (s_live u) i = Some r' \<Longrightarrow>
      life\<^sup>*\<^sup>* (Status r) (Status r')"
    using step.hyps(2) tx_step_record [OF _ t] end_step_record [OF _ t]
    unfolding sess_step_def by metis+
  show ?case
  proof (cases "kv_get (s_live t) i")
    case None
    with step u show ?thesis by auto
  next
    case (Some q)
    with step u l [OF Some] show ?thesis by (fastforce intro: rtranclp_trans)
  qed
qed auto

end
