(* ===== verification/DevshardRefine.thy ===== *)
theory DevshardRefine
  imports DevshardDiff DevshardSession
begin

text \<open>
  The state machine implements the session contract of \<open>DevshardSession\<close>. The view
  \<open>session_of\<close> of a machine forgets signatures, warm keys, entries and storage; every
  transaction is at most one step of the contract on the view, whatever its outcome, and no
  operation panics on a machine that satisfies the contract's invariant.
\<close>

section \<open>The view of a machine\<close>

definition terms_of :: "StateMachine \<Rightarrow> terms" where
  "terms_of sm =
     \<lparr>t_slots = map SlotID (Group (state sm)), t_owner = SlotAddress sm,
      t_weight = addressToSlotCount sm, t_slotsOf = addressToSlots sm,
      t_threshold = VoteThreshold (Config (state sm))\<rparr>"

definition known_ids :: "StateMachine \<Rightarrow> u64 set" where
  "known_ids sm = dom (kv_get (Inferences (state sm))) \<union> dom (kv_get (committedEntries sm))
     \<union> dom (kv_get (sealedNonces sm))"

definition session_of :: "StateMachine \<Rightarrow> session" where
  "session_of sm =
     \<lparr>s_free = Balance (state sm), s_fees = Fees (state sm), s_phase = Phase (state sm),
      s_nonce = LatestNonce (state sm), s_hosts = HostStatsMap (state sm),
      s_live = Inferences (state sm), s_known = known_ids sm\<rparr>"

text \<open>The part of a machine that no operation changes.\<close>

definition static :: "StateMachine \<Rightarrow> StateMachine" where
  "static sm = restoreMutable
     \<lparr>snap_Balance = 0, snap_Fees = 0, snap_Phase = PhaseActive, snap_FinalizeNonce = 0,
      snap_LatestNonce = 0, snap_Inferences = [], snap_Committed = [], snap_HostStats = [],
      snap_WarmKeys = [], snap_SealedAcc = [], snap_SealedNonces = []\<rparr>
     (sm\<lparr>obsDeferred := None, storeLog := []\<rparr>)"

definition same_view :: "StateMachine \<Rightarrow> StateMachine \<Rightarrow> bool" where
  "same_view sm sm' \<longleftrightarrow> static sm' = static sm \<and> session_of sm' = session_of sm"

definition machine_ok :: "StateMachine \<Rightarrow> bool" where
  "machine_ok sm \<longleftrightarrow> session_ok (terms_of sm) (session_of sm)
     \<and> dom (kv_get (slotToAddress sm)) = set (t_slots (terms_of sm))"

text \<open>An outcome that is not a panic and is at most one contract step away.\<close>

definition tx_sim :: "StateMachine \<Rightarrow> 'a sm_res \<Rightarrow> bool" where
  "tx_sim sm res \<longleftrightarrow> fst res \<noteq> Inl GoPanic \<and> static (snd res) = static sm
     \<and> (tx_step (terms_of sm))\<^sup>=\<^sup>= (session_of sm) (session_of (snd res))"

named_theorems view_simps \<open>how the primitive updates act on the view and the static part\<close>

lemma session_of_sel [simp]:
  "s_free (session_of sm) = Balance (state sm)" "s_fees (session_of sm) = Fees (state sm)"
  "s_phase (session_of sm) = Phase (state sm)" "s_nonce (session_of sm) = LatestNonce (state sm)"
  "s_hosts (session_of sm) = HostStatsMap (state sm)"
  "s_live (session_of sm) = Inferences (state sm)" "s_known (session_of sm) = known_ids sm"
  by (simp_all add: session_of_def)

lemma terms_of_sel [simp]:
  "t_slots (terms_of sm) = map SlotID (Group (state sm))" "t_owner (terms_of sm) = SlotAddress sm"
  "t_weight (terms_of sm) = addressToSlotCount sm" "t_slotsOf (terms_of sm) = addressToSlots sm"
  "t_threshold (terms_of sm) = VoteThreshold (Config (state sm))"
  by (simp_all add: terms_of_def)

lemma staticD:
  assumes "static sm' = static sm"
  shows "EscrowID (state sm') = EscrowID (state sm)" "Config (state sm') = Config (state sm)"
    "Group (state sm') = Group (state sm)"
    "StateRootAndProtocolVersion (state sm') = StateRootAndProtocolVersion (state sm)"
    "userAddress sm' = userAddress sm" "slotToAddress sm' = slotToAddress sm"
    "addressToSlotCount sm' = addressToSlotCount sm" "addressToSlots sm' = addressToSlots sm"
    "totalSlots sm' = totalSlots sm" "SlotAddress sm' = SlotAddress sm"
    "terms_of sm' = terms_of sm"
proof -
  obtain st where st: "state sm = st" by simp
  obtain st' where st': "state sm' = st'" by simp
  show "EscrowID (state sm') = EscrowID (state sm)" "Config (state sm') = Config (state sm)"
    "Group (state sm') = Group (state sm)"
    "StateRootAndProtocolVersion (state sm') = StateRootAndProtocolVersion (state sm)"
    "userAddress sm' = userAddress sm" "slotToAddress sm' = slotToAddress sm"
    "addressToSlotCount sm' = addressToSlotCount sm" "addressToSlots sm' = addressToSlots sm"
    "totalSlots sm' = totalSlots sm" "SlotAddress sm' = SlotAddress sm"
    "terms_of sm' = terms_of sm"
    using assms st st'
    by (cases sm; cases sm'; cases st; cases st';
        simp add: static_def restoreMutable_def SlotAddress_def terms_of_def fun_eq_iff)+
qed

lemma same_viewD:
  assumes "same_view sm sm'"
  shows "Balance (state sm') = Balance (state sm)" "Fees (state sm') = Fees (state sm)"
    "Phase (state sm') = Phase (state sm)" "LatestNonce (state sm') = LatestNonce (state sm)"
    "HostStatsMap (state sm') = HostStatsMap (state sm)"
    "Inferences (state sm') = Inferences (state sm)" "known_ids sm' = known_ids sm"
    "static sm' = static sm"
  using assms by (simp_all add: same_view_def session_of_def)

lemma static_update [simp]:
  "static (sm\<lparr>committedEntries := a\<rparr>) = static sm" "static (sm\<lparr>sealedNonces := b\<rparr>) = static sm"
  "static (sm\<lparr>obsDeferred := c\<rparr>) = static sm" "static (sm\<lparr>storeLog := d\<rparr>) = static sm"
  "static (sm\<lparr>state := (state sm)\<lparr>Balance := e\<rparr>\<rparr>) = static sm"
  "static (sm\<lparr>state := (state sm)\<lparr>Balance := e, Fees := f\<rparr>\<rparr>) = static sm"
  "static (sm\<lparr>state := (state sm)\<lparr>Phase := p\<rparr>\<rparr>) = static sm"
  "static (sm\<lparr>state := (state sm)\<lparr>LatestNonce := n\<rparr>\<rparr>) = static sm"
  "static (sm\<lparr>state := (state sm)\<lparr>FinalizeNonce := n\<rparr>\<rparr>) = static sm"
  "static (sm\<lparr>state := (state sm)\<lparr>WarmKeys := w\<rparr>\<rparr>) = static sm"
  "static (sm\<lparr>state := (state sm)\<lparr>Inferences := i\<rparr>\<rparr>) = static sm"
  "static (sm\<lparr>state := (state sm)\<lparr>HostStatsMap := h\<rparr>\<rparr>) = static sm"
  "static (sm\<lparr>state := (state sm)\<lparr>SealedAcc := acc\<rparr>\<rparr>) = static sm"
  by (simp_all add: static_def restoreMutable_def)

lemma static_restore [simp]: "static (restoreMutable snap sm) = static sm"
  by (simp add: static_def restoreMutable_def)

lemma primitive_view [view_simps]:
  "static (setInference i r sm) = static sm"
  "session_of (setInference i r sm) = (session_of sm)
     \<lparr>s_live := kv_set i r (Inferences (state sm)), s_known := insert i (known_ids sm)\<rparr>"
  "static (setHostStats sl h sm) = static sm"
  "session_of (setHostStats sl h sm) = (session_of sm)\<lparr>s_hosts := kv_set sl h (HostStatsMap (state sm))\<rparr>"
  "static (addBalance g sm) = static sm"
  "session_of (addBalance g sm) = (session_of sm)\<lparr>s_free := Balance (state sm) + g\<rparr>"
  "Inferences (state (addBalance g sm)) = Inferences (state sm)"
  "known_ids (addBalance g sm) = known_ids sm"
  "HostStatsMap (state (addBalance g sm)) = HostStatsMap (state sm)"
  "HostStatsMap (state (setInference i r sm)) = HostStatsMap (state sm)"
  "Balance (state (setInference i r sm)) = Balance (state sm)"
  "Balance (state (setHostStats sl h sm)) = Balance (state sm)"
  by (auto simp: setInference_def setHostStats_def addBalance_def session_of_def known_ids_def)

lemma storeCall_view: "storeCall env sop sm = (x, sm') \<Longrightarrow> same_view sm sm'"
  by (auto simp: storeCall_def same_view_def session_of_def known_ids_def split: if_splits)

lemma same_view_refl [simp]: "same_view sm sm"
  by (simp add: same_view_def)

lemma same_view_trans: "same_view a b \<Longrightarrow> same_view b c \<Longrightarrow> same_view a c"
  by (simp add: same_view_def)

lemma upsert_view: "upsertInferenceObsLocked env i n r sm = (x, sm') \<Longrightarrow> same_view sm sm'"
  by (auto simp: upsertInferenceObsLocked_def Let_def split: option.splits prod.splits sum.splits if_splits
      dest!: storeCall_view intro: same_view_trans)
    (auto simp: same_view_def session_of_def known_ids_def)

lemma persist_view: "same_view sm (persistLiveInferenceObsBestEffortLocked env i r sm)"
  unfolding persistLiveInferenceObsBestEffortLocked_def
  using upsert_view by (metis prod.collapse)

lemma ResolveWarmKey_view: "ResolveWarmKey env slot a b sm = (ok, sm') \<Longrightarrow> same_view sm sm'"
  by (auto simp: ResolveWarmKey_def same_view_def session_of_def known_ids_def
      split: option.splits if_splits bool.splits)

lemma verifyProposerSig_view: "verifyProposerSig env m sig a slot sm = (x, sm') \<Longrightarrow> same_view sm sm'"
  by (auto simp: verifyProposerSig_def split: sum.splits option.splits if_splits prod.splits
      dest: ResolveWarmKey_view)

lemma updateCommitted_view:
  assumes "updateCommittedEntryLocked env i r sm = (x, sm')" and "i \<in> known_ids sm"
  shows "same_view sm sm'" and "x \<noteq> Inl GoPanic"
  using assms
  by (auto simp: updateCommittedEntryLocked_def same_view_def session_of_def known_ids_def
      marshalInferenceEntry_def marshalE_def split: sum.splits option.splits if_splits)

section \<open>Transactions are steps of the contract\<close>

lemma machine_ok_host:
  assumes "machine_ok sm" and "kv_get (Inferences (state sm)) i = Some r"
  obtains h where "kv_get (HostStatsMap (state sm)) (ExecutorSlot r) = Some h"
  using assms maps_ok_host [of "terms_of sm" "session_of sm" i r]
  by (auto simp: machine_ok_def session_ok_def)

lemma tx_sim_same: "same_view sm sm' \<Longrightarrow> x \<noteq> Inl GoPanic \<Longrightarrow> tx_sim sm (x, sm')"
  by (simp add: tx_sim_def same_view_def)

lemma live_known: "kv_get (Inferences (state sm)) i = Some r \<Longrightarrow> i \<in> known_ids sm"
  by (auto simp: known_ids_def)

lemma moved_view:
  assumes "same_view sm sm1" and "kv_get (Inferences (state sm)) i = Some r"
    and "ExecutorSlot r' = sl"
  shows "session_of (setHostStats sl h' (setInference i r' (addBalance g sm1)))
           = moved i r' h' g (session_of sm)"
    and "session_of (addBalance g (setHostStats sl h' (setInference i r' sm1)))
           = moved i r' h' g (session_of sm)"
proof -
  note same_viewD [OF assms(1), simp]
  have [simp]: "session_of sm1 = session_of sm"
    using assms(1) by (simp add: same_view_def)
  have [simp]: "insert i (known_ids sm) = known_ids sm"
    using live_known [OF assms(2)] by blast
  show "session_of (setHostStats sl h' (setInference i r' (addBalance g sm1)))
           = moved i r' h' g (session_of sm)"
    and "session_of (addBalance g (setHostStats sl h' (setInference i r' sm1)))
           = moved i r' h' g (session_of sm)"
    using assms(3) by (simp_all add: view_simps moved_def)
qed

lemma moved_view_plain:
  assumes "machine_ok sm" and "same_view sm sm1"
    and "kv_get (Inferences (state sm)) i = Some r" and "ExecutorSlot r' = ExecutorSlot r"
    and "kv_get (HostStatsMap (state sm)) (ExecutorSlot r) = Some h"
  shows "session_of (setInference i r' sm1) = moved i r' h 0 (session_of sm)"
proof -
  have "kv_set (ExecutorSlot r) h (HostStatsMap (state sm)) = HostStatsMap (state sm)"
    using assms(1,5) by (intro kv_set_same) (auto simp: machine_ok_def session_ok_def maps_ok_def)
  moreover have "insert i (known_ids sm) = known_ids sm"
    using live_known [OF assms(3)] by blast
  ultimately show ?thesis
    using assms(2,4) same_viewD [OF assms(2)] by (simp add: view_simps moved_def same_view_def)
qed

lemma tx_sim_move:
  assumes ok: "machine_ok sm" and r: "kv_get (Inferences (state sm)) i = Some r"
    and h: "kv_get (HostStatsMap (state sm)) (ExecutorSlot r) = Some h"
    and c: "change (terms_of sm) r h r' h' g"
    and sm1: "static sm1 = static sm" "session_of sm1 = moved i r' h' g (session_of sm)"
    and u: "updateCommittedEntryLocked env i r'' sm1 = res"
  shows "tx_sim sm res"
proof -
  obtain x sm' where res: "res = (x, sm')" by (cases res)
  have "known_ids sm1 = known_ids sm"
    using sm1(2) by (metis moved_sel(7) session_of_sel(7))
  then have "i \<in> known_ids sm1"
    using live_known [OF r] by simp
  then have "same_view sm1 sm'" "x \<noteq> Inl GoPanic"
    using updateCommitted_view u res by blast+
  moreover have "tx_step (terms_of sm) (session_of sm) (moved i r' h' g (session_of sm))"
    using r h c by (auto intro: tx_step.move)
  ultimately show ?thesis
    using sm1 res by (auto simp: tx_sim_def same_view_def)
qed

text \<open>A record update that leaves the executor's statistics and the balance alone.\<close>

lemma tx_sim_plain:
  assumes ok: "machine_ok sm" and v: "same_view sm sm1"
    and r: "kv_get (Inferences (state sm)) i = Some r"
    and c: "\<And>h. change (terms_of sm) r h r' h 0"
    and v2: "same_view (setInference i r' sm1) sm2"
  shows "tx_sim sm (updateCommittedEntryLocked env i r' sm2)"
proof -
  obtain h where h: "kv_get (HostStatsMap (state sm)) (ExecutorSlot r) = Some h"
    using machine_ok_host [OF ok r] .
  have "session_of sm2 = moved i r' h 0 (session_of sm)"
    using moved_view_plain [OF ok v r change_executor [OF c] h] v2 by (simp add: same_view_def)
  moreover have "static sm2 = static sm"
    using v v2 by (simp add: same_view_def view_simps)
  ultimately show ?thesis
    using tx_sim_move [OF ok r h c] by blast
qed

lemma tokenCost_error: "tokenCost a b p = Inl e \<Longrightarrow> e = ErrCostOverflow"
  by (auto simp: tokenCost_def Let_def split: prod.splits if_splits)

lemma start_sim_ok:
  assumes ok: "machine_ok sm" and i: "si_InferenceId m = LatestNonce (state sm) + 1"
    and ph: "Phase (state sm) = PhaseActive" and dup: "\<not> isDuplicateInferenceID sm (si_InferenceId m)"
    and c: "c \<le> Balance (state sm)"
  defines "r \<equiv> pendingRecord m (slot_of (terms_of sm) (si_InferenceId m)) c"
    and "sm1 \<equiv> sm\<lparr>state := (state sm)\<lparr>Balance := Balance (state sm) - c\<rparr>\<rparr>"
  shows "tx_sim sm (updateCommittedEntryLocked env (si_InferenceId m) r
    (setInference (si_InferenceId m) r sm1))"
proof -
  let ?i = "si_InferenceId m" and ?sm2 = "setInference (si_InferenceId m) r sm1"
  have view: "session_of ?sm2 = (session_of sm)\<lparr>s_free := Balance (state sm) - c,
      s_live := kv_set ?i r (Inferences (state sm)), s_known := insert ?i (known_ids sm)\<rparr>"
    by (auto simp: sm1_def setInference_def session_of_def known_ids_def)
  have "?i \<notin> known_ids sm"
    using dup by (auto simp: isDuplicateInferenceID_def known_ids_def)
  then have step: "tx_step (terms_of sm) (session_of sm) (session_of ?sm2)"
    unfolding view using tx_step.start [of "session_of sm" ?i r "terms_of sm"] ph i c
    by (simp add: r_def pendingRecord_def)
  obtain x sm' where u: "updateCommittedEntryLocked env ?i r ?sm2 = (x, sm')"
    by fastforce
  have "?i \<in> known_ids ?sm2"
    by (simp add: setInference_def known_ids_def)
  then show ?thesis
    unfolding u tx_sim_def using step updateCommitted_view [OF u]
    by (auto simp: same_view_def sm1_def view_simps)
qed

lemma start_sim:
  assumes ok: "machine_ok sm" and i: "si_InferenceId m = LatestNonce (state sm) + 1"
  shows "tx_sim sm (applyStartInference env m sm)"
proof -
  let ?grp = "Group (state sm)"
  have T: "terms_ok (terms_of sm)" and grp: "?grp \<noteq> []" and len: "length ?grp \<le> 128"
    using ok by (auto simp: machine_ok_def session_ok_def terms_ok_def MaxGroupSize_def)
  have "unat (si_InferenceId m mod of_nat (length ?grp)) < length ?grp"
    using grp len by (simp add: unat_mod_distrib unat_of_nat)
  then have slot: "SlotID (?grp ! unat (si_InferenceId m mod of_nat (length ?grp)))
      = slot_of (terms_of sm) (si_InferenceId m)"
    by (simp add: slot_of_def)
  show ?thesis
    unfolding applyStartInference_def Let_def slot using grp
    by (auto split: sum.splits intro!: tx_sim_same start_sim_ok [OF ok i] dest: tokenCost_error)
qed

lemma marshalE_error: "marshalE c m = Inl e \<Longrightarrow> e = ErrMarshal"
  by (auto simp: marshalE_def split: option.splits)

lemma verifyProposerSig_error: "verifyProposerSig env m sig a slot sm = (Inl e, sm') \<Longrightarrow> e \<noteq> GoPanic"
  by (auto simp: verifyProposerSig_def split: sum.splits option.splits if_splits prod.splits
      dest: marshalE_error)

lemma notLive_sim: "tx_sim sm (notLive i sm)" "tx_sim sm (notLiveForValidation i sm)"
  by (auto simp: notLive_def notLiveForValidation_def intro!: tx_sim_same split: option.splits)

lemmas sim_errors = tx_sim_same notLive_sim verifyProposerSig_view

lemma confirm_sim:
  assumes ok: "machine_ok sm"
  shows "tx_sim sm (applyConfirmStart env m sm)"
proof (cases "kv_get (Inferences (state sm)) (cs_InferenceId m)")
  case (Some r)
  have "tx_sim sm (updateCommittedEntryLocked env (cs_InferenceId m) r1 (setInference (cs_InferenceId m) r1 sm1))"
    if "Status r = StatusPending" "same_view sm sm1" "r1 = r\<lparr>Status := StatusStarted, ConfirmedAt := t\<rparr>"
    for sm1 r1 t
    using that tx_sim_plain [OF ok that(2) Some, of r1 "setInference (cs_InferenceId m) r1 sm1" env] change.confirm [of r]
    by simp
  with Some show ?thesis
    by (auto simp: applyConfirmStart_def Let_def split: sum.splits option.splits prod.splits if_splits
        dest: marshalE_error ResolveWarmKey_view intro!: tx_sim_same)
qed (simp add: applyConfirmStart_def notLive_sim)

lemma finish_sim:
  assumes ok: "machine_ok sm"
  shows "tx_sim sm (applyFinishInference env m sm)"
proof (cases "kv_get (Inferences (state sm)) (fi_InferenceId m)")
  case (Some r)
  obtain h where h: "kv_get (HostStatsMap (state sm)) (ExecutorSlot r) = Some h"
    using machine_ok_host [OF ok Some] .
  have sim: "tx_sim sm (updateCommittedEntryLocked env (fi_InferenceId m) r1
      (setHostStats (ExecutorSlot r) (h\<lparr>Cost := Cost h + c\<rparr>)
        (setInference (fi_InferenceId m) r1 (addBalance g sm1))))"
    if "Status r = StatusStarted" "same_view sm sm1" "c \<le> ReservedCost r" "g = ReservedCost r - c"
      "r1 = r\<lparr>Status := StatusFinished, ResponseHash := rh, InputTokens := it, OutputTokens := ot, ActualCost := c\<rparr>"
    for sm1 c g r1 rh it ot
    using that same_viewD(8) [OF that(2)]
    by (intro tx_sim_move [OF ok Some h _ _ moved_view(1) [OF that(2) Some]])
      (auto intro: change.finish simp: view_simps)
  show ?thesis
  proof (cases "verifyProposerSig env (PFinish (m\<lparr>fi_ProposerSig := []\<rparr>)) (fi_ProposerSig m)
      (SlotAddress sm (ExecutorSlot r)) (ExecutorSlot r) sm")
    case (Pair x sm1)
    then have v: "same_view sm sm1"
      by (rule verifyProposerSig_view)
    have h1: "kv_get (HostStatsMap (state sm1)) (ExecutorSlot r) = Some h"
      using h same_viewD [OF v] by simp
    have cap: "(if ReservedCost r < cost then ReservedCost r else cost) \<le> ReservedCost r" for cost
      by (simp add: not_less)
    show ?thesis
      unfolding applyFinishInference_def Some Pair Let_def using Pair h1 v cap
      by (auto simp: view_simps split: sum.splits simp del: word_not_simps
          intro!: tx_sim_same sim [OF _ v] dest: verifyProposerSig_error tokenCost_error)
  qed
qed (simp add: applyFinishInference_def notLive_sim)

lemma fresh_mark:
  assumes "machine_ok sm" and "kv_get (slotToAddress sm) slot \<noteq> None" and "\<not> addressHasValidated sm r slot"
  shows "mark (terms_of sm) slot r (Bitmap_Set (ValidatedBy r) slot)"
    and "mark (terms_of sm) slot r (foldl Bitmap_Set (ValidatedBy r) (addressToSlots sm (SlotAddress sm slot)))"
  using assms by (auto simp: mark_def machine_ok_def addressHasValidated_def list_ex_iff)

lemma tally_terms_of:
  "tally (terms_of sm) slot True r = r\<lparr>VotesValid := VotesValid r + addressToSlotCount sm (SlotAddress sm slot)\<rparr>"
  "tally (terms_of sm) slot False r = r\<lparr>VotesInvalid := VotesInvalid r + addressToSlotCount sm (SlotAddress sm slot)\<rparr>"
  by (simp_all add: tally_def)

lemma validation_sim:
  assumes ok: "machine_ok sm"
  shows "tx_sim sm (applyValidation env m sm)"
proof (cases "kv_get (Inferences (state sm)) (va_InferenceId m)")
  case (Some r)
  let ?slot = "va_ValidatorSlot m" and ?i = "va_InferenceId m"
  let ?r1 = "r\<lparr>ValidatedBy := Bitmap_Set (ValidatedBy r) ?slot\<rparr>"
  show ?thesis
  proof (cases "kv_get (slotToAddress sm) ?slot = None \<or> ?slot = ExecutorSlot r
      \<or> addressHasValidated sm r ?slot \<or> \<not> validation_status_ok (Status r)")
    case True
    with Some show ?thesis
      by (auto simp: applyValidation_def intro!: tx_sim_same)
  next
    case False
    then have mark: "mark (terms_of sm) ?slot r (Bitmap_Set (ValidatedBy r) ?slot)"
      using fresh_mark(1) [OF ok] by blast
    obtain x sm1 where sig: "verifyProposerSig env (PValidation (m\<lparr>va_ProposerSig := []\<rparr>))
        (va_ProposerSig m) (SlotAddress sm ?slot) ?slot sm = (x, sm1)"
      by fastforce
    then have v: "same_view sm sm1" and st: "static sm1 = static sm"
      by (auto dest: verifyProposerSig_view simp: same_viewD)
    note plain = tx_sim_plain [OF ok v Some]
    have late: "tx_sim sm (updateCommittedEntryLocked env ?i ?r1 (setInference ?i ?r1 sm1))"
      if "Status r \<noteq> StatusFinished"
      using that False mark
      by (intro plain) (auto simp: validation_status_ok_def intro: change.note_late)
    have approve: "tx_sim sm (updateCommittedEntryLocked env ?i r2 (setInference ?i r2 sm1))"
      if "Status r = StatusFinished" "r2 = tally (terms_of sm) ?slot True ?r1" for r2
      using that mark by (intro plain) (auto intro: change.approve)
    have challenge: "tx_sim sm (updateCommittedEntryLocked env ?i r2
        (persistLiveInferenceObsBestEffortLocked env ?i r2 (setInference ?i r2 sm1)))"
      if "Status r = StatusFinished" "r2 = (tally (terms_of sm) ?slot False ?r1)\<lparr>Status := StatusChallenged\<rparr>" for r2
      using that mark by (intro plain persist_view) (auto intro: change.challenge)
    show ?thesis
      unfolding applyValidation_def Some Let_def using sig v late approve challenge False
      by (auto simp: staticD [OF st] tally_terms_of split: sum.splits
          intro!: tx_sim_same dest: verifyProposerSig_error)
  qed
qed (simp add: applyValidation_def notLive_sim)

lemma timeoutVotes_view:
  "countTimeoutVotes env i reason vs seen acc sm = (x, sm') \<Longrightarrow> same_view sm sm' \<and> x \<noteq> Inl GoPanic"
proof (induction env i reason vs seen acc sm arbitrary: x sm' rule: countTimeoutVotes.induct)
  case (2 env i reason v vs seen acc sm)
  then show ?case
    by (auto simp: Let_def split: option.splits if_splits sum.splits prod.splits
        dest: marshalE_error ResolveWarmKey_view intro: same_view_trans)
qed simp

lemma timeout_sim:
  assumes ok: "machine_ok sm"
  shows "tx_sim sm (applyTimeout env m sm)"
proof (cases "kv_get (Inferences (state sm)) (ti_InferenceId m)")
  case (Some r)
  obtain h where h: "kv_get (HostStatsMap (state sm)) (ExecutorSlot r) = Some h"
    using machine_ok_host [OF ok Some] .
  obtain x sm1 where votes: "countTimeoutVotes env (ti_InferenceId m) (ti_Reason m) (ti_Votes m) [] 0 sm
      = (x, sm1)"
    by fastforce
  then have v: "same_view sm sm1" and x: "x \<noteq> Inl GoPanic" and st: "static sm1 = static sm"
    by (auto dest: timeoutVotes_view simp: same_viewD)
  have h1: "kv_get (HostStatsMap (state sm1)) (ExecutorSlot r) = Some h"
    using h same_viewD [OF v] by simp
  have "tx_sim sm (updateCommittedEntryLocked env (ti_InferenceId m) r1 (addBalance (ReservedCost r)
      (setHostStats (ExecutorSlot r) (h\<lparr>Missed := Missed h + 1\<rparr>) (setInference (ti_InferenceId m) r1 sm1))))"
    if "timeoutReasonOk (ti_Reason m) (Status r)" "r1 = r\<lparr>Status := StatusTimedOut\<rparr>" for r1
    using that st
    by (intro tx_sim_move [OF ok Some h _ _ moved_view(2) [OF v Some]])
      (auto intro!: change.timeout simp: view_simps timeoutReasonOk_def split: TimeoutReason.splits)
  then show ?thesis
    unfolding applyTimeout_def Some Let_def using votes v x h1
    by (auto simp: view_simps split: sum.splits intro!: tx_sim_same)
qed (simp add: applyTimeout_def notLive_sim)

lemma finalize_sim: "tx_sim sm (applyFinalizeRound sm)"
proof (cases "Phase (state sm) = PhaseActive")
  case True
  have "session_of (sm\<lparr>state := (state sm)\<lparr>Phase := PhaseFinalizing\<rparr>\<rparr>)
      = (session_of sm)\<lparr>s_phase := PhaseFinalizing\<rparr>"
    by (simp add: session_of_def known_ids_def)
  with True show ?thesis
    by (auto simp: applyFinalizeRound_def tx_sim_def intro: tx_step.finalize)
qed (simp add: applyFinalizeRound_def tx_sim_same)

lemma tally_ActualCost [simp]: "ActualCost (tally T slot valid r) = ActualCost r"
  by (simp add: tally_def)

text \<open>The three ends of a vote on a challenged inference, after the checks.\<close>

lemma vote_cases_sim:
  fixes valid :: bool
  assumes ok: "machine_ok sm" and v: "same_view sm sm1"
    and r: "kv_get (Inferences (state sm)) i = Some r" and st: "Status r = StatusChallenged"
    and h: "kv_get (HostStatsMap (state sm)) (ExecutorSlot r) = Some h"
    and mark: "mark (terms_of sm) slot r vb"
  defines "r2 \<equiv> tally (terms_of sm) slot valid (r\<lparr>ValidatedBy := vb\<rparr>)"
  shows "tx_sim sm (updateCommittedEntryLocked env i r2 (setInference i r2 sm1))"
    and "VotesValid r2 > VoteThreshold (Config (state sm)) \<Longrightarrow> r3 = r2\<lparr>Status := StatusValidated\<rparr> \<Longrightarrow>
      tx_sim sm (updateCommittedEntryLocked env i r3
        (persistLiveInferenceObsBestEffortLocked env i r3 (setInference i r3 sm1)))"
    and "VotesInvalid r2 > VoteThreshold (Config (state sm)) \<Longrightarrow> r3 = r2\<lparr>Status := StatusInvalidated\<rparr> \<Longrightarrow>
      h1 = h\<lparr>Invalid := Invalid h + 1,
             Cost := (if Cost h < ActualCost r then 0 else Cost h - ActualCost r)\<rparr> \<Longrightarrow>
      tx_sim sm (updateCommittedEntryLocked env i r3
        (persistLiveInferenceObsBestEffortLocked env i r3
          (addBalance (ActualCost r) (setHostStats (ExecutorSlot r) h1 (setInference i r3 sm1)))))"
proof -
  note plain = tx_sim_plain [OF ok v r]
  show "tx_sim sm (updateCommittedEntryLocked env i r2 (setInference i r2 sm1))"
    using st mark by (intro plain) (auto simp: r2_def intro: change.vote)
  show "tx_sim sm (updateCommittedEntryLocked env i r3
        (persistLiveInferenceObsBestEffortLocked env i r3 (setInference i r3 sm1)))"
    if "VotesValid r2 > VoteThreshold (Config (state sm))" "r3 = r2\<lparr>Status := StatusValidated\<rparr>"
    using that st mark by (intro plain persist_view) (auto simp: r2_def intro: change.uphold)
  assume vi: "VotesInvalid r2 > VoteThreshold (Config (state sm))" and r3: "r3 = r2\<lparr>Status := StatusInvalidated\<rparr>"
    and h1: "h1 = h\<lparr>Invalid := Invalid h + 1,
             Cost := (if Cost h < ActualCost r then 0 else Cost h - ActualCost r)\<rparr>"
  let ?sm2 = "addBalance (ActualCost r) (setHostStats (ExecutorSlot r) h1 (setInference i r3 sm1))"
  have c: "change (terms_of sm) r h r3 h1 (ActualCost r)"
    unfolding r3 h1 using st mark vi by (intro change.overturn) (auto simp: r2_def)
  have "session_of ?sm2 = moved i r3 h1 (ActualCost r) (session_of sm)"
    by (rule moved_view(2) [OF v r change_executor [OF c]])
  then show "tx_sim sm (updateCommittedEntryLocked env i r3
        (persistLiveInferenceObsBestEffortLocked env i r3 ?sm2))"
    using persist_view [of ?sm2 env i r3] same_viewD(8) [OF v]
    by (intro tx_sim_move [OF ok r h c]) (auto simp: same_view_def view_simps)
qed

lemma vote_sim:
  assumes ok: "machine_ok sm"
  shows "tx_sim sm (applyValidationVote env m sm)"
proof (cases "kv_get (Inferences (state sm)) (vv_InferenceId m)")
  case (Some r)
  let ?slot = "vv_VoterSlot m" and ?i = "vv_InferenceId m"
  let ?vb = "foldl Bitmap_Set (ValidatedBy r) (addressToSlots sm (SlotAddress sm ?slot))"
  obtain h where h: "kv_get (HostStatsMap (state sm)) (ExecutorSlot r) = Some h"
    using machine_ok_host [OF ok Some] .
  show ?thesis
  proof (cases "kv_get (slotToAddress sm) ?slot = None \<or> Status r \<noteq> StatusChallenged
      \<or> addressHasValidated sm r ?slot")
    case True
    with Some show ?thesis
      by (auto simp: applyValidationVote_def intro!: tx_sim_same)
  next
    case False
    then have mark: "mark (terms_of sm) ?slot r ?vb" and chal: "Status r = StatusChallenged"
      using fresh_mark(2) [OF ok] by blast+
    obtain x sm1 where sig: "verifyProposerSig env (PValidationVote (m\<lparr>vv_ProposerSig := []\<rparr>))
        (vv_ProposerSig m) (SlotAddress sm ?slot) ?slot sm = (x, sm1)"
      by fastforce
    then have v: "same_view sm sm1" and st: "static sm1 = static sm"
      by (auto dest: verifyProposerSig_view simp: same_viewD)
    have h1: "kv_get (HostStatsMap (state sm1)) (ExecutorSlot r) = Some h"
      using h same_viewD [OF v] by simp
    note ends = vote_cases_sim [OF ok v Some chal h mark, where valid = "vv_VoteValid m" and env = env]
    show ?thesis
    proof (cases "vv_VoteValid m")
      case True
      show ?thesis
        unfolding applyValidationVote_def Some Let_def using sig v False h1 True
          ends
        by (auto simp: staticD [OF st] tally_terms_of view_simps split: sum.splits
            intro!: tx_sim_same dest: verifyProposerSig_error)
    next
      case False
      show ?thesis
        unfolding applyValidationVote_def Some Let_def using sig v \<open>\<not> (_ \<or> _)\<close> h1 False
          ends
        by (auto simp: staticD [OF st] tally_terms_of view_simps split: sum.splits
            intro!: tx_sim_same dest: verifyProposerSig_error)
    qed
  qed
qed (simp add: applyValidationVote_def notLive_sim)

lemma applyTx_sim:
  assumes "machine_ok sm" and "\<And>i. start_id tx = Some i \<Longrightarrow> i = LatestNonce (state sm) + 1"
  shows "tx_sim sm (applyTx env tx sm)"
  using assms
  by (cases tx) (simp_all add: start_sim confirm_sim finish_sim validation_sim vote_sim timeout_sim
      finalize_sim applyRevealSeed_def tx_sim_same)

end
