(* ===== verification/DevshardRuns.thy ===== *)
theory DevshardRuns
  imports DevshardRefine
begin

text \<open>
  Diffs as runs of the session contract: sealing, the end of a nonce, the strict and the
  best-effort application, validation and commit. Every outcome of every operation is a run
  of the contract from the view before to the view after; in particular no operation panics
  on a machine that satisfies the invariant, and the invariant holds of every machine that
  the operations reach from a newly constructed one.
\<close>

section \<open>Sealing and the end of a nonce are runs of the contract\<close>

definition sim :: "StateMachine \<Rightarrow> 'a sm_res \<Rightarrow> bool" where
  "sim sm res \<longleftrightarrow> fst res \<noteq> Inl GoPanic \<and> static (snd res) = static sm
     \<and> end_step\<^sup>*\<^sup>* (session_of sm) (session_of (snd res))"

lemma sim_same: "same_view sm sm' \<Longrightarrow> x \<noteq> Inl GoPanic \<Longrightarrow> sim sm (x, sm')"
  by (simp add: sim_def same_view_def)

lemma sim_end:
  "static sm' = static sm \<Longrightarrow> end_step (session_of sm) (session_of sm') \<Longrightarrow> x \<noteq> Inl GoPanic \<Longrightarrow>
   sim sm (x, sm')"
  by (auto simp: sim_def)

lemma run_ok:
  assumes run: "(sess_step (terms_of sm))\<^sup>*\<^sup>* (session_of sm) (session_of sm')"
    and st: "static sm' = static sm" and ok: "machine_ok sm"
  shows "machine_ok sm'" and "wealth (session_of sm') = wealth (session_of sm)"
proof -
  have ok': "session_ok (terms_of sm) (session_of sm)"
    using ok by (simp add: machine_ok_def)
  show "wealth (session_of sm') = wealth (session_of sm)"
    by (rule sess.amount_steps [OF run ok'])
  show "machine_ok sm'"
    using sess.inv_steps [OF run ok'] ok staticD(6,11) [OF st] by (simp add: machine_ok_def)
qed

lemma tx_steps_sess: "(tx_step T)\<^sup>*\<^sup>* s s' \<Longrightarrow> (sess_step T)\<^sup>*\<^sup>* s s'"
  by (erule rtranclp_mono [THEN predicate2D, rotated]) (auto simp: sess_step_def)

lemma end_steps_sess: "end_step\<^sup>*\<^sup>* s s' \<Longrightarrow> (sess_step T)\<^sup>*\<^sup>* s s'"
  by (erule rtranclp_mono [THEN predicate2D, rotated]) (auto simp: sess_step_def)

lemma sim_ok:
  assumes "sim sm (x, sm')" and "machine_ok sm"
  shows "machine_ok sm'" and "wealth (session_of sm') = wealth (session_of sm)"
    and "static sm' = static sm" and "terms_of sm' = terms_of sm"
proof -
  show st: "static sm' = static sm" and T: "terms_of sm' = terms_of sm"
    using assms(1) staticD(11) [of sm' sm] by (simp_all add: sim_def)
  have "(sess_step (terms_of sm))\<^sup>*\<^sup>* (session_of sm) (session_of sm')"
    using assms(1) by (simp add: sim_def end_steps_sess)
  from run_ok [OF this st assms(2)]
  show "machine_ok sm'" and "wealth (session_of sm') = wealth (session_of sm)" .
qed

lemma sim_trans:
  assumes "sim sm (x, sm1)" and "sim sm1 res"
  shows "sim sm res"
proof -
  have "terms_of sm1 = terms_of sm"
    using assms(1) by (intro staticD) (simp add: sim_def)
  with assms show ?thesis
    unfolding sim_def by (metis rtranclp_trans snd_conv)
qed

lemma sim_bindS:
  assumes "machine_ok sm" and "sim sm r" and "\<And>a sm1. r = (Inr a, sm1) \<Longrightarrow> machine_ok sm1 \<Longrightarrow> sim sm1 (k a sm1)"
  shows "sim sm (bindS r k)"
proof (cases r)
  case (Pair x sm1)
  show ?thesis
  proof (cases x)
    case (Inl e)
    with assms(2) Pair show ?thesis by (simp add: sim_def)
  next
    case (Inr a)
    then have "sim sm (Inr a, sm1)" using assms(2) Pair by simp
    moreover from this have "sim sm1 (k a sm1)"
      using assms(1,3) Pair Inr sim_ok(1) by blast
    ultimately have "sim sm (k a sm1)"
      by (rule sim_trans)
    with Pair Inr show ?thesis by simp
  qed
qed

lemma upsert_sealedNonces:
  "upsertInferenceObsLocked env i n r sm = (x, sm') \<Longrightarrow> sealedNonces sm' = sealedNonces sm"
  by (auto simp: upsertInferenceObsLocked_def storeCall_def Let_def
      split: option.splits prod.splits sum.splits if_splits)

lemma upsert_error: "upsertInferenceObsLocked env i n r sm = (x, sm') \<Longrightarrow> x \<noteq> Inl GoPanic"
  by (auto simp: upsertInferenceObsLocked_def storeCall_def Let_def
      split: option.splits prod.splits sum.splits if_splits)

lemma noteSealed_view: "i \<in> known_ids sm \<Longrightarrow> same_view sm (noteSealed n i sm)"
  by (auto simp: same_view_def noteSealed_def session_of_def known_ids_def split: if_splits)

lemma sealed_entry_view:
  assumes r: "kv_get (Inferences (state sm)) i = Some r"
    and c: "updateCommittedEntryLocked env i r sm = (Inr u, sm2)"
    and o: "upsertInferenceObsLocked env i n r' (noteSealed n i sm2) = (x, sm3)"
  shows "same_view sm sm3" and "static (dropLive i sm3) = static sm"
    and "session_of (dropLive i sm3) = (session_of sm)\<lparr>s_live := kv_del i (Inferences (state sm))\<rparr>"
proof -
  have k: "i \<in> known_ids sm"
    by (rule live_known [OF r])
  have v2: "same_view sm sm2"
    by (rule updateCommitted_view(1) [OF c k])
  moreover have "i \<in> known_ids sm2"
    using k same_viewD(7) [OF v2] by simp
  ultimately show v3: "same_view sm sm3"
    using noteSealed_view upsert_view [OF o] same_view_trans by blast
  then show "static (dropLive i sm3) = static sm"
    by (simp add: dropLive_def same_view_def)
  have sealed: "i \<in> dom (kv_get (sealedNonces sm3))"
    using upsert_sealedNonces [OF o] by (simp add: noteSealed_def)
  then have "known_ids (dropLive i sm3) = known_ids sm3"
    by (auto simp: dropLive_def known_ids_def split: if_splits)
  then show "session_of (dropLive i sm3) = (session_of sm)\<lparr>s_live := kv_del i (Inferences (state sm))\<rparr>"
    using v3 same_viewD [OF v3] by (simp add: session_of_def dropLive_def)
qed

lemma live_dropLive: "Inferences (state (dropLive i sm)) = kv_del i (Inferences (state sm))"
  by (simp add: dropLive_def)

lemma sim_Inl: "sim sm (Inl e, sm') \<Longrightarrow> sim sm (Inl e, sm')"
  by (simp add: sim_def)

lemma seal_sim:
  assumes r: "kv_get (Inferences (state sm)) i = Some r" and st: "Status r \<notin> {StatusPending, StatusStarted}"
    and c: "updateCommittedEntryLocked env i r sm = (Inr u, sm2)"
    and o: "upsertInferenceObsLocked env i n r (noteSealed n i sm2) = (x, sm3)"
  shows "sim sm (Inr v, dropLive i sm3)"
    and "Inferences (state (dropLive i sm3)) = kv_del i (Inferences (state sm))"
proof -
  note drop = sealed_entry_view [OF r c o]
  show "sim sm (Inr v, dropLive i sm3)"
    using end_step.seal [of "session_of sm" i r] st r by (intro sim_end) (simp_all add: drop)
  show "Inferences (state (dropLive i sm3)) = kv_del i (Inferences (state sm))"
    using same_viewD(6) [OF drop(1)] by (simp add: live_dropLive)
qed

lemma updateCommitted_sim:
  "kv_get (Inferences (state sm)) i = Some r \<Longrightarrow> sim sm (updateCommittedEntryLocked env i r' sm)"
  using updateCommitted_view [OF _ live_known] by (metis prod.exhaust sim_same)

lemma autoSealOne_sim:
  assumes ok: "machine_ok sm" and r: "kv_get (Inferences (state sm)) i = Some r"
    and st: "Status r \<notin> {StatusPending, StatusStarted}"
  shows "sim sm (autoSealOne env n i cur sm)"
    and "autoSealOne env n i cur sm = (Inr acc, sm') \<Longrightarrow>
           Inferences (state sm') = kv_del i (Inferences (state sm))"
proof -
  obtain x sm2 where c: "updateCommittedEntryLocked env i r sm = (x, sm2)" by fastforce
  obtain y sm3 where o: "upsertInferenceObsLocked env i n r (noteSealed n i sm2) = (y, sm3)" by fastforce
  have "sim sm (x, sm2)" using updateCommitted_sim [OF r] c by metis
  then show "sim sm (autoSealOne env n i cur sm)"
    using c o r seal_sim(1) [OF r st _ o]
    by (cases x) (auto simp: autoSealOne_def sim_def [of _ "(Inl _, _)"])
  assume "autoSealOne env n i cur sm = (Inr acc, sm')"
  then show "Inferences (state sm') = kv_del i (Inferences (state sm))"
    using c o r seal_sim(2) [OF r st _ o] by (cases x) (auto simp: autoSealOne_def)
qed

lemma autoSealLoop_sim:
  assumes "machine_ok sm" and "distinct is"
    and "\<And>i. i \<in> set is \<Longrightarrow> \<exists>r. kv_get (Inferences (state sm)) i = Some r
           \<and> Status r \<notin> {StatusPending, StatusStarted}"
  shows "sim sm (autoSealLoop env n is cur sm)"
  using assms
proof (induction "is" arbitrary: cur sm)
  case Nil
  then show ?case by (simp add: sim_same)
next
  case (Cons i "is")
  obtain r where r: "kv_get (Inferences (state sm)) i = Some r"
    and st: "Status r \<notin> {StatusPending, StatusStarted}"
    using Cons.prems(3) by auto
  note one = autoSealOne_sim [OF Cons.prems(1) r st]
  show ?case
    unfolding autoSealLoop.simps
  proof (rule sim_bindS [OF Cons.prems(1) one(1)])
    fix acc sm1
    assume run: "autoSealOne env n i cur sm = (Inr acc, sm1)" and ok1: "machine_ok sm1"
    show "sim sm1 (autoSealLoop env n is acc sm1)"
      using Cons.prems(2,3) one(2) [OF run] by (intro Cons.IH ok1) auto
  qed
qed

lemma settle_sim:
  assumes ok: "machine_ok sm" and r: "kv_get (Inferences (state sm)) i = Some r"
    and s: "settleLiveRecordLocked i r sm = (x, sm1)"
  shows "sim sm (x, sm1)"
    and "x = Inr r1 \<Longrightarrow> kv_get (Inferences (state sm1)) i = Some r1
           \<and> Status r1 \<notin> {StatusPending, StatusStarted}"
    and "j \<noteq> i \<Longrightarrow> kv_get (Inferences (state sm1)) j = kv_get (Inferences (state sm)) j"
proof -
  obtain h where h: "kv_get (HostStatsMap (state sm)) (ExecutorSlot r) = Some h"
    using machine_ok_host [OF ok r] .
  have inv: "kv_inv (HostStatsMap (state sm))"
    using ok by (simp add: machine_ok_def session_ok_def maps_ok_def)
  note move = end_step.settle [of "session_of sm" i r h]
  have "sim sm (x, sm1) \<and> (\<forall>r1. x = Inr r1 \<longrightarrow> kv_get (Inferences (state sm1)) i = Some r1
           \<and> Status r1 \<notin> {StatusPending, StatusStarted})
         \<and> (\<forall>j. j \<noteq> i \<longrightarrow> kv_get (Inferences (state sm1)) j = kv_get (Inferences (state sm)) j)"
  proof (cases "Status r")
    case StatusPending
    let ?r1 = "r\<lparr>ActualCost := 0, Status := StatusTimedOut\<rparr>"
    have x: "x = Inr ?r1" "sm1 = setInference i ?r1 (addBalance (ReservedCost r) sm)"
      using s StatusPending by (simp_all add: settleLiveRecordLocked_def Let_def)
    have "session_of sm1 = moved i ?r1 h (ReservedCost r) (session_of sm)"
      using kv_set_same [OF inv h] live_known [OF r] by (simp add: x view_simps moved_def insert_absorb)
    then have "end_step (session_of sm) (session_of sm1)"
      using move [OF _ _ settle_pending [OF StatusPending]] r h by simp
    then show ?thesis
      by (auto simp: x view_simps intro!: sim_end) (simp_all add: setInference_def addBalance_def)
  next
    case StatusStarted
    let ?r1 = "r\<lparr>ActualCost := ReservedCost r, Status := StatusFinished\<rparr>"
    have x: "x = Inr ?r1" "sm1 = setHostStats (ExecutorSlot r) (h\<lparr>Cost := Cost h + ReservedCost r\<rparr>)
        (setInference i ?r1 sm)"
      using s StatusStarted h by (simp_all add: settleLiveRecordLocked_def Let_def view_simps)
    have "session_of sm1 = moved i ?r1 (h\<lparr>Cost := Cost h + ReservedCost r\<rparr>) 0 (session_of sm)"
      using moved_view(1) [OF same_view_refl r, of ?r1 "ExecutorSlot r" _ 0]
      by (simp add: x addBalance_def)
    then have "end_step (session_of sm) (session_of sm1)"
      using move [OF _ _ settle_started [OF StatusStarted]] r h by simp
    then show ?thesis
      by (auto simp: x view_simps intro!: sim_end) (simp_all add: setInference_def setHostStats_def)
  qed (use s r in \<open>auto simp: settleLiveRecordLocked_def intro: sim_same\<close>)
  then show "sim sm (x, sm1)"
    and "x = Inr r1 \<Longrightarrow> kv_get (Inferences (state sm1)) i = Some r1
           \<and> Status r1 \<notin> {StatusPending, StatusStarted}"
    and "j \<noteq> i \<Longrightarrow> kv_get (Inferences (state sm1)) j = kv_get (Inferences (state sm)) j"
    by blast+
qed

lemma drainOne_sim:
  assumes ok: "machine_ok sm" and r: "kv_get (Inferences (state sm)) i = Some r"
  shows "sim sm (drainOne env n i cur sm)"
    and "drainOne env n i cur sm = (Inr acc, sm') \<Longrightarrow>
           dom (kv_get (Inferences (state sm'))) = dom (kv_get (Inferences (state sm))) - {i}"
proof -
  obtain y sm1 where s: "settleLiveRecordLocked i r sm = (y, sm1)" by fastforce
  note settle = settle_sim [OF ok r s]
  have eq: "drainOne env n i cur sm = bindS (y, sm1) (\<lambda>r1 sm1.
         bindS (updateCommittedEntryLocked env i r1 sm1) (\<lambda>_ sm2.
         bindS (upsertInferenceObsLocked env i n r1 (noteSealed n i sm2)) (\<lambda>_ sm3.
         (Inr (foldEntry n i cur sm2), dropLive i sm3))))"
    using r s by (simp add: drainOne_def)
  have tail: "sim sm1 (bindS (updateCommittedEntryLocked env i r1 sm1) (\<lambda>_ sm2.
         bindS (upsertInferenceObsLocked env i n r1 (noteSealed n i sm2)) (\<lambda>_ sm3.
         (Inr (foldEntry n i cur sm2), dropLive i sm3))))"
    if y: "y = Inr r1" for r1
  proof -
    note r1 = conjunct1 [OF settle(2) [OF y]] conjunct2 [OF settle(2) [OF y]]
    obtain x sm2 where c: "updateCommittedEntryLocked env i r1 sm1 = (x, sm2)" by fastforce
    obtain z sm3 where o: "upsertInferenceObsLocked env i n r1 (noteSealed n i sm2) = (z, sm3)" by fastforce
    have "sim sm1 (x, sm2)" using updateCommitted_sim [OF r1(1), of env r1] c by simp
    moreover have "sim sm1 (Inl e, sm3)" if "x = Inr u" "z = Inl e" for u e
      using sealed_entry_view(1) [OF r1(1) c [unfolded that] o] upsert_error [OF o] that
      by (simp add: sim_same)
    moreover have "sim sm1 (Inr v, dropLive i sm3)" if "x = Inr u" for u and v :: bytes
      by (rule seal_sim(1) [OF r1 c [unfolded that] o])
    ultimately show ?thesis
      using c o by (cases x; cases z) (auto simp: sim_def [of _ "(Inl _, _)"])
  qed
  show "sim sm (drainOne env n i cur sm)"
    unfolding eq by (rule sim_bindS [OF ok settle(1)]) (simp add: tail)
  assume "drainOne env n i cur sm = (Inr acc, sm')"
  then obtain r1 u sm2 v sm3 where y: "y = Inr r1"
    and c: "updateCommittedEntryLocked env i r1 sm1 = (Inr u, sm2)"
    and o: "upsertInferenceObsLocked env i n r1 (noteSealed n i sm2) = (Inr v, sm3)"
    and sm': "sm' = dropLive i sm3"
    by (auto simp: eq bindS_eq)
  note r1 = conjunct1 [OF settle(2) [OF y]] conjunct2 [OF settle(2) [OF y]]
  have "j \<in> dom (kv_get (Inferences (state sm1))) \<longleftrightarrow> j \<in> dom (kv_get (Inferences (state sm)))" for j
    using settle(3) [of j] r r1(1) by (cases "j = i") (simp_all add: dom_def)
  then show "dom (kv_get (Inferences (state sm'))) = dom (kv_get (Inferences (state sm))) - {i}"
    using seal_sim(2) [OF r1 c o] by (simp add: sm' set_eq_iff)
qed

lemma drainLoop_sim:
  assumes "machine_ok sm" and "distinct is" and "set is \<subseteq> dom (kv_get (Inferences (state sm)))"
  shows "sim sm (drainLoop env n is cur sm)"
    and "drainLoop env n is cur sm = (Inr acc, sm') \<Longrightarrow>
      dom (kv_get (Inferences (state sm'))) = dom (kv_get (Inferences (state sm))) - set is"
proof -
  have "sim sm (drainLoop env n is cur sm) \<and> (drainLoop env n is cur sm = (Inr acc, sm') \<longrightarrow>
      dom (kv_get (Inferences (state sm'))) = dom (kv_get (Inferences (state sm))) - set is)"
    using assms
  proof (induction "is" arbitrary: cur sm)
    case Nil
    then show ?case by (auto intro: sim_same)
  next
    case (Cons i "is")
    obtain r where r: "kv_get (Inferences (state sm)) i = Some r"
      using Cons.prems(3) by auto
    note one = drainOne_sim [OF Cons.prems(1) r]
    have rest: "set is \<subseteq> dom (kv_get (Inferences (state sm1)))"
      if "drainOne env n i cur sm = (Inr acc1, sm1)" for acc1 sm1
      using Cons.prems(2,3) one(2) [OF that] by auto
    have ok1: "machine_ok sm1" if "drainOne env n i cur sm = (Inr acc1, sm1)" for acc1 sm1
      using sim_ok(1) [OF _ Cons.prems(1)] one(1) that by metis
    have "sim sm (drainLoop env n (i # is) cur sm)"
      unfolding drainLoop.simps using Cons.IH [OF _ _ rest] Cons.prems(2)
      by (intro sim_bindS [OF Cons.prems(1) one(1)]) simp
    moreover have "dom (kv_get (Inferences (state sm'))) = dom (kv_get (Inferences (state sm))) - set (i # is)"
      if "drainLoop env n (i # is) cur sm = (Inr acc, sm')"
    proof -
      obtain acc1 sm1 where d: "drainOne env n i cur sm = (Inr acc1, sm1)"
        and l: "drainLoop env n is acc1 sm1 = (Inr acc, sm')"
        using \<open>drainLoop env n (i # is) cur sm = _\<close> by (auto simp: bindS_eq)
      show ?thesis
        using Cons.IH [OF ok1 [OF d] _ rest [OF d]] Cons.prems(2) l one(2) [OF d] by auto
    qed
    ultimately show ?case by blast
  qed
  then show "sim sm (drainLoop env n is cur sm)"
    and "drainLoop env n is cur sm = (Inr acc, sm') \<Longrightarrow>
      dom (kv_get (Inferences (state sm'))) = dom (kv_get (Inferences (state sm))) - set is"
    by blast+
qed

lemma live_inv: "machine_ok sm \<Longrightarrow> kv_inv (Inferences (state sm))"
  by (simp add: machine_ok_def session_ok_def maps_ok_def)

lemma setSealedAcc_view: "same_view sm (setSealedAcc acc sm)"
  by (simp add: same_view_def setSealedAcc_def session_of_def known_ids_def)

lemma drain_sim:
  assumes ok: "machine_ok sm"
  shows "sim sm (drainLiveIntoSealedAccLocked env n sm)"
    and "drainLiveIntoSealedAccLocked env n sm = (Inr u, sm') \<Longrightarrow> Inferences (state sm') = []"
proof -
  let ?is = "map fst (Inferences (state sm))"
  have "distinct ?is" "set ?is \<subseteq> dom (kv_get (Inferences (state sm)))"
    using kv_inv_distinct [OF live_inv [OF ok]] by (simp_all add: kv_keys_dom)
  note loop = drainLoop_sim [OF ok this]
  show "sim sm (drainLiveIntoSealedAccLocked env n sm)"
    unfolding drainLiveIntoSealedAccLocked_def
    by (auto intro!: sim_bindS [OF ok loop(1)] intro: sim_same setSealedAcc_view)
  assume "drainLiveIntoSealedAccLocked env n sm = (Inr u, sm')"
  then show "Inferences (state sm') = []"
    by (auto simp: drainLiveIntoSealedAccLocked_def bindS_eq setSealedAcc_def kv_keys_dom
        dest!: loop(2) split: if_splits)
qed

lemma autoSealLocked_sim:
  assumes ok: "machine_ok sm"
  shows "sim sm (autoSealLocked env n sm)"
proof -
  let ?e = "\<lambda>(i, r). autoSealEligible (Config (state sm)) (Clock (stateClockLocked sm)) n i r"
  let ?is = "map fst (filter ?e (Inferences (state sm)))"
  have dist: "distinct (map fst (Inferences (state sm)))"
    using kv_inv_distinct [OF live_inv [OF ok]] .
  have elig: "\<exists>r. kv_get (Inferences (state sm)) i = Some r \<and> Status r \<notin> {StatusPending, StatusStarted}"
    if i: "i \<in> set ?is" for i
  proof -
    obtain r where "(i, r) \<in> set (Inferences (state sm))" "?e (i, r)"
      using i by force
    then show ?thesis
      using dist by (auto simp: autoSealEligible_def Let_def sealEligibleStatus_def
          split: if_splits intro!: exI [of _ r])
  qed
  have "sim sm (autoSealLoop env n ?is cur sm)" for cur
    using dist by (intro autoSealLoop_sim ok elig) (simp_all add: distinct_map_filter)
  then show ?thesis
    unfolding autoSealLocked_def Let_def
    by (auto intro!: sim_bindS [OF ok] intro: sim_same setSealedAcc_view)
qed

section \<open>The end of a nonce\<close>

lemma fee_sim: "sim sm (chargeNonceFee sm)"
proof (cases "Phase (state sm) = PhaseActive \<and> \<not> Balance (state sm) < FeePerNonce (Config (state sm))")
  case True
  let ?f = "FeePerNonce (Config (state sm))"
  let ?sm1 = "sm\<lparr>state := (state sm)
    \<lparr>Balance := Balance (state sm) - ?f, Fees := Fees (state sm) + ?f\<rparr>\<rparr>"
  have "session_of ?sm1 = (session_of sm)
      \<lparr>s_free := Balance (state sm) - ?f, s_fees := Fees (state sm) + ?f\<rparr>"
    by (simp add: session_of_def known_ids_def)
  then have "sim sm (Inr (), ?sm1)"
    using end_step.fee [of "session_of sm" ?f] True by (intro sim_end) (simp_all add: not_less)
  with True show ?thesis
    by (simp add: chargeNonceFee_def)
qed (auto simp: chargeNonceFee_def intro: sim_same)

lemma advance_sim:
  assumes "nonce = LatestNonce (state sm) + 1"
  shows "sim sm (Inr (), advanceNonce nonce sm)"
proof (rule sim_end)
  have "session_of (advanceNonce nonce sm) = (session_of sm)\<lparr>s_nonce := s_nonce (session_of sm) + 1\<rparr>"
    using assms by (simp add: advanceNonce_def Let_def session_of_def known_ids_def)
  then show "end_step (session_of sm) (session_of (advanceNonce nonce sm))"
    by (simp add: end_step.tick del: session_of_sel)
qed (simp_all add: advanceNonce_def Let_def static_def restoreMutable_def)

lemma deadline_sim:
  assumes ok: "machine_ok sm"
  shows "sim sm (settleAtDeadline env sm)"
    and "settleAtDeadline env sm = (Inr u, sm') \<Longrightarrow>
           (Phase (state sm) = PhaseSettlement \<Longrightarrow> Inferences (state sm) = []) \<Longrightarrow>
           Phase (state sm') = PhaseSettlement \<Longrightarrow> Inferences (state sm') = []"
proof -
  let ?sm1 = "sm\<lparr>state := (state sm)\<lparr>Phase := PhaseSettlement\<rparr>\<rparr>"
  have v: "session_of ?sm1 = (session_of sm)\<lparr>s_phase := PhaseSettlement\<rparr>"
    by (simp add: session_of_def known_ids_def)
  have step: "sim sm (Inr (), ?sm1)" if "Phase (state sm) = PhaseFinalizing"
    using that end_step.deadline [of "session_of sm"] by (intro sim_end) (simp_all add: v)
  then have "sim sm (drainLiveIntoSealedAccLocked env n ?sm1)" if "Phase (state sm) = PhaseFinalizing" for n
    using that sim_trans [OF step] drain_sim(1) sim_ok(1) [OF step ok] by blast
  then show "sim sm (settleAtDeadline env sm)"
    by (auto simp: settleAtDeadline_def intro: sim_same)
  assume run: "settleAtDeadline env sm = (Inr u, sm')"
    and old: "Phase (state sm) = PhaseSettlement \<Longrightarrow> Inferences (state sm) = []"
    and ph: "Phase (state sm') = PhaseSettlement"
  show "Inferences (state sm') = []"
    using run old ph drain_sim(2) [OF sim_ok(1) [OF step ok]]
    by (auto simp: settleAtDeadline_def split: if_splits)
qed

lemma autoSealStep_sim: "machine_ok sm \<Longrightarrow> sim sm (autoSealStep env n sm)"
  unfolding autoSealStep_def by (auto intro!: sim_bindS autoSealLocked_sim intro: sim_same)

lemma computeRoot_error: "computeStateRootLocked env sm \<noteq> Inl GoPanic"
proof -
  have m: "mapE f xs \<noteq> Inl GoPanic" if "\<And>x. f x \<noteq> Inl GoPanic" for f :: "u64 \<times> InferenceRecord \<Rightarrow> _ + (u64 \<times> bytes)" and xs
    using that by (induction xs) (auto simp: bindE_Inl_iff)
  show ?thesis
    by (auto simp: computeStateRootLocked_def computeHostStatsHash_def ComputeRestHashV2_def
        ComputeInferencesHashV2_def computeInferencesHash_def marshalInferenceEntry_def bindE_Inl_iff
        dest!: marshalE_error m [THEN notE, rotated] split: prod.splits)
qed

lemma finishNonce_sim:
  assumes ok: "machine_ok sm" and n: "nonce = LatestNonce (state sm) + 1"
  shows "sim sm (finishNonce env nonce sm)"
  unfolding finishNonce_def
proof (rule sim_bindS [OF ok fee_sim])
  fix u sm1
  assume fee: "chargeNonceFee sm = (Inr u, sm1)" and ok1: "machine_ok sm1"
  have n1: "nonce = LatestNonce (state sm1) + 1"
    using fee n by (auto simp: chargeNonceFee_def split: if_splits)
  let ?sm1' = "advanceNonce nonce sm1"
  have adv: "sim sm1 (Inr (), ?sm1')" by (rule advance_sim [OF n1])
  have "sim ?sm1' (bindS (settleAtDeadline env ?sm1') (\<lambda>_ sm2.
     bindS (autoSealStep env nonce sm2) (\<lambda>_ sm3. (computeStateRootLocked env sm3, sm3))))"
    by (intro sim_bindS deadline_sim(1) autoSealStep_sim sim_same same_view_refl computeRoot_error
        sim_ok(1) [OF adv ok1]) simp_all
  with adv show "sim sm1 (bindS (settleAtDeadline env ?sm1') (\<lambda>_ sm2.
     bindS (autoSealStep env nonce sm2) (\<lambda>_ sm3. (computeStateRootLocked env sm3, sm3))))"
    by (rule sim_trans)
qed

section \<open>Diffs\<close>

lemma tx_step_frame:
  assumes "tx_step T s s'"
  shows "s_nonce s' = s_nonce s"
    and "s_known s' \<subseteq> insert (s_nonce s + 1) (s_known s)"
    and "s_phase s' = PhaseSettlement \<Longrightarrow> s_phase s = PhaseSettlement"
    and "s_phase s' = PhaseSettlement \<Longrightarrow> s_live s = [] \<Longrightarrow> s_live s' = []"
  using assms by (auto elim!: tx_step.cases)

lemma tx_steps_frame:
  assumes "(tx_step T)\<^sup>*\<^sup>* s s'"
  shows "s_nonce s' = s_nonce s \<and> s_known s' \<subseteq> insert (s_nonce s + 1) (s_known s)
    \<and> (s_phase s' = PhaseSettlement \<longrightarrow> s_phase s = PhaseSettlement \<and> (s_live s = [] \<longrightarrow> s_live s' = []))"
  using assms
proof (induction rule: rtranclp_induct)
  case (step t u)
  from tx_step_frame [OF step.hyps(2)] step.IH show ?case by auto
qed auto

lemma end_step_known: "end_step s s' \<Longrightarrow> s_known s' = s_known s"
  by (erule end_step.cases) simp_all

lemma end_steps_known: "end_step\<^sup>*\<^sup>* s s' \<Longrightarrow> s_known s' = s_known s"
  by (induction rule: rtranclp_induct) (simp_all add: end_step_known)

text \<open>A session in settlement has no live inference.\<close>

definition settled_empty :: "StateMachine \<Rightarrow> bool" where
  "settled_empty sm \<longleftrightarrow> (Phase (state sm) = PhaseSettlement \<longrightarrow> Inferences (state sm) = [])"

text \<open>What a list of transactions does to a machine whose start messages carry the next nonce.\<close>

definition starts_at :: "u64 \<Rightarrow> DevshardTx list \<Rightarrow> bool" where
  "starts_at n txs \<longleftrightarrow> (\<forall>tx \<in> set txs. \<forall>i. start_id tx = Some i \<longrightarrow> i = n)"

lemma checkStarts_starts_at: "checkStarts n txs = Inr u \<Longrightarrow> starts_at n txs"
  by (auto simp: checkStarts_def starts_at_def list_ex_iff map_filter_def Let_def split: if_splits)

definition tx_run :: "StateMachine \<Rightarrow> 'a sm_res \<Rightarrow> bool" where
  "tx_run sm res \<longleftrightarrow> fst res \<noteq> Inl GoPanic \<and> static (snd res) = static sm
     \<and> (tx_step (terms_of sm))\<^sup>*\<^sup>* (session_of sm) (session_of (snd res))"

lemma tx_run_frame:
  assumes "tx_run sm (x, sm')"
  shows "LatestNonce (state sm') = LatestNonce (state sm)" and "settled_empty sm \<Longrightarrow> settled_empty sm'"
    and "known_ids sm' \<subseteq> insert (LatestNonce (state sm) + 1) (known_ids sm)"
    and "static sm' = static sm"
  using assms tx_steps_frame [of "terms_of sm" "session_of sm" "session_of sm'"]
  by (auto simp: tx_run_def settled_empty_def)

lemma tx_run_ok:
  assumes "tx_run sm (x, sm')" and "machine_ok sm"
  shows "machine_ok sm'" and "wealth (session_of sm') = wealth (session_of sm)"
  using run_ok [OF tx_steps_sess, of sm sm'] assms by (simp_all add: tx_run_def)

lemma tx_run_one:
  assumes "machine_ok sm" and "starts_at (LatestNonce (state sm) + 1) (tx # txs)"
    and "applyTx env tx sm = (x, sm1)"
  shows "tx_run sm (x, sm1)" and "machine_ok sm1" and "starts_at (LatestNonce (state sm1) + 1) txs"
proof -
  have "tx_sim sm (x, sm1)"
    using applyTx_sim [OF assms(1), of tx env] assms(2,3) by (simp add: starts_at_def)
  then show run: "tx_run sm (x, sm1)"
    by (auto simp: tx_sim_def tx_run_def)
  show "machine_ok sm1"
    by (rule tx_run_ok(1) [OF run assms(1)])
  show "starts_at (LatestNonce (state sm1) + 1) txs"
    using assms(2) tx_run_frame(1) [OF run] by (simp add: starts_at_def)
qed

lemma tx_run_trans:
  assumes "tx_run sm (x, sm1)" and "tx_run sm1 res"
  shows "tx_run sm res"
proof -
  have "terms_of sm1 = terms_of sm"
    using tx_run_frame(4) [OF assms(1)] by (rule staticD)
  with assms show ?thesis
    unfolding tx_run_def by (metis rtranclp_trans snd_conv)
qed

lemma tx_run_refl: "x \<noteq> Inl GoPanic \<Longrightarrow> tx_run sm (x, sm)"
  by (simp add: tx_run_def)

lemma applyTxs_run:
  assumes "machine_ok sm" and "starts_at (LatestNonce (state sm) + 1) txs"
  shows "tx_run sm (applyTxs env txs sm)"
  using assms
proof (induction txs arbitrary: sm)
  case Nil
  then show ?case by (simp add: tx_run_refl)
next
  case (Cons tx txs)
  obtain x sm1 where t: "applyTx env tx sm = (x, sm1)" by fastforce
  note one = tx_run_one [OF Cons.prems t]
  show ?case
  proof (cases x)
    case (Inl e)
    with one(1) t show ?thesis by simp
  next
    case (Inr u)
    with one t Cons.IH [OF one(2,3)] show ?thesis by (simp add: tx_run_trans [OF one(1)])
  qed
qed

lemma tx_run_Inr: "tx_run sm (Inr a, sm1) \<Longrightarrow> tx_run sm (Inr b, sm1)"
  by (simp add: tx_run_def)

lemma applyBestEffort_run:
  assumes "machine_ok sm" and "starts_at (LatestNonce (state sm) + 1) txs"
  shows "tx_run sm (applyBestEffort env txs sm)"
  using assms
proof (induction txs arbitrary: sm)
  case Nil
  then show ?case by (simp add: tx_run_refl)
next
  case (Cons tx txs)
  obtain x sm1 where t: "applyTx env tx sm = (x, sm1)" by fastforce
  note one = tx_run_one [OF Cons.prems t]
  obtain y sm2 where rest: "applyBestEffort env txs sm1 = (y, sm2)" by fastforce
  have run: "tx_run sm (y, sm2)"
    using tx_run_trans [OF one(1) Cons.IH [OF one(2,3), unfolded rest]] .
  show ?case
  proof (cases x)
    case (Inl e)
    have "tx_run sm (Inl e :: devshard_error + DevshardTx list, sm1)"
      using one(1) Inl by (simp add: tx_run_def)
    with Inl run t rest show ?thesis by simp
  next
    case (Inr u)
    with run t rest show ?thesis by (cases y) (auto intro: tx_run_Inr)
  qed
qed

section \<open>Whole operations\<close>

text \<open>Sealing touches neither the phase nor the nonces.\<close>

definition clock_of :: "StateMachine \<Rightarrow> SessionPhase \<times> u64 \<times> u64" where
  "clock_of sm = (Phase (state sm), FinalizeNonce (state sm), LatestNonce (state sm))"

lemma upsert_state: "upsertInferenceObsLocked env i n r sm = (x, sm') \<Longrightarrow> state sm' = state sm"
  by (auto simp: upsertInferenceObsLocked_def storeCall_def Let_def
      split: option.splits prod.splits sum.splits if_splits)

lemma updateCommitted_state: "updateCommittedEntryLocked env i r sm = (x, sm') \<Longrightarrow> state sm' = state sm"
  by (auto simp: updateCommittedEntryLocked_def split: sum.splits)

lemma settle_clock: "settleLiveRecordLocked i r sm = (x, sm') \<Longrightarrow> clock_of sm' = clock_of sm"
  by (auto simp: settleLiveRecordLocked_def Let_def clock_of_def setInference_def addBalance_def
      setHostStats_def split: InferenceStatus.splits option.splits)

lemma seal_clock:
  "clock_of (dropLive i sm) = clock_of sm" "clock_of (noteSealed n i sm) = clock_of sm"
  "clock_of (setSealedAcc acc sm) = clock_of sm"
  by (simp_all add: clock_of_def dropLive_def noteSealed_def setSealedAcc_def)

lemma clock_of_state: "state sm' = state sm \<Longrightarrow> clock_of sm' = clock_of sm"
  by (simp add: clock_of_def)

lemmas clock_frames = seal_clock settle_clock clock_of_state [OF upsert_state] clock_of_state [OF updateCommitted_state]

lemma drainOne_clock: "drainOne env n i cur sm = (x, sm') \<Longrightarrow> clock_of sm' = clock_of sm"
  by (auto simp: drainOne_def bindS_eq clock_frames split: option.splits dest!: clock_frames(4-6))

lemma drainLoop_clock: "drainLoop env n is cur sm = (x, sm') \<Longrightarrow> clock_of sm' = clock_of sm"
  by (induction "is" arbitrary: cur sm) (auto simp: bindS_eq dest!: drainOne_clock)

lemma drain_clock: "drainLiveIntoSealedAccLocked env n sm = (x, sm') \<Longrightarrow> clock_of sm' = clock_of sm"
  by (auto simp: drainLiveIntoSealedAccLocked_def bindS_eq seal_clock split: if_splits
      dest!: drainLoop_clock)

lemma upsert_clock: "clock_of (snd (upsertInferenceObsLocked env i n r sm)) = clock_of sm"
  using clock_of_state [OF upsert_state] by (metis prod.collapse)

lemma autoSealOne_clock: "autoSealOne env n i cur sm = (x, sm') \<Longrightarrow> clock_of sm' = clock_of sm"
  by (auto simp: autoSealOne_def bindS_eq Let_def seal_clock upsert_clock split: option.splits
      dest!: clock_of_state [OF updateCommitted_state])

lemma autoSealLoop_clock: "autoSealLoop env n is cur sm = (x, sm') \<Longrightarrow> clock_of sm' = clock_of sm"
  by (induction "is" arbitrary: cur sm) (auto simp: bindS_eq dest!: autoSealOne_clock)

lemma autoSealStep_clock: "autoSealStep env n sm = (x, sm') \<Longrightarrow> clock_of sm' = clock_of sm"
  by (auto simp: autoSealStep_def autoSealLocked_def bindS_eq Let_def seal_clock split: if_splits
      dest!: autoSealLoop_clock)

lemma autoSealStep_settled:
  assumes "settled_empty sm" and run: "autoSealStep env n sm = (x, sm')"
  shows "settled_empty sm'"
proof (cases "Phase (state sm) = PhaseActive")
  case True
  then show ?thesis
    using autoSealStep_clock [OF run] by (simp add: clock_of_def settled_empty_def)
next
  case False
  with assms show ?thesis by (simp add: autoSealStep_def)
qed

lemma finishNonce_settled:
  assumes ok: "machine_ok sm" and n: "nonce = LatestNonce (state sm) + 1" and e: "settled_empty sm"
    and run: "finishNonce env nonce sm = (Inr root, sm')"
  shows "settled_empty sm'"
proof -
  obtain sm1 sm2 where fee: "chargeNonceFee sm = (Inr (), sm1)"
    and dl: "settleAtDeadline env (advanceNonce nonce sm1) = (Inr (), sm2)"
    and auto: "autoSealStep env nonce sm2 = (Inr (), sm')"
    using run by (auto simp: finishNonce_def bindS_eq)
  have sm1: "machine_ok sm1" "LatestNonce (state sm1) = LatestNonce (state sm)" "settled_empty sm1"
    using sim_ok(1) [OF _ ok] fee_sim [of sm] fee e
    by (auto simp: chargeNonceFee_def settled_empty_def split: if_splits)
  have "machine_ok (advanceNonce nonce sm1)"
    using sim_ok(1) [OF advance_sim sm1(1)] n sm1(2) by simp
  moreover have "settled_empty (advanceNonce nonce sm1)"
    using sm1(3) by (simp add: settled_empty_def advanceNonce_def Let_def)
  ultimately have "settled_empty sm2"
    using deadline_sim(2) [OF _ dl] by (auto simp: settled_empty_def)
  then show ?thesis
    using auto by (rule autoSealStep_settled)
qed

text \<open>
  A machine that satisfies the contract with a given total and a given static part. This is
  what every operation keeps.
\<close>

definition good :: "StateMachine \<Rightarrow> nat \<Rightarrow> StateMachine \<Rightarrow> bool" where
  "good S A sm \<longleftrightarrow> static sm = S \<and> machine_ok sm \<and> settled_empty sm \<and> wealth (session_of sm) = A"

lemma good_sim: "good S A sm \<Longrightarrow> sim sm (x, sm') \<Longrightarrow> settled_empty sm' \<Longrightarrow> good S A sm'"
  using sim_ok [of sm x sm'] by (simp add: good_def)

lemma good_same: "good S A sm \<Longrightarrow> same_view sm sm' \<Longrightarrow> good S A sm'"
  using good_sim [of S A sm "Inr ()" sm'] sim_same [of sm sm' "Inr ()"] same_viewD [of sm sm']
  by (simp add: good_def settled_empty_def)

lemma rollback_view:
  assumes "static sm' = static sm"
  shows "same_view sm (restoreMutable (snapshotMutable sm) sm')"
  using assms
  by (simp add: same_view_def)
    (simp add: restoreMutable_def snapshotMutable_def session_of_def known_ids_def)

lemma tx_run_good: "good S A sm \<Longrightarrow> tx_run sm (x, sm') \<Longrightarrow> good S A sm'"
  using tx_run_ok [of sm x sm'] tx_run_frame [of sm x sm'] by (simp add: good_def)

lemma finishNonce_good:
  assumes "good S A sm" and "nonce = LatestNonce (state sm) + 1" and "finishNonce env nonce sm = (Inr root, sm')"
  shows "good S A sm'"
  using assms finishNonce_sim [of sm nonce env] finishNonce_settled [of sm nonce env root sm']
  by (auto simp: good_def intro: good_sim dest: sim_ok)

lemma orRollback_good:
  assumes g: "good S A sm" and static: "static (snd r) = static sm" and np: "fst r \<noteq> Inl GoPanic"
    and k: "\<And>a sm1. r = (Inr a, sm1) \<Longrightarrow> fst (k a sm1) \<noteq> Inl GoPanic \<and> good S A (snd (k a sm1))"
  shows "fst (orRollback (snapshotMutable sm) r k) \<noteq> Inl GoPanic
    \<and> good S A (snd (orRollback (snapshotMutable sm) r k))"
proof (cases r)
  case (Pair x sm1)
  then show ?thesis
    using assms good_same [OF g rollback_view, of sm1]
    by (cases x) (auto simp: orRollback_def)
qed

lemma core_good:
  assumes g: "good S A sm" and r: "tx_run sm r" and n: "nonce = LatestNonce (state sm) + 1"
    and k: "\<And>root a sm2. good S A sm2 \<Longrightarrow> fst (k a root sm2) \<noteq> Inl GoPanic \<and> good S A (snd (k a root sm2))"
  shows "let res = orRollback (snapshotMutable sm) r (\<lambda>a sm1.
      orRollback (snapshotMutable sm) (finishNonce env nonce sm1) (k a))
    in fst res \<noteq> Inl GoPanic \<and> good S A (snd res)"
  unfolding Let_def
proof (rule orRollback_good [OF g])
  show "static (snd r) = static sm" "fst r \<noteq> Inl GoPanic"
    using r by (simp_all add: tx_run_def)
  fix a sm1
  assume r1: "r = (Inr a, sm1)"
  then have run: "tx_run sm (Inr a, sm1)" using r by simp
  have g1: "good S A sm1" by (rule tx_run_good [OF g run])
  have n1: "nonce = LatestNonce (state sm1) + 1"
    using tx_run_frame(1) [OF run] n by simp
  have s1: "static sm1 = static sm" by (rule tx_run_frame(4) [OF run])
  show "fst (orRollback (snapshotMutable sm) (finishNonce env nonce sm1) (k a)) \<noteq> Inl GoPanic
      \<and> good S A (snd (orRollback (snapshotMutable sm) (finishNonce env nonce sm1) (k a)))"
  proof (rule orRollback_good [OF g])
    have "sim sm1 (finishNonce env nonce sm1)"
      using g1 n1 finishNonce_sim by (simp add: good_def)
    then show "static (snd (finishNonce env nonce sm1)) = static sm"
      "fst (finishNonce env nonce sm1) \<noteq> Inl GoPanic"
      using s1 by (simp_all add: sim_def)
    fix root sm2
    assume "finishNonce env nonce sm1 = (Inr root, sm2)"
    then show "fst (k a root sm2) \<noteq> Inl GoPanic \<and> good S A (snd (k a root sm2))"
      using k finishNonce_good [OF g1 n1] by blast
  qed
qed

lemma applyCore_good:
  assumes g: "good S A sm"
  shows "fst (applyCore env nonce txs post sm) \<noteq> Inl GoPanic \<and> good S A (snd (applyCore env nonce txs post sm))"
proof -
  have "tx_run sm (applyTxs env txs sm)" if "nonce = LatestNonce (state sm) + 1" "checkStarts nonce txs = Inr u" for u
    using that g applyTxs_run checkStarts_starts_at by (auto simp: good_def)
  moreover have "checkStarts nonce txs \<noteq> Inl GoPanic"
    by (auto simp: checkStarts_def Let_def)
  moreover have "good S A (restoreMutable (snapshotMutable sm) sm2)" if "good S A sm2" for sm2
    using good_same [OF g rollback_view] that g by (simp add: good_def)
  ultimately show ?thesis
    using g core_good [OF g, of "applyTxs env txs sm" nonce
        "\<lambda>_ root sm2. if post \<noteq> [] \<and> root \<noteq> post
         then (Inl ErrPostStateRootMismatch, restoreMutable (snapshotMutable sm) sm2) else (Inr root, sm2)" env]
    by (auto simp: applyCore_def Let_def split: sum.splits)
qed

lemma localBestEffort_good:
  assumes g: "good S A sm"
  shows "fst (localBestEffortLocked env nonce txs sm) \<noteq> Inl GoPanic
    \<and> good S A (snd (localBestEffortLocked env nonce txs sm))"
proof -
  have "tx_run sm (applyBestEffort env txs sm)"
    if "nonce = LatestNonce (state sm) + 1" "checkStarts nonce txs = Inr u" for u
    using that g applyBestEffort_run checkStarts_starts_at by (auto simp: good_def)
  moreover have "checkStarts nonce txs \<noteq> Inl GoPanic"
    by (auto simp: checkStarts_def Let_def)
  ultimately show ?thesis
    using g core_good [OF g, of "applyBestEffort env txs sm" nonce
        "\<lambda>applied root sm2. (Inr (root, applied), sm2)" env]
    by (auto simp: localBestEffortLocked_def Let_def split: sum.splits)
qed

lemma ApplyDiff_good:
  "good S A sm \<Longrightarrow> fst (ApplyDiff env d sm) \<noteq> Inl GoPanic \<and> good S A (snd (ApplyDiff env d sm))"
  using applyCore_good [of S A sm env]
  by (auto simp: ApplyDiff_def verifyDiffUserSig_def bindE_Inl_iff split: sum.splits option.splits if_splits
      dest: marshalE_error)

text \<open>The post-state that a validation hands out is that of a machine the operations reach.\<close>

definition handle_ok :: "StateMachine \<Rightarrow> nat \<Rightarrow> ValidatedDiff \<Rightarrow> bool" where
  "handle_ok S A vd \<longleftrightarrow> (\<exists>sm1. good S A sm1 \<and> vd_post vd = snapshotMutable sm1)"

lemma deferred_view: "same_view sm (sm\<lparr>obsDeferred := ws\<rparr>)"
  by (simp add: same_view_def session_of_def known_ids_def)

lemma trialApply_good:
  assumes g: "good S A sm"
    and f: "\<And>sm1. good S A sm1 \<Longrightarrow> fst (f sm1) \<noteq> Inl GoPanic \<and> good S A (snd (f sm1))"
    and fill: "\<And>a vd. vd_post (fill a vd) = vd_post vd"
  shows "fst (trialApply f fill nonce sm) \<noteq> Inl GoPanic \<and> good S A (snd (trialApply f fill nonce sm))"
    and "fst (trialApply f fill nonce sm) = Inr vd \<Longrightarrow> handle_ok S A vd"
proof -
  let ?sm0 = "sm\<lparr>obsDeferred := Some []\<rparr>"
  obtain x sm1 where r: "f ?sm0 = (x, sm1)" by fastforce
  have g1: "x \<noteq> Inl GoPanic" "good S A sm1"
    using f [OF good_same [OF g deferred_view]] r by (metis fst_conv, metis snd_conv)
  have "good S A (restoreMutable (snapshotMutable sm) (sm1\<lparr>obsDeferred := None\<rparr>))"
    using g g1 by (intro good_same [OF g rollback_view]) (simp add: good_def)
  then show "fst (trialApply f fill nonce sm) \<noteq> Inl GoPanic \<and> good S A (snd (trialApply f fill nonce sm))"
    using r g1 good_same [OF g1(2) deferred_view]
    by (cases x) (auto simp: trialApply_def Let_def)
  assume "fst (trialApply f fill nonce sm) = Inr vd"
  then have "vd_post vd = snapshotMutable sm1"
    using r fill by (cases x) (auto simp: trialApply_def Let_def)
  with g1(2) show "handle_ok S A vd"
    by (auto simp: handle_ok_def)
qed

lemma ValidateDiff_good:
  assumes "good S A sm"
  shows "fst (ValidateDiff env d sm) \<noteq> Inl GoPanic \<and> good S A (snd (ValidateDiff env d sm))"
    and "fst (ValidateDiff env d sm) = Inr vd \<Longrightarrow> handle_ok S A vd"
proof -
  note trial = trialApply_good [OF assms, where fill = "\<lambda>root vd. vd\<lparr>vd_Root := root\<rparr>"
      and nonce = "d_Nonce d" and f = "applyCore env (d_Nonce d) (d_Txs d) (d_PostStateRoot d)",
      OF applyCore_good, simplified]
  have "verifyDiffUserSig env d sm \<noteq> Inl GoPanic"
    by (auto simp: verifyDiffUserSig_def bindE_Inl_iff split: option.splits if_splits dest: marshalE_error)
  with assms trial(1)
  show "fst (ValidateDiff env d sm) \<noteq> Inl GoPanic \<and> good S A (snd (ValidateDiff env d sm))"
    by (auto simp: ValidateDiff_def split: sum.splits)
  show "fst (ValidateDiff env d sm) = Inr vd \<Longrightarrow> handle_ok S A vd"
    using trial(2) by (auto simp: ValidateDiff_def split: sum.splits)
qed

lemma Preview_good:
  assumes "good S A sm"
  shows "fst (PreviewLocalBestEffort env nonce txs sm) \<noteq> Inl GoPanic
      \<and> good S A (snd (PreviewLocalBestEffort env nonce txs sm))"
    and "fst (PreviewLocalBestEffort env nonce txs sm) = Inr vd \<Longrightarrow> handle_ok S A vd"
proof -
  note trial = trialApply_good [OF assms, where nonce = nonce and f = "localBestEffortLocked env nonce txs"
      and fill = "\<lambda>(root, applied) vd. vd\<lparr>vd_Root := root, vd_Applied := applied\<rparr>",
      OF localBestEffort_good]
  have fill: "vd_post ((case a of (root, applied) \<Rightarrow>
      \<lambda>vd. vd\<lparr>vd_Root := root, vd_Applied := applied\<rparr>) vd) = vd_post vd"
    for a :: "bytes \<times> DevshardTx list" and vd :: ValidatedDiff
    by (cases a) simp
  show "fst (PreviewLocalBestEffort env nonce txs sm) \<noteq> Inl GoPanic
      \<and> good S A (snd (PreviewLocalBestEffort env nonce txs sm))"
    unfolding PreviewLocalBestEffort_def by (rule trial(1)) (auto simp: fill)
  show "fst (PreviewLocalBestEffort env nonce txs sm) = Inr vd \<Longrightarrow> handle_ok S A vd"
    unfolding PreviewLocalBestEffort_def by (rule trial(2)) (auto simp: fill)
qed

lemma flushWrite_view: "same_view sm (flushWrite env sm w)"
  by (auto simp: flushWrite_def split: prod.splits sum.splits dest!: storeCall_view)
    (metis prod.collapse same_view_trans storeCall_view)

lemma foldl_view: "(\<And>sm x. same_view sm (f sm x)) \<Longrightarrow> same_view sm (foldl f sm xs)"
  by (induction xs arbitrary: sm) (auto intro: same_view_trans)

lemma flush_view: "same_view sm (flushDeferredObsLocked env ws sm)"
  unfolding flushDeferredObsLocked_def by (intro foldl_view flushWrite_view)

lemma CommitValidated_good:
  assumes "good S A sm" and "handle_ok S A vd"
  shows "good S A (snd (CommitValidated env vd sm))"
proof -
  obtain sm1 where sm1: "good S A sm1" "vd_post vd = snapshotMutable sm1"
    using assms(2) by (auto simp: handle_ok_def)
  have "good S A (restoreMutable (vd_post vd) sm)"
    unfolding sm1(2) using assms(1) sm1(1) by (intro good_same [OF sm1(1) rollback_view]) (simp add: good_def)
  then have "good S A (flushDeferredObsLocked env (vd_obs vd) (restoreMutable (vd_post vd) sm))"
    using flush_view good_same by blast
  with assms(1) show ?thesis
    by (simp add: CommitValidated_def)
qed

lemma InjectWarmKeys_good: "good S A sm \<Longrightarrow> good S A (InjectWarmKeys delta sm)"
proof -
  have "same_view sm (InjectWarmKeys delta sm)"
    unfolding InjectWarmKeys_def
    by (intro foldl_view) (auto simp: same_view_def session_of_def known_ids_def split: prod.splits)
  then show "good S A sm \<Longrightarrow> good S A (InjectWarmKeys delta sm)"
    by (rule good_same [rotated])
qed

section \<open>Reachable machines\<close>

text \<open>
  The machines that the operations reach from a constructed one. Each operation may run with
  another environment (the storage and the warm-key resolver answer differently over time),
  and a handle may be committed at any later point. The number bounds the operations on the
  way, and so the nonces used.
\<close>

inductive reach :: "StateMachine \<Rightarrow> nat \<Rightarrow> StateMachine \<Rightarrow> bool" for init where
  init: "reach init 0 init"
| apply_diff: "reach init n sm \<Longrightarrow> reach init (Suc n) (snd (ApplyDiff env d sm))"
| apply_local: "reach init n sm \<Longrightarrow> reach init (Suc n) (snd (ApplyLocal env nonce txs sm))"
| best_effort: "reach init n sm \<Longrightarrow> reach init (Suc n) (snd (ApplyLocalBestEffort env nonce txs sm))"
| validate: "reach init n sm \<Longrightarrow> reach init (Suc n) (snd (ValidateDiff env d sm))"
| preview: "reach init n sm \<Longrightarrow> reach init (Suc n) (snd (PreviewLocalBestEffort env nonce txs sm))"
| commit: "reach init n sm0 \<Longrightarrow> fst (ValidateDiff env0 d sm0) = Inr vd \<Longrightarrow> reach init m sm \<Longrightarrow>
     reach init (Suc (max n m)) (snd (CommitValidated env vd sm))"
| commit_preview: "reach init n sm0 \<Longrightarrow> fst (PreviewLocalBestEffort env0 nonce txs sm0) = Inr vd \<Longrightarrow>
     reach init m sm \<Longrightarrow> reach init (Suc (max n m)) (snd (CommitValidated env vd sm))"
| inject: "reach init n sm \<Longrightarrow> reach init (Suc n) (InjectWarmKeys delta sm)"

lemma reach_good: "reach init n sm \<Longrightarrow> good S A init \<Longrightarrow> good S A sm"
proof (induction rule: reach.induct)
  case (commit n sm0 env0 d vd m sm env)
  then show ?case using CommitValidated_good ValidateDiff_good(2) by blast
next
  case (commit_preview n sm0 env0 nonce txs vd m sm env)
  then show ?case using CommitValidated_good Preview_good(2) by blast
qed (simp_all add: ApplyDiff_good ApplyLocal_def applyCore_good ApplyLocalBestEffort_def
    localBestEffort_good ValidateDiff_good Preview_good InjectWarmKeys_good)

section \<open>Accepted diffs\<close>

lemma orRollback_Inr:
  "orRollback snap r k = (Inr b, sm') \<longleftrightarrow> (\<exists>a sm1. r = (Inr a, sm1) \<and> k a sm1 = (Inr b, sm'))"
  by (auto simp: orRollback_def split: prod.splits sum.splits)

lemma applyCore_Inr:
  "applyCore env nonce txs post sm = (Inr root, sm') \<longleftrightarrow>
     nonce = LatestNonce (state sm) + 1 \<and> checkStarts nonce txs = Inr ()
     \<and> (post = [] \<or> root = post)
     \<and> (\<exists>sm1. applyTxs env txs sm = (Inr (), sm1) \<and> finishNonce env nonce sm1 = (Inr root, sm'))"
  by (auto simp: applyCore_def Let_def orRollback_Inr split: sum.splits if_splits)

lemma localBestEffort_Inr:
  "localBestEffortLocked env nonce txs sm = (Inr (root, applied), sm') \<longleftrightarrow>
     nonce = LatestNonce (state sm) + 1 \<and> checkStarts nonce txs = Inr ()
     \<and> (\<exists>sm1. applyBestEffort env txs sm = (Inr applied, sm1) \<and> finishNonce env nonce sm1 = (Inr root, sm'))"
  by (auto simp: localBestEffortLocked_def Let_def orRollback_Inr split: sum.splits if_splits)

text \<open>
  An accepted diff in normal form: the transactions applied, then the end of the nonce. An
  operation that accepts nothing leaves the machine as it was, up to storage and warm keys.
\<close>

inductive accepted :: "u64 \<Rightarrow> StateMachine \<Rightarrow> StateMachine \<Rightarrow> bool" where
  strict: "applyTxs env txs sm = (Inr (), sm1) \<Longrightarrow> starts_at nonce txs \<Longrightarrow>
     finishNonce env nonce sm1 = (Inr root, sm') \<Longrightarrow> accepted nonce sm sm'"
| effort: "applyBestEffort env txs sm = (Inr applied, sm1) \<Longrightarrow> starts_at nonce txs \<Longrightarrow>
     finishNonce env nonce sm1 = (Inr root, sm') \<Longrightarrow> accepted nonce sm sm'"

definition unmoved :: "StateMachine \<Rightarrow> StateMachine \<Rightarrow> bool" where
  "unmoved sm sm' \<longleftrightarrow> same_view sm sm' \<and> clock_of sm' = clock_of sm"

inductive advanced :: "StateMachine \<Rightarrow> nat \<Rightarrow> StateMachine \<Rightarrow> bool" for init where
  base: "advanced init 0 init"
| diff: "advanced init n sm \<Longrightarrow> accepted (LatestNonce (state sm) + 1) sm sm' \<Longrightarrow> advanced init (Suc n) sm'"
| frame: "advanced init n sm \<Longrightarrow> unmoved sm sm' \<Longrightarrow> n \<le> m \<Longrightarrow> advanced init m sm'"

lemma applyCore_accepted:
  "applyCore env nonce txs post sm = (Inr root, sm') \<Longrightarrow> accepted (LatestNonce (state sm) + 1) sm sm'"
  by (auto simp: applyCore_Inr intro: accepted.strict dest: checkStarts_starts_at)

lemma localBestEffort_accepted:
  "localBestEffortLocked env nonce txs sm = (Inr p, sm') \<Longrightarrow> accepted (LatestNonce (state sm) + 1) sm sm'"
  by (cases p) (auto simp: localBestEffort_Inr intro: accepted.effort dest: checkStarts_starts_at)

text \<open>What an operation returns with an error: the state before, up to storage.\<close>

definition rolled_back :: "StateMachine \<Rightarrow> StateMachine \<Rightarrow> bool" where
  "rolled_back sm sm' \<longleftrightarrow> static sm' = static sm \<and> snapshotMutable sm' = snapshotMutable sm"

lemma snapshot_restore [simp]: "snapshotMutable (restoreMutable snap sm) = snap"
  by (simp add: snapshotMutable_def restoreMutable_def)

lemma rolled_back_refl [simp]: "rolled_back sm sm"
  by (simp add: rolled_back_def)

lemma rolled_back_unmoved: "rolled_back sm sm' \<Longrightarrow> unmoved sm sm'"
proof -
  assume r: "rolled_back sm sm'"
  have "session_of sm' = session_of sm" "clock_of sm' = clock_of sm"
    using r by (simp_all add: rolled_back_def snapshotMutable_def session_of_def known_ids_def clock_of_def)
  with r show ?thesis by (simp add: unmoved_def same_view_def rolled_back_def)
qed

lemma core_rolled_back:
  assumes g: "good S A sm" and r: "tx_run sm r" and n: "nonce = LatestNonce (state sm) + 1"
    and k: "\<And>a root sm2 e sm'. k a root sm2 = (Inl e, sm') \<Longrightarrow> static sm2 = static sm \<Longrightarrow> rolled_back sm sm'"
    and e: "orRollback (snapshotMutable sm) r (\<lambda>a sm1.
      orRollback (snapshotMutable sm) (finishNonce env nonce sm1) (k a)) = (Inl e, sm')" "e \<noteq> GoPanic"
  shows "rolled_back sm sm'"
proof (cases r)
  case (Pair x sm1)
  have run: "tx_run sm (x, sm1)" using r Pair by simp
  have s1: "static sm1 = static sm" by (rule tx_run_frame(4) [OF run])
  show ?thesis
  proof (cases x)
    case (Inl d)
    with Pair e s1 show ?thesis by (auto simp: orRollback_def rolled_back_def split: if_splits)
  next
    case (Inr a)
    have "machine_ok sm1" using tx_run_ok(1) [OF run] g by (simp add: good_def)
    moreover have "nonce = LatestNonce (state sm1) + 1" using tx_run_frame(1) [OF run] n by simp
    ultimately have "sim sm1 (finishNonce env nonce sm1)" by (rule finishNonce_sim)
    then have "static (snd (finishNonce env nonce sm1)) = static sm" using s1 by (simp add: sim_def)
    with Pair Inr e k show ?thesis
      by (auto simp: orRollback_def rolled_back_def split: if_splits prod.splits sum.splits)
  qed
qed

lemma applyCore_rolled_back:
  assumes g: "good S A sm" and e: "applyCore env nonce txs post sm = (Inl e, sm')"
  shows "rolled_back sm sm'"
proof (cases "nonce = LatestNonce (state sm) + 1 \<and> checkStarts nonce txs = Inr ()")
  case True
  then have run: "tx_run sm (applyTxs env txs sm)"
    using g applyTxs_run checkStarts_starts_at by (auto simp: good_def)
  have np: "e \<noteq> GoPanic"
    using applyCore_good [OF g, of env nonce txs post] e by auto
  have core: "orRollback (snapshotMutable sm) (applyTxs env txs sm) (\<lambda>_ sm1.
      orRollback (snapshotMutable sm) (finishNonce env nonce sm1) (\<lambda>root sm2.
        if post \<noteq> [] \<and> root \<noteq> post
        then (Inl ErrPostStateRootMismatch, restoreMutable (snapshotMutable sm) sm2)
        else (Inr root, sm2))) = (Inl e, sm')"
    using e True by (auto simp: applyCore_def Let_def)
  show ?thesis
    by (rule core_rolled_back [OF g run conjunct1 [OF True] _ core np])
      (auto simp: rolled_back_def split: if_splits)
next
  case False
  then have "sm' = sm"
    using e by (auto simp: applyCore_def split: sum.splits if_splits)
  then show ?thesis by simp
qed

lemma localBestEffort_rolled_back:
  assumes g: "good S A sm" and e: "localBestEffortLocked env nonce txs sm = (Inl e, sm')"
  shows "rolled_back sm sm'"
proof (cases "nonce = LatestNonce (state sm) + 1 \<and> checkStarts nonce txs = Inr ()")
  case True
  then have run: "tx_run sm (applyBestEffort env txs sm)"
    using g applyBestEffort_run checkStarts_starts_at by (auto simp: good_def)
  have np: "e \<noteq> GoPanic"
    using localBestEffort_good [OF g, of env nonce txs] e by auto
  have core: "orRollback (snapshotMutable sm) (applyBestEffort env txs sm) (\<lambda>applied sm1.
      orRollback (snapshotMutable sm) (finishNonce env nonce sm1)
        (\<lambda>root sm2. (Inr (root, applied), sm2))) = (Inl e, sm')"
    using e True by (auto simp: localBestEffortLocked_def Let_def)
  show ?thesis
    by (rule core_rolled_back [OF g run conjunct1 [OF True] _ core np]) simp
next
  case False
  then have "sm' = sm"
    using e by (auto simp: localBestEffortLocked_def Let_def split: sum.splits if_splits)
  then show ?thesis by simp
qed

text \<open>Every reachable machine is reached by accepted diffs alone.\<close>

lemma unmoved_refl [simp]: "unmoved sm sm"
  by (simp add: unmoved_def)

lemma unmoved_trans: "unmoved a b \<Longrightarrow> unmoved b c \<Longrightarrow> unmoved a c"
  by (auto simp: unmoved_def intro: same_view_trans)

lemma deferred_unmoved: "unmoved sm (sm\<lparr>obsDeferred := ws\<rparr>)"
  by (simp add: unmoved_def deferred_view clock_of_def)

lemma advanced_core:
  assumes "advanced init n sm" and "good S A sm"
    and acc: "\<And>a sm'. r = (Inr a, sm') \<Longrightarrow> accepted (LatestNonce (state sm) + 1) sm sm'"
    and err: "\<And>e sm'. r = (Inl e, sm') \<Longrightarrow> rolled_back sm sm'"
  shows "advanced init (Suc n) (snd r)"
proof (cases r)
  case (Pair x sm')
  then show ?thesis
    using assms advanced.diff advanced.frame [OF assms(1) rolled_back_unmoved, of sm' "Suc n"]
    by (cases x) auto
qed

lemma ApplyDiff_advanced:
  assumes "advanced init n sm" and "good S A sm"
  shows "advanced init (Suc n) (snd (ApplyDiff env d sm))"
proof (rule advanced_core [OF assms])
  show "ApplyDiff env d sm = (Inr a, sm') \<Longrightarrow> accepted (LatestNonce (state sm) + 1) sm sm'" for a sm'
    by (auto simp: ApplyDiff_def split: sum.splits intro: applyCore_accepted)
  show "ApplyDiff env d sm = (Inl e, sm') \<Longrightarrow> rolled_back sm sm'" for e sm'
    using applyCore_rolled_back [OF assms(2)] by (auto simp: ApplyDiff_def split: sum.splits)
qed

text \<open>A trial application restores the machine; its handle carries the accepted state.\<close>

lemma trialApply_advanced:
  assumes adv: "advanced init n sm" and g: "good S A sm"
    and acc: "\<And>sm0 a sm'. f sm0 = (Inr a, sm') \<Longrightarrow> accepted (LatestNonce (state sm0) + 1) sm0 sm'"
    and err: "\<And>sm0 e sm'. good S A sm0 \<Longrightarrow> f sm0 = (Inl e, sm') \<Longrightarrow> rolled_back sm0 sm'"
    and np: "\<And>sm1. good S A sm1 \<Longrightarrow> fst (f sm1) \<noteq> Inl GoPanic \<and> good S A (snd (f sm1))"
    and fill: "\<And>a vd. vd_post (fill a vd) = vd_post vd"
  shows "rolled_back sm (snd (trialApply f fill nonce sm))"
    and "fst (trialApply f fill nonce sm) = Inr vd \<Longrightarrow>
           \<exists>sm1. advanced init (Suc n) sm1 \<and> good S A sm1 \<and> vd_post vd = snapshotMutable sm1"
proof -
  let ?sm0 = "sm\<lparr>obsDeferred := Some []\<rparr>"
  obtain x sm1 where r: "f ?sm0 = (x, sm1)" by fastforce
  have g0: "good S A ?sm0" by (rule good_same [OF g deferred_view])
  have g1: "x \<noteq> Inl GoPanic" "good S A sm1" using np [OF g0] r by (metis fst_conv, metis snd_conv)
  show "rolled_back sm (snd (trialApply f fill nonce sm))"
  proof (cases x)
    case (Inl e)
    have "rolled_back ?sm0 sm1" using err [OF g0] r Inl by simp
    with r Inl g1 show ?thesis
      by (simp add: trialApply_def Let_def rolled_back_def snapshotMutable_def)
  next
    case (Inr a)
    with r g g1 show ?thesis by (simp add: trialApply_def Let_def rolled_back_def good_def)
  qed
  assume vd: "fst (trialApply f fill nonce sm) = Inr vd"
  then obtain a where x: "x = Inr a" and post: "vd_post vd = snapshotMutable sm1"
    using r fill by (cases x) (auto simp: trialApply_def Let_def)
  have "accepted (LatestNonce (state ?sm0) + 1) ?sm0 sm1" by (rule acc [OF r [unfolded x]])
  then have "advanced init (Suc n) sm1"
    using advanced.diff advanced.frame [OF adv deferred_unmoved order_refl] by blast
  with g1 post show "\<exists>sm1. advanced init (Suc n) sm1 \<and> good S A sm1 \<and> vd_post vd = snapshotMutable sm1"
    by blast
qed

lemma ValidateDiff_advanced:
  assumes "advanced init n sm" and "good S A sm"
  shows "rolled_back sm (snd (ValidateDiff env d sm))"
    and "fst (ValidateDiff env d sm) = Inr vd \<Longrightarrow>
           \<exists>sm1. advanced init (Suc n) sm1 \<and> good S A sm1 \<and> vd_post vd = snapshotMutable sm1"
proof -
  note trial = trialApply_advanced [OF assms, where f = "applyCore env (d_Nonce d) (d_Txs d) (d_PostStateRoot d)"
      and fill = "\<lambda>root vd. vd\<lparr>vd_Root := root\<rparr>" and nonce = "d_Nonce d",
      OF applyCore_accepted applyCore_rolled_back applyCore_good, simplified]
  show "rolled_back sm (snd (ValidateDiff env d sm))"
    using trial(1) by (auto simp: ValidateDiff_def split: sum.splits)
  show "fst (ValidateDiff env d sm) = Inr vd \<Longrightarrow>
           \<exists>sm1. advanced init (Suc n) sm1 \<and> good S A sm1 \<and> vd_post vd = snapshotMutable sm1"
    using trial(2) by (auto simp: ValidateDiff_def split: sum.splits)
qed

lemma Preview_advanced:
  assumes "advanced init n sm" and "good S A sm"
  shows "rolled_back sm (snd (PreviewLocalBestEffort env nonce txs sm))"
    and "fst (PreviewLocalBestEffort env nonce txs sm) = Inr vd \<Longrightarrow>
           \<exists>sm1. advanced init (Suc n) sm1 \<and> good S A sm1 \<and> vd_post vd = snapshotMutable sm1"
proof -
  have fill: "vd_post ((case a of (root, applied) \<Rightarrow>
      \<lambda>vd. vd\<lparr>vd_Root := root, vd_Applied := applied\<rparr>) vd) = vd_post vd"
    for a :: "bytes \<times> DevshardTx list" and vd :: ValidatedDiff
    by (cases a) simp
  note trial = trialApply_advanced [OF assms, where f = "localBestEffortLocked env nonce txs"
      and fill = "\<lambda>(root, applied) vd. vd\<lparr>vd_Root := root, vd_Applied := applied\<rparr>" and nonce = nonce,
      OF localBestEffort_accepted localBestEffort_rolled_back localBestEffort_good fill]
  show "rolled_back sm (snd (PreviewLocalBestEffort env nonce txs sm))"
    unfolding PreviewLocalBestEffort_def by (rule trial(1))
  show "fst (PreviewLocalBestEffort env nonce txs sm) = Inr vd \<Longrightarrow>
           \<exists>sm1. advanced init (Suc n) sm1 \<and> good S A sm1 \<and> vd_post vd = snapshotMutable sm1"
    unfolding PreviewLocalBestEffort_def by (rule trial(2))
qed

lemma flushWrite_state: "state (flushWrite env sm w) = state sm"
  by (auto simp: flushWrite_def storeCall_def split: prod.splits sum.splits if_splits)

lemma flush_state: "state (flushDeferredObsLocked env ws sm) = state sm"
  unfolding flushDeferredObsLocked_def
  by (induction ws arbitrary: sm) (simp_all add: flushWrite_state)

lemma Commit_advanced:
  assumes adv: "advanced init m sm" and g: "good S A sm"
    and sm1: "advanced init n sm1" "good S A sm1" "vd_post vd = snapshotMutable sm1"
    and le: "n \<le> k" "m \<le> k"
  shows "advanced init k (snd (CommitValidated env vd sm))"
proof (cases "vd_nonce vd = LatestNonce (state sm) + 1")
  case True
  let ?sm2 = "restoreMutable (snapshotMutable sm1) sm"
  have "rolled_back sm1 ?sm2"
    using g sm1(2) by (simp add: rolled_back_def good_def)
  then have "unmoved sm1 ?sm2" by (rule rolled_back_unmoved)
  moreover have "unmoved ?sm2 (flushDeferredObsLocked env (vd_obs vd) ?sm2)"
    using flush_view flush_state by (simp add: unmoved_def clock_of_def)
  ultimately show ?thesis
    using advanced.frame [OF sm1(1) _ le(1)] unmoved_trans True sm1(3) by (auto simp: CommitValidated_def)
next
  case False
  then show ?thesis
    using advanced.frame [OF adv unmoved_refl le(2)] by (simp add: CommitValidated_def)
qed

lemma foldl_unmoved: "(\<And>sm x. unmoved sm (f sm x)) \<Longrightarrow> unmoved sm (foldl f sm xs)"
proof (induction xs arbitrary: sm)
  case (Cons x xs)
  then show ?case using unmoved_trans [of sm "f sm x"] by simp
qed simp

lemma Inject_unmoved: "unmoved sm (InjectWarmKeys delta sm)"
  unfolding InjectWarmKeys_def
  by (rule foldl_unmoved) (auto simp: unmoved_def same_view_def session_of_def known_ids_def clock_of_def
      split: prod.splits)

lemma reach_advanced: "reach init n sm \<Longrightarrow> good S A init \<Longrightarrow> advanced init n sm"
proof (induction rule: reach.induct)
  case init
  show ?case by (rule advanced.base)
next
  case (apply_diff n sm env d)
  then show ?case using ApplyDiff_advanced reach_good by blast
next
  case (apply_local n sm env nonce txs)
  then have g: "good S A sm" using reach_good by blast
  show ?case
    unfolding ApplyLocal_def
    by (intro advanced_core [OF apply_local.IH [OF apply_local.prems] g]) (auto intro: applyCore_accepted applyCore_rolled_back [OF g])
next
  case (best_effort n sm env nonce txs)
  then have g: "good S A sm" using reach_good by blast
  show ?case
    unfolding ApplyLocalBestEffort_def
    by (intro advanced_core [OF best_effort.IH [OF best_effort.prems] g]) (auto intro: localBestEffort_accepted localBestEffort_rolled_back [OF g])
next
  case (validate n sm env d)
  then have "advanced init n sm" "good S A sm" using reach_good by blast+
  from advanced.frame [OF this(1) rolled_back_unmoved [OF ValidateDiff_advanced(1) [OF this]]]
  show ?case by simp
next
  case (preview n sm env nonce txs)
  then have "advanced init n sm" "good S A sm" using reach_good by blast+
  from advanced.frame [OF this(1) rolled_back_unmoved [OF Preview_advanced(1) [OF this]]]
  show ?case by simp
next
  case (commit n sm0 env0 d vd m sm env)
  then have g: "good S A sm0" "good S A sm" using reach_good by blast+
  obtain sm1 where "advanced init (Suc n) sm1" "good S A sm1" "vd_post vd = snapshotMutable sm1"
    using ValidateDiff_advanced(2) [OF commit.IH(1) [OF commit.prems] g(1) commit.hyps(2)] by blast
  from Commit_advanced [OF commit.IH(2) [OF commit.prems] g(2) this] show ?case by simp
next
  case (commit_preview n sm0 env0 nonce txs vd m sm env)
  then have g: "good S A sm0" "good S A sm" using reach_good by blast+
  obtain sm1 where "advanced init (Suc n) sm1" "good S A sm1" "vd_post vd = snapshotMutable sm1"
    using Preview_advanced(2) [OF commit_preview.IH(1) [OF commit_preview.prems] g(1) commit_preview.hyps(2)]
    by blast
  from Commit_advanced [OF commit_preview.IH(2) [OF commit_preview.prems] g(2) this] show ?case by simp
next
  case (inject n sm delta)
  then show ?case using advanced.frame [OF _ Inject_unmoved] by (metis le_SucI order_refl)
qed

end
