(* ===== verification/DevshardFrame.thy ===== *)
theory DevshardFrame
  imports DevshardDiff
begin

text \<open>
  Transactions and sealing commute with every map of machines that leaves alone what they
  read. The locale states what such a map is; it is used with the map that replays buffered
  observability writes (so that a trial application followed by a commit is the direct
  application) and with the map that overwrites the finalization nonce (so that transactions
  do not touch it).
\<close>

section \<open>Maps that transactions cannot see\<close>

locale unseen =
  fixes \<phi> :: "StateMachine \<Rightarrow> StateMachine" and env :: devshard_env
  assumes reads:
      "Balance (state (\<phi> sm)) = Balance (state sm)" "Fees (state (\<phi> sm)) = Fees (state sm)"
      "Phase (state (\<phi> sm)) = Phase (state sm)" "EscrowID (state (\<phi> sm)) = EscrowID (state sm)"
      "Config (state (\<phi> sm)) = Config (state sm)" "Group (state (\<phi> sm)) = Group (state sm)"
      "Inferences (state (\<phi> sm)) = Inferences (state sm)"
      "HostStatsMap (state (\<phi> sm)) = HostStatsMap (state sm)"
      "WarmKeys (state (\<phi> sm)) = WarmKeys (state sm)" "SealedAcc (state (\<phi> sm)) = SealedAcc (state sm)"
      "committedEntries (\<phi> sm) = committedEntries sm" "sealedNonces (\<phi> sm) = sealedNonces sm"
      "slotToAddress (\<phi> sm) = slotToAddress sm" "addressToSlots (\<phi> sm) = addressToSlots sm"
      "addressToSlotCount (\<phi> sm) = addressToSlotCount sm"
    and writes:
      "(\<phi> sm)\<lparr>state := (state (\<phi> sm))\<lparr>Balance := b\<rparr>\<rparr> = \<phi> (sm\<lparr>state := (state sm)\<lparr>Balance := b\<rparr>\<rparr>)"
      "(\<phi> sm)\<lparr>state := (state (\<phi> sm))\<lparr>Phase := p\<rparr>\<rparr> = \<phi> (sm\<lparr>state := (state sm)\<lparr>Phase := p\<rparr>\<rparr>)"
      "(\<phi> sm)\<lparr>state := (state (\<phi> sm))\<lparr>Inferences := is\<rparr>\<rparr> = \<phi> (sm\<lparr>state := (state sm)\<lparr>Inferences := is\<rparr>\<rparr>)"
      "(\<phi> sm)\<lparr>state := (state (\<phi> sm))\<lparr>HostStatsMap := hs\<rparr>\<rparr> = \<phi> (sm\<lparr>state := (state sm)\<lparr>HostStatsMap := hs\<rparr>\<rparr>)"
      "(\<phi> sm)\<lparr>state := (state (\<phi> sm))\<lparr>WarmKeys := ws\<rparr>\<rparr> = \<phi> (sm\<lparr>state := (state sm)\<lparr>WarmKeys := ws\<rparr>\<rparr>)"
      "(\<phi> sm)\<lparr>state := (state (\<phi> sm))\<lparr>SealedAcc := acc\<rparr>\<rparr> = \<phi> (sm\<lparr>state := (state sm)\<lparr>SealedAcc := acc\<rparr>\<rparr>)"
      "(\<phi> sm)\<lparr>committedEntries := ce\<rparr> = \<phi> (sm\<lparr>committedEntries := ce\<rparr>)"
      "(\<phi> sm)\<lparr>sealedNonces := sn, committedEntries := ce\<rparr> = \<phi> (sm\<lparr>sealedNonces := sn, committedEntries := ce\<rparr>)"
    and stores: "upsertInferenceObsLocked env i n r (\<phi> sm) = apsnd \<phi> (upsertInferenceObsLocked env i n r sm)"
begin

lemma prims:
  "setInference i r (\<phi> sm) = \<phi> (setInference i r sm)"
  "setHostStats sl h (\<phi> sm) = \<phi> (setHostStats sl h sm)"
  "addBalance g (\<phi> sm) = \<phi> (addBalance g sm)"
  "SlotAddress (\<phi> sm) = SlotAddress sm"
  "addressHasValidated (\<phi> sm) = addressHasValidated sm"
  "persistLiveInferenceObsBestEffortLocked env i r (\<phi> sm) = \<phi> (persistLiveInferenceObsBestEffortLocked env i r sm)"
  "updateCommittedEntryLocked env i r (\<phi> sm) = apsnd \<phi> (updateCommittedEntryLocked env i r sm)"
  "dropLive i (\<phi> sm) = \<phi> (dropLive i sm)"
  "noteSealed n i (\<phi> sm) = \<phi> (noteSealed n i sm)"
  "setSealedAcc acc (\<phi> sm) = \<phi> (setSealedAcc acc sm)"
  "foldEntry n i cur (\<phi> sm) = foldEntry n i cur sm"
  by (simp_all add: setInference_def setHostStats_def addBalance_def SlotAddress_def fun_eq_iff reads
      addressHasValidated_def persistLiveInferenceObsBestEffortLocked_def stores writes
      updateCommittedEntryLocked_def dropLive_def noteSealed_def setSealedAcc_def foldEntry_def
      split: sum.splits)

lemma warm: "ResolveWarmKey env slot a b (\<phi> sm) = apsnd \<phi> (ResolveWarmKey env slot a b sm)"
  by (simp add: ResolveWarmKey_def reads writes split: option.splits bool.splits)

lemma sig: "verifyProposerSig env m sg a slot (\<phi> sm) = apsnd \<phi> (verifyProposerSig env m sg a slot sm)"
  by (simp add: verifyProposerSig_def warm apsnd_def map_prod_def split: sum.splits option.splits prod.splits)

lemma votes:
  "countTimeoutVotes env i reason vs seen acc (\<phi> sm) = apsnd \<phi> (countTimeoutVotes env i reason vs seen acc sm)"
proof (induction vs arbitrary: seen acc sm)
  case (Cons v vs)
  then show ?case
    by (auto simp: reads warm Let_def split: option.splits sum.splits prod.splits)
qed simp

lemma not_live:
  "notLive i (\<phi> sm) = apsnd \<phi> (notLive i sm)"
  "notLiveForValidation i (\<phi> sm) = apsnd \<phi> (notLiveForValidation i sm)"
  by (simp_all add: notLive_def notLiveForValidation_def isInferenceEvictedFromLive_def reads split: option.splits)

lemma start: "applyStartInference env m (\<phi> sm) = apsnd \<phi> (applyStartInference env m sm)"
  by (simp add: applyStartInference_def Let_def reads isDuplicateInferenceID_def writes prims split: sum.splits)

lemma confirm: "applyConfirmStart env m (\<phi> sm) = apsnd \<phi> (applyConfirmStart env m sm)"
  by (simp add: applyConfirmStart_def Let_def reads prims not_live warm apsnd_def map_prod_def
      split: sum.splits option.splits prod.splits)

lemma finish: "applyFinishInference env m (\<phi> sm) = apsnd \<phi> (applyFinishInference env m sm)"
proof (cases "kv_get (Inferences (state sm)) (fi_InferenceId m)")
  case (Some r)
  obtain x sm1 where v: "verifyProposerSig env (PFinish (m\<lparr>fi_ProposerSig := []\<rparr>)) (fi_ProposerSig m)
      (SlotAddress sm (ExecutorSlot r)) (ExecutorSlot r) sm = (x, sm1)"
    by fastforce
  show ?thesis
    by (cases x) (simp_all add: applyFinishInference_def Some Let_def reads prims sig v
        split: sum.split option.split)
qed (simp add: applyFinishInference_def reads not_live)

lemma validation: "applyValidation env m (\<phi> sm) = apsnd \<phi> (applyValidation env m sm)"
proof (cases "kv_get (Inferences (state sm)) (va_InferenceId m)")
  case (Some r)
  obtain x sm1 where v: "verifyProposerSig env (PValidation (m\<lparr>va_ProposerSig := []\<rparr>)) (va_ProposerSig m)
      (SlotAddress sm (va_ValidatorSlot m)) (va_ValidatorSlot m) sm = (x, sm1)"
    by fastforce
  show ?thesis
    by (cases x) (simp_all add: applyValidation_def Some Let_def reads prims sig v)
qed (simp add: applyValidation_def reads not_live)

lemma vote: "applyValidationVote env m (\<phi> sm) = apsnd \<phi> (applyValidationVote env m sm)"
proof (cases "kv_get (Inferences (state sm)) (vv_InferenceId m)")
  case (Some r)
  obtain x sm1 where v: "verifyProposerSig env (PValidationVote (m\<lparr>vv_ProposerSig := []\<rparr>)) (vv_ProposerSig m)
      (SlotAddress sm (vv_VoterSlot m)) (vv_VoterSlot m) sm = (x, sm1)"
    by fastforce
  show ?thesis
    by (cases x) (simp_all add: applyValidationVote_def Some Let_def reads prims sig v split: option.split)
qed (simp add: applyValidationVote_def reads not_live)

lemma timeout: "applyTimeout env m (\<phi> sm) = apsnd \<phi> (applyTimeout env m sm)"
proof (cases "kv_get (Inferences (state sm)) (ti_InferenceId m)")
  case (Some r)
  obtain x sm1 where v: "countTimeoutVotes env (ti_InferenceId m) (ti_Reason m) (ti_Votes m) [] 0 sm = (x, sm1)"
    by fastforce
  show ?thesis
    by (cases x) (simp_all add: applyTimeout_def Some Let_def reads prims votes v split: option.split)
qed (simp add: applyTimeout_def reads not_live)

lemma tx: "applyTx env tx (\<phi> sm) = apsnd \<phi> (applyTx env tx sm)"
  by (cases tx) (simp_all add: start confirm finish validation vote timeout applyRevealSeed_def
      applyFinalizeRound_def reads writes)

lemma txs: "applyTxs env txs (\<phi> sm) = apsnd \<phi> (applyTxs env txs sm)"
proof (induction txs arbitrary: sm)
  case (Cons tx txs)
  show ?case
    by (cases "applyTx env tx sm"; cases "fst (applyTx env tx sm)") (auto simp: tx Cons.IH)
qed simp

lemma settle: "settleLiveRecordLocked i r (\<phi> sm) = apsnd \<phi> (settleLiveRecordLocked i r sm)"
  by (simp add: settleLiveRecordLocked_def Let_def prims reads split: InferenceStatus.split option.split)

lemma drain_one: "drainOne env n i cur (\<phi> sm) = apsnd \<phi> (drainOne env n i cur sm)"
proof (cases "kv_get (Inferences (state sm)) i")
  case (Some r)
  obtain x sm1 where s: "settleLiveRecordLocked i r sm = (x, sm1)" by fastforce
  show ?thesis
  proof (cases x)
    case (Inr r1)
    obtain y sm2 where u: "updateCommittedEntryLocked env i r1 sm1 = (y, sm2)" by fastforce
    obtain z sm3 where o: "upsertInferenceObsLocked env i n r1 (noteSealed n i sm2) = (z, sm3)" by fastforce
    show ?thesis
      using Some s Inr u o
      by (cases y; cases z) (simp_all add: drainOne_def reads settle prims stores)
  qed (use Some s in \<open>simp add: drainOne_def reads settle\<close>)
qed (simp add: drainOne_def reads)

lemma drain_loop: "drainLoop env n is cur (\<phi> sm) = apsnd \<phi> (drainLoop env n is cur sm)"
proof (induction "is" arbitrary: cur sm)
  case (Cons i "is")
  show ?case
    by (cases "drainOne env n i cur sm"; cases "fst (drainOne env n i cur sm)") (auto simp: drain_one Cons.IH)
qed simp

lemma drain: "drainLiveIntoSealedAccLocked env n (\<phi> sm) = apsnd \<phi> (drainLiveIntoSealedAccLocked env n sm)"
  by (cases "drainLoop env n (map fst (Inferences (state sm))) (sealedAccBytes32 (SealedAcc (state sm))) sm";
      cases "fst (drainLoop env n (map fst (Inferences (state sm))) (sealedAccBytes32 (SealedAcc (state sm))) sm)")
    (auto simp: drainLiveIntoSealedAccLocked_def reads drain_loop prims)

lemma seal_one: "autoSealOne env n i cur (\<phi> sm) = apsnd \<phi> (autoSealOne env n i cur sm)"
proof (cases "kv_get (Inferences (state sm)) i")
  case (Some r)
  obtain y sm2 where u: "updateCommittedEntryLocked env i r sm = (y, sm2)" by fastforce
  show ?thesis
    using Some u by (cases y) (simp_all add: autoSealOne_def reads prims stores)
qed (simp add: autoSealOne_def reads)

lemma seal_loop: "autoSealLoop env n is cur (\<phi> sm) = apsnd \<phi> (autoSealLoop env n is cur sm)"
proof (induction "is" arbitrary: cur sm)
  case (Cons i "is")
  show ?case
    by (cases "autoSealOne env n i cur sm"; cases "fst (autoSealOne env n i cur sm)") (auto simp: seal_one Cons.IH)
qed simp

lemma auto_seal: "autoSealLocked env n (\<phi> sm) = apsnd \<phi> (autoSealLocked env n sm)"
proof -
  have "stateClockLocked (\<phi> sm) = stateClockLocked sm"
    by (simp add: stateClockLocked_def Let_def reads)
  moreover obtain x sm1 where "autoSealLoop env n (map fst (filter (\<lambda>(i, r). autoSealEligible (Config (state sm))
      (Clock (stateClockLocked sm)) n i r) (Inferences (state sm)))) (sealedAccBytes32 (SealedAcc (state sm))) sm = (x, sm1)"
    by fastforce
  ultimately show ?thesis
    by (cases x) (simp_all add: autoSealLocked_def Let_def reads seal_loop prims)
qed

end

text \<open>Maps that the whole application of a diff cannot see.\<close>

locale unseen_diff = unseen +
  assumes reads_diff:
      "LatestNonce (state (\<phi> sm)) = LatestNonce (state sm)" "FinalizeNonce (state (\<phi> sm)) = FinalizeNonce (state sm)"
      "StateRootAndProtocolVersion (state (\<phi> sm)) = StateRootAndProtocolVersion (state sm)"
      "userAddress (\<phi> sm) = userAddress sm"
    and writes_diff:
      "(\<phi> sm)\<lparr>state := (state (\<phi> sm))\<lparr>Balance := b, Fees := f\<rparr>\<rparr> = \<phi> (sm\<lparr>state := (state sm)\<lparr>Balance := b, Fees := f\<rparr>\<rparr>)"
      "(\<phi> sm)\<lparr>state := (state (\<phi> sm))\<lparr>LatestNonce := n\<rparr>\<rparr> = \<phi> (sm\<lparr>state := (state sm)\<lparr>LatestNonce := n\<rparr>\<rparr>)"
      "(\<phi> sm)\<lparr>state := (state (\<phi> sm))\<lparr>FinalizeNonce := n\<rparr>\<rparr> = \<phi> (sm\<lparr>state := (state sm)\<lparr>FinalizeNonce := n\<rparr>\<rparr>)"
      "restoreMutable snap (\<phi> sm) = \<phi> (restoreMutable snap sm)"
begin

lemma snapshot: "snapshotMutable (\<phi> sm) = snapshotMutable sm"
  by (simp add: snapshotMutable_def reads reads_diff)

lemma fee: "chargeNonceFee (\<phi> sm) = apsnd \<phi> (chargeNonceFee sm)"
  by (simp add: chargeNonceFee_def reads writes_diff)

lemma advance: "advanceNonce n (\<phi> sm) = \<phi> (advanceNonce n sm)"
  by (simp add: advanceNonce_def Let_def reads reads_diff writes_diff)

lemma deadline: "settleAtDeadline env (\<phi> sm) = apsnd \<phi> (settleAtDeadline env sm)"
  by (simp add: settleAtDeadline_def reads reads_diff writes drain)

lemma seal_step: "autoSealStep env n (\<phi> sm) = apsnd \<phi> (autoSealStep env n sm)"
  by (cases "autoSealLocked env n sm"; cases "fst (autoSealLocked env n sm)")
    (auto simp: autoSealStep_def reads auto_seal)

lemma root: "computeStateRootLocked env (\<phi> sm) = computeStateRootLocked env sm"
  by (simp add: computeStateRootLocked_def reads reads_diff)

lemma finish_nonce: "finishNonce env n (\<phi> sm) = apsnd \<phi> (finishNonce env n sm)"
proof (cases "chargeNonceFee sm")
  case (Pair x sm1)
  obtain y sm2 where d: "settleAtDeadline env (advanceNonce n sm1) = (y, sm2)" by fastforce
  obtain z sm3 where a: "autoSealStep env n sm2 = (z, sm3)" by fastforce
  show ?thesis
    using Pair d a
    by (cases x; cases y; cases z) (simp_all add: finishNonce_def fee advance deadline seal_step root)
qed

lemma core: "applyCore env nonce ts post (\<phi> sm) = apsnd \<phi> (applyCore env nonce ts post sm)"
proof -
  obtain x sm1 where t: "applyTxs env ts sm = (x, sm1)" by fastforce
  obtain y sm2 where f: "finishNonce env nonce sm1 = (y, sm2)" by fastforce
  show ?thesis
  proof (cases "nonce = LatestNonce (state sm) + 1")
    case True
    show ?thesis
      using t f unfolding True
      by (cases x; cases y)
        (simp_all add: applyCore_def Let_def reads_diff snapshot txs finish_nonce orRollback_def writes_diff
          split: sum.split)
  qed (simp add: applyCore_def reads_diff)
qed

end

section \<open>The finalization nonce\<close>

definition setFinalizeNonce :: "u64 \<Rightarrow> StateMachine \<Rightarrow> StateMachine" where
  "setFinalizeNonce c sm = sm\<lparr>state := (state sm)\<lparr>FinalizeNonce := c\<rparr>\<rparr>"

interpretation fin: unseen "setFinalizeNonce c" env for c env
  by unfold_locales (simp_all add: setFinalizeNonce_def upsertInferenceObsLocked_def storeCall_def Let_def
      split: option.split)

lemma setFinalizeNonce_self: "setFinalizeNonce (FinalizeNonce (state sm)) sm = sm"
  by (simp add: setFinalizeNonce_def)

text \<open>Transactions leave the finalization nonce alone.\<close>

lemma tx_FinalizeNonce: "FinalizeNonce (state (snd (applyTx env tx sm))) = FinalizeNonce (state sm)"
proof -
  have "applyTx env tx sm = apsnd (setFinalizeNonce (FinalizeNonce (state sm))) (applyTx env tx sm)"
    using fin.tx [of env tx "FinalizeNonce (state sm)" sm] by (simp add: setFinalizeNonce_self)
  then have "snd (applyTx env tx sm) = setFinalizeNonce (FinalizeNonce (state sm)) (snd (applyTx env tx sm))"
    by (metis snd_apsnd)
  then have "FinalizeNonce (state (snd (applyTx env tx sm)))
      = FinalizeNonce (state (setFinalizeNonce (FinalizeNonce (state sm)) (snd (applyTx env tx sm))))"
    by simp
  then show ?thesis by (simp add: setFinalizeNonce_def)
qed

section \<open>Buffered writes\<close>

text \<open>The machine on which the buffered writes have been replayed.\<close>

definition replayed :: "devshard_env \<Rightarrow> StateMachine \<Rightarrow> StateMachine" where
  "replayed env sm = (case obsDeferred sm of None \<Rightarrow> sm
     | Some ws \<Rightarrow> flushDeferredObsLocked env ws (sm\<lparr>obsDeferred := None\<rparr>))"

text \<open>An environment whose storage accepts every write.\<close>

definition reliable :: "devshard_env \<Rightarrow> devshard_env" where
  "reliable env = env\<lparr>storeFails := \<lambda>_ _. False\<rparr>"

lemma reliable_storeFails [simp]: "storeFails (reliable env) l sop = False"
  by (simp add: reliable_def)

fun write_ops :: "string \<Rightarrow> deferredObsWrite list \<Rightarrow> StoreOp list" where
  "write_ops escrow [] = []"
| "write_ops escrow (w # ws) = InsertSealedInference escrow (dw_row w)
    # (if dw_drain w then [DrainInferenceValidationObs escrow (dw_id w)] else []) @ write_ops escrow ws"

lemma write_ops_append: "write_ops escrow (vs @ ws) = write_ops escrow vs @ write_ops escrow ws"
  by (induction vs) simp_all

lemma flush_eq:
  "flushDeferredObsLocked (reliable env) ws sm
     = sm\<lparr>storeLog := storeLog sm @ write_ops (EscrowID (state sm)) ws\<rparr>"
  unfolding flushDeferredObsLocked_def
  by (induction ws arbitrary: sm) (simp_all add: flushWrite_def storeCall_def)

lemma replayed_eq:
  "replayed (reliable env) sm = (case obsDeferred sm of None \<Rightarrow> sm
     | Some ws \<Rightarrow> sm\<lparr>obsDeferred := None, storeLog := storeLog sm @ write_ops (EscrowID (state sm)) ws\<rparr>)"
  by (simp add: replayed_def flush_eq split: option.split)

interpretation rep: unseen_diff "replayed (reliable env)" "reliable env" for env
  by unfold_locales
    (simp_all add: replayed_eq upsertInferenceObsLocked_def storeCall_def Let_def write_ops_append
      restoreMutable_def split: option.split)

text \<open>
  Validating a diff and committing the handle does what applying the diff does, with storage
  that accepts every write.
\<close>

lemma restore_snapshot: "restoreMutable (snapshotMutable sm) (restoreMutable snap sm) = sm"
  by (simp add: restoreMutable_def snapshotMutable_def)

lemma trial_commit:
  assumes core: "applyCore (reliable env) nonce txs post (sm\<lparr>obsDeferred := Some []\<rparr>) = (Inr root, sm1)"
    and "obsDeferred sm = None"
  shows "applyCore (reliable env) nonce txs post sm = (Inr root, replayed (reliable env) sm1)"
    and "nonce = LatestNonce (state sm) + 1"
proof -
  have "replayed (reliable env) (sm\<lparr>obsDeferred := Some []\<rparr>) = sm"
    using assms(2) by (simp add: replayed_eq)
  then show "applyCore (reliable env) nonce txs post sm = (Inr root, replayed (reliable env) sm1)"
    using rep.core [of env nonce txs post "sm\<lparr>obsDeferred := Some []\<rparr>"] core by simp
  show "nonce = LatestNonce (state sm) + 1"
    using core by (auto simp: applyCore_def split: if_splits)
qed

lemma validate_commit:
  assumes r: "ValidateDiff (reliable env) d sm = (Inr vd, sm')" and o: "obsDeferred sm = None"
  shows "fst (CommitValidated (reliable env) vd sm')"
    and "ApplyDiff (reliable env) d sm = (Inr (vd_Root vd), snd (CommitValidated (reliable env) vd sm'))"
proof -
  let ?e = "reliable env"
  obtain root sm1 where sig: "verifyDiffUserSig ?e d sm = Inr ()"
    and core: "applyCore ?e (d_Nonce d) (d_Txs d) (d_PostStateRoot d) (sm\<lparr>obsDeferred := Some []\<rparr>) = (Inr root, sm1)"
    and vd: "vd = \<lparr>vd_Root = root, vd_WarmAfter = WarmKeys (state sm1), vd_Applied = [], vd_nonce = d_Nonce d,
      vd_post = snapshotMutable sm1, vd_obs = (case obsDeferred sm1 of None \<Rightarrow> [] | Some ws \<Rightarrow> ws)\<rparr>"
    and sm': "sm' = restoreMutable (snapshotMutable sm) (sm1\<lparr>obsDeferred := None\<rparr>)"
    using r by (auto simp: ValidateDiff_def trialApply_def Let_def split: sum.splits prod.splits)
  note tc = trial_commit [OF core o]
  have "LatestNonce (state sm') = LatestNonce (state sm)"
    by (simp add: sm' restoreMutable_def snapshotMutable_def)
  then show ok: "fst (CommitValidated ?e vd sm')"
    using tc(2) by (simp add: CommitValidated_def vd)
  have "restoreMutable (vd_post vd) sm' = sm1\<lparr>obsDeferred := None\<rparr>"
    using restore_snapshot [of "sm1\<lparr>obsDeferred := None\<rparr>" "snapshotMutable sm"]
    by (simp add: vd sm' snapshotMutable_def)
  then have "snd (CommitValidated ?e vd sm') = flushDeferredObsLocked ?e (vd_obs vd) (sm1\<lparr>obsDeferred := None\<rparr>)"
    using ok by (simp add: CommitValidated_def split: if_splits)
  then have "snd (CommitValidated ?e vd sm') = replayed ?e sm1"
    by (simp add: replayed_eq flush_eq vd split: option.split)
  then show "ApplyDiff ?e d sm = (Inr (vd_Root vd), snd (CommitValidated ?e vd sm'))"
    using tc(1) sig by (simp add: ApplyDiff_def vd)
qed

end
