(* ===== verification/DevshardGuarantees.thy ===== *)
theory DevshardGuarantees
  imports DevshardRuns DevshardFrame
begin

text \<open>
  What a devshard session guarantees from its construction on: a new machine over a validated
  group satisfies the session contract, so the contract holds of every machine that the
  operations reach. The theory draws the consequences: conservation of the escrow, the state
  of a settled session, the bounds on faults and votes, atomicity, and the agreement between
  the user who composes a diff and the hosts that apply it.
\<close>

section \<open>New machines\<close>

lemma ValidateGroup_slots:
  assumes "ValidateGroup grp = Inr ()"
  shows "map SlotID grp = map of_nat [0..<length grp]" and "grp \<noteq> []" and "length grp \<le> 128"
  using assms
  by (auto simp: ValidateGroup_def MaxGroupSize_def slots_in_order_nth intro!: nth_equalityI split: if_splits)

lemma of_nat_u32_less: "i < j \<Longrightarrow> j < 2 ^ 32 \<Longrightarrow> (of_nat i :: u32) < of_nat j"
  by (simp add: word_less_nat_alt unat_of_nat)

lemma slots_sorted:
  assumes "ValidateGroup grp = Inr ()"
  shows "sorted_wrt (<) (map SlotID grp)"
  unfolding ValidateGroup_slots(1) [OF assms] using ValidateGroup_slots(3) [OF assms]
  by (auto simp: sorted_wrt_map sorted_wrt_iff_nth_less intro: of_nat_u32_less)

lemma count_fold:
  fixes f :: "string \<Rightarrow> 'a::semiring_1"
  shows "foldl (\<lambda>f s. f(ValidatorAddress s := f (ValidatorAddress s) + 1)) f grp a
     = f a + of_nat (length (filter (\<lambda>s. ValidatorAddress s = a) grp))"
  by (induction grp arbitrary: f) (auto simp: algebra_simps)

definition group_map :: "SlotAssignment list \<Rightarrow> (u32, string) kv" where
  "group_map grp = map (\<lambda>s. (SlotID s, ValidatorAddress s)) grp"

lemma group_map_get:
  assumes "ValidateGroup grp = Inr ()" and "s \<in> set grp"
  shows "kv_get (group_map grp) (SlotID s) = Some (ValidatorAddress s)"
proof -
  have "distinct (map fst (group_map grp))"
    using slots_sorted [OF assms(1)] strict_sorted_iff [of "map SlotID grp"] by (simp add: group_map_def comp_def)
  moreover have "(SlotID s, ValidatorAddress s) \<in> set (group_map grp)"
    using assms(2) by (auto simp: group_map_def)
  ultimately show ?thesis by simp
qed

lemma NewStateMachine_eq:
  assumes vg: "ValidateGroup grp = Inr ()"
    and new: "NewStateMachine st ver opts escrow cfg grp balance user = Inr sm"
  defines "c \<equiv> NormalizeSessionConfig cfg (length grp)"
  shows "CreateDevshardFee c \<le> balance"
    and "state sm = \<lparr>EscrowID = escrow, StateRootAndProtocolVersion = foldl (\<lambda>_ v. v) ver opts,
           Config = c, Group = grp, Balance = balance - CreateDevshardFee c, Fees = CreateDevshardFee c,
           Phase = PhaseActive, FinalizeNonce = 0, Inferences = [],
           HostStatsMap = map (\<lambda>s. (SlotID s, HostStats_zero)) grp,
           WarmKeys = [], LatestNonce = 0, SealedAcc = []\<rparr>"
    and "slotToAddress sm = group_map grp"
    and "addressToSlotCount sm a = of_nat (length (filter (\<lambda>s. ValidatorAddress s = a) grp))"
    and "addressToSlots sm a = map SlotID (filter (\<lambda>s. ValidatorAddress s = a) grp)"
    and "committedEntries sm = []" and "sealedNonces sm = []" and "obsDeferred sm = None"
    and "totalSlots sm = of_nat (length grp)" and "userAddress sm = user" and "storeLog sm = []"
proof -
  have fold: "foldl (\<lambda>m s. kv_set (SlotID s) (g s) m) [] grp = map (\<lambda>s. (SlotID s, g s)) grp"
    for g :: "SlotAssignment \<Rightarrow> 'v"
    using foldl_kv_set_ordered [of "[]" SlotID grp g] slots_sorted [OF vg] by simp
  note [simp] = fold [of ValidatorAddress] fold [of "\<lambda>_. HostStats_zero"]
  show "CreateDevshardFee c \<le> balance"
    and "state sm = \<lparr>EscrowID = escrow, StateRootAndProtocolVersion = foldl (\<lambda>_ v. v) ver opts,
           Config = c, Group = grp, Balance = balance - CreateDevshardFee c, Fees = CreateDevshardFee c,
           Phase = PhaseActive, FinalizeNonce = 0, Inferences = [],
           HostStatsMap = map (\<lambda>s. (SlotID s, HostStats_zero)) grp,
           WarmKeys = [], LatestNonce = 0, SealedAcc = []\<rparr>"
    and "slotToAddress sm = group_map grp"
    and "addressToSlotCount sm a = of_nat (length (filter (\<lambda>s. ValidatorAddress s = a) grp))"
    and "addressToSlots sm a = map SlotID (filter (\<lambda>s. ValidatorAddress s = a) grp)"
    and "committedEntries sm = []" and "sealedNonces sm = []" and "obsDeferred sm = None"
    and "totalSlots sm = of_nat (length grp)" and "userAddress sm = user" and "storeLog sm = []"
    using new by (auto simp: NewStateMachine_def Let_def c_def group_map_def not_less count_fold
        filter_map comp_def split: if_splits)
qed

lemma new_machine_good:
  assumes vg: "ValidateGroup grp = Inr ()"
    and new: "NewStateMachine st ver opts escrow cfg grp balance user = Inr sm"
  shows "good (static sm) (unat balance) sm"
proof -
  note n = NewStateMachine_eq [OF vg new]
  note g = ValidateGroup_slots [OF vg]
  have owner: "SlotAddress sm (SlotID s) = ValidatorAddress s" if "s \<in> set grp" for s
    using group_map_get [OF vg that] by (simp add: SlotAddress_def n(3))
  have slots: "t_slots (terms_of sm) = map SlotID grp"
    by (simp add: n(2))
  have sl: "addressToSlots sm a = filter (\<lambda>x. SlotAddress sm x = a) (map SlotID grp)" for a
    unfolding n(5) filter_map comp_def using owner by (metis (mono_tags, lifting) filter_cong)
  have wl: "unat (addressToSlotCount sm a) = length (addressToSlots sm a)" for a
  proof -
    have "length (filter (\<lambda>s. ValidatorAddress s = a) grp) \<le> 128"
      by (rule order_trans [OF length_filter_le g(3)])
    then show ?thesis by (simp add: n(4,5) unat_of_nat)
  qed
  have T: "terms_ok (terms_of sm)"
    unfolding terms_ok_def slots using g(2,3)
    by (intro conjI allI) (simp_all add: MaxGroupSize_def g(1) [symmetric] wl sl)
  have hosts: "HostStatsMap (state sm) = map (\<lambda>s. (SlotID s, HostStats_zero)) grp"
    by (simp add: n(2))
  have zero: "h = HostStats_zero" if "kv_get (HostStatsMap (state sm)) sl = Some h" for sl h
    using map_of_SomeD [OF that] by (auto simp: hosts)
  have known: "known_ids sm = {}"
    by (simp add: known_ids_def n)
  have "kv_inv (HostStatsMap (state sm))"
    using slots_sorted [OF vg] by (simp add: hosts kv_inv_def comp_def)
  then have maps: "maps_ok (terms_of sm) (session_of sm)"
    by (auto simp: maps_ok_def n(2) known dom_map_of_conv_image_fst image_image)
  have "costs (HostStatsMap (state sm)) = 0"
    by (simp add: costs_def kv_sum_def hosts comp_def HostStats_zero_def)
  then have w: "wealth (session_of sm) = unat balance"
    using n(1) u64_leD [OF n(1)] by (simp add: wealth_def n(2) unat_u64_sub [OF n(1)])
  have "books_ok (terms_of sm) (session_of sm)"
    by (auto simp: books_ok_def n(2) known faults_def dest!: zero [unfolded hosts])
      (simp_all add: HostStats_zero_def)
  with T maps w have "session_ok (terms_of sm) (session_of sm)"
    using unat_u64_bound [of balance] by (simp add: session_ok_def)
  then show ?thesis
    using w by (auto simp: good_def machine_ok_def settled_empty_def n(2,3) group_map_def
        dom_map_of_conv_image_fst image_image)
qed

section \<open>Numbering\<close>

lemma finishNonce_clock:
  assumes "finishNonce env nonce sm = (Inr root, sm')"
  shows "LatestNonce (state sm') = nonce"
    and "Phase (state sm) = PhaseActive \<Longrightarrow> FinalizeNonce (state sm') = FinalizeNonce (state sm) \<and> Phase (state sm') = PhaseActive"
    and "Phase (state sm) = PhaseSettlement \<Longrightarrow> FinalizeNonce (state sm') = FinalizeNonce (state sm) \<and> Phase (state sm') = PhaseSettlement"
    and "Phase (state sm) = PhaseFinalizing \<Longrightarrow>
      FinalizeNonce (state sm') = (if FinalizeNonce (state sm) = 0 then nonce else FinalizeNonce (state sm))
      \<and> Phase (state sm') = (if FinalizeNonce (state sm') + of_nat (length (Group (state sm))) \<le> nonce
           then PhaseSettlement else PhaseFinalizing)"
proof -
  obtain sm1 sm2 where fee: "chargeNonceFee sm = (Inr (), sm1)"
    and dl: "settleAtDeadline env (advanceNonce nonce sm1) = (Inr (), sm2)"
    and auto: "autoSealStep env nonce sm2 = (Inr (), sm')"
    using assms by (auto simp: finishNonce_def bindS_eq)
  have f: "Phase (state sm1) = Phase (state sm)" "FinalizeNonce (state sm1) = FinalizeNonce (state sm)"
    "Group (state sm1) = Group (state sm)"
    using fee by (auto simp: chargeNonceFee_def split: if_splits)
  have a: "clock_of (advanceNonce nonce sm1) = (Phase (state sm),
      (if Phase (state sm) = PhaseFinalizing \<and> FinalizeNonce (state sm) = 0 then nonce
       else FinalizeNonce (state sm)), nonce)"
    "Group (state (advanceNonce nonce sm1)) = Group (state sm)"
    using f by (simp_all add: clock_of_def advanceNonce_def Let_def)
  have d: "clock_of sm2 = (if Phase (state (advanceNonce nonce sm1)) = PhaseFinalizing
        \<and> FinalizeNonce (state (advanceNonce nonce sm1)) + of_nat (length (Group (state sm))) \<le> nonce
      then (PhaseSettlement, FinalizeNonce (state (advanceNonce nonce sm1)), nonce)
      else clock_of (advanceNonce nonce sm1))"
    using dl a by (auto simp: settleAtDeadline_def clock_of_def split: if_splits dest!: drain_clock)
  have e: "clock_of sm' = clock_of sm2"
    by (rule autoSealStep_clock [OF auto])
  show "LatestNonce (state sm') = nonce"
    and "Phase (state sm) = PhaseActive \<Longrightarrow> FinalizeNonce (state sm') = FinalizeNonce (state sm) \<and> Phase (state sm') = PhaseActive"
    and "Phase (state sm) = PhaseSettlement \<Longrightarrow> FinalizeNonce (state sm') = FinalizeNonce (state sm) \<and> Phase (state sm') = PhaseSettlement"
    and "Phase (state sm) = PhaseFinalizing \<Longrightarrow>
      FinalizeNonce (state sm') = (if FinalizeNonce (state sm) = 0 then nonce else FinalizeNonce (state sm))
      \<and> Phase (state sm') = (if FinalizeNonce (state sm') + of_nat (length (Group (state sm))) \<le> nonce
           then PhaseSettlement else PhaseFinalizing)"
    using a d e by (auto simp: clock_of_def split: if_splits)
qed

text \<open>Ids in use are nonces used, as long as the nonces have not wrapped around.\<close>

definition numbered :: "nat \<Rightarrow> StateMachine \<Rightarrow> bool" where
  "numbered n sm \<longleftrightarrow> unat (LatestNonce (state sm)) \<le> n
     \<and> (\<forall>i \<in> known_ids sm. 0 < unat i \<and> unat i \<le> unat (LatestNonce (state sm)))"

lemma txs_FinalizeNonce:
  "applyTxs env txs sm = (x, sm') \<Longrightarrow> FinalizeNonce (state sm') = FinalizeNonce (state sm)"
proof (induction txs arbitrary: sm)
  case (Cons tx txs)
  then show ?case
    using tx_FinalizeNonce [of env tx sm] by (auto simp: bindS_eq)
qed simp

lemma effort_FinalizeNonce:
  "applyBestEffort env txs sm = (x, sm') \<Longrightarrow> FinalizeNonce (state sm') = FinalizeNonce (state sm)"
proof (induction txs arbitrary: sm x)
  case (Cons tx txs)
  obtain y sm1 where t: "applyTx env tx sm = (y, sm1)" by fastforce
  then have f: "FinalizeNonce (state sm1) = FinalizeNonce (state sm)"
    using tx_FinalizeNonce [of env tx sm] by simp
  show ?case
    using Cons.prems Cons.IH [of sm1] t f by (cases y) (auto simp: bindS_eq split: if_splits)
qed simp

lemma accepted_parts:
  assumes "accepted nonce sm sm'" and ok: "machine_ok sm" and n: "nonce = LatestNonce (state sm) + 1"
  obtains env sm1 root where "tx_run sm (Inr (), sm1)" and "finishNonce env nonce sm1 = (Inr root, sm')"
    and "FinalizeNonce (state sm1) = FinalizeNonce (state sm)"
  using assms(1)
proof cases
  case (strict env txs sm1 root)
  then have "tx_run sm (Inr (), sm1)"
    using applyTxs_run [OF ok, of txs env] n by simp
  then show ?thesis by (rule that [OF _ strict(3) txs_FinalizeNonce [OF strict(1)]])
next
  case (effort env txs applied sm1 root)
  then have "tx_run sm (Inr applied, sm1)"
    using applyBestEffort_run [OF ok, of txs env] n by simp
  then have "tx_run sm (Inr (), sm1)" by (rule tx_run_Inr)
  then show ?thesis by (rule that [OF _ effort(3) effort_FinalizeNonce [OF effort(1)]])
qed

lemma accepted_numbered:
  assumes ok: "machine_ok sm" and acc: "accepted (LatestNonce (state sm) + 1) sm sm'"
    and n: "numbered n sm" "Suc n < 2 ^ 64"
  shows "numbered (Suc n) sm'"
proof -
  obtain env sm1 root where run: "tx_run sm (Inr (), sm1)"
    and fin: "finishNonce env (LatestNonce (state sm) + 1) sm1 = (Inr root, sm')"
    using accepted_parts [OF acc ok] by blast
  have sim: "sim sm1 (Inr root, sm')"
    using finishNonce_sim [OF tx_run_ok(1) [OF run ok], of _ env] tx_run_frame(1) [OF run] fin by metis
  have "known_ids sm' \<subseteq> insert (LatestNonce (state sm) + 1) (known_ids sm)"
    using tx_run_frame(3) [OF run] sim end_steps_known by (fastforce simp: sim_def)
  moreover have "unat (LatestNonce (state sm) + 1) = Suc (unat (LatestNonce (state sm)))"
    using n by (simp add: numbered_def unat_u64_add)
  ultimately show ?thesis
    using n finishNonce_clock(1) [OF fin] by (fastforce simp: numbered_def)
qed

lemma advanced_good: "advanced init n sm \<Longrightarrow> good S A init \<Longrightarrow> good S A sm"
proof (induction rule: advanced.induct)
  case (diff n sm sm')
  then have g: "good S A sm" by simp
  then have ok: "machine_ok sm" by (simp add: good_def)
  obtain env sm1 root where run: "tx_run sm (Inr (), sm1)"
    and fin: "finishNonce env (LatestNonce (state sm) + 1) sm1 = (Inr root, sm')"
    using accepted_parts [OF diff.hyps(2) ok] by blast
  show ?case
    using finishNonce_good [OF tx_run_good [OF g run] _ fin] tx_run_frame(1) [OF run] by simp
next
  case (frame n sm sm' m)
  then show ?case by (auto simp: unmoved_def intro: good_same)
qed simp

lemma advanced_numbered:
  assumes "advanced init n sm" and "good S A init" and "numbered 0 init" and "n < 2 ^ 64"
  shows "numbered n sm"
  using assms
proof (induction rule: advanced.induct)
  case (diff n sm sm')
  have "machine_ok sm"
    using advanced_good [OF diff.hyps(1) diff.prems(1)] by (simp add: good_def)
  then show ?case
    using diff by (intro accepted_numbered) simp_all
next
  case (frame n sm sm' m)
  then show ?case
    using same_viewD(4,7) [of sm sm'] by (auto simp: numbered_def unmoved_def)
qed simp

section \<open>Phases\<close>

lemma tx_steps_phase:
  "(tx_step T)\<^sup>*\<^sup>* s s' \<Longrightarrow> s_phase s' = s_phase s \<or> s_phase s = PhaseActive \<and> s_phase s' = PhaseFinalizing"
proof (induction rule: rtranclp_induct)
  case (step t u)
  then show ?case by (auto elim!: tx_step.cases)
qed simp

text \<open>
  The clock of a session between diffs: active and not yet finalizing, finalizing for less
  than a group of nonces, or settled.
\<close>

definition clock_ok :: "StateMachine \<Rightarrow> bool" where
  "clock_ok sm \<longleftrightarrow>
     (let l = unat (LatestNonce (state sm)); f = unat (FinalizeNonce (state sm));
          g = length (Group (state sm)) in
      case Phase (state sm) of
        PhaseActive \<Rightarrow> f = 0
      | PhaseFinalizing \<Rightarrow> 0 < f \<and> f \<le> l \<and> l < f + g
      | PhaseSettlement \<Rightarrow> 0 < f \<and> f + g \<le> l)"

lemma accepted_clock:
  assumes ok: "machine_ok sm" and acc: "accepted (LatestNonce (state sm) + 1) sm sm'"
    and c: "clock_ok sm" and bound: "unat (LatestNonce (state sm)) + 129 < 2 ^ 64"
  shows "clock_ok sm'"
proof -
  let ?n = "LatestNonce (state sm) + 1"
  obtain env sm1 root where run: "tx_run sm (Inr (), sm1)"
    and fin: "finishNonce env ?n sm1 = (Inr root, sm')" and f1: "FinalizeNonce (state sm1) = FinalizeNonce (state sm)"
    using accepted_parts [OF acc ok] by blast
  have n: "unat ?n = Suc (unat (LatestNonce (state sm)))"
    using bound by (simp add: unat_u64_add)
  have g: "Group (state sm1) = Group (state sm)" "length (Group (state sm)) \<le> 128"
    using staticD(3) [OF tx_run_frame(4) [OF run]] ok
    by (auto simp: machine_ok_def session_ok_def terms_ok_def MaxGroupSize_def)
  have "sim sm1 (Inr root, sm')"
    using finishNonce_sim [OF tx_run_ok(1) [OF run ok], of _ env] tx_run_frame(1) [OF run] fin by metis
  then have g': "Group (state sm') = Group (state sm)"
    using g(1) staticD(3) [of sm' sm1] by (simp add: sim_def)
  have ph: "Phase (state sm1) = Phase (state sm) \<or> Phase (state sm) = PhaseActive \<and> Phase (state sm1) = PhaseFinalizing"
    using tx_steps_phase [of "terms_of sm" "session_of sm" "session_of sm1"] run by (simp add: tx_run_def)
  have sum: "unat (a + of_nat (length (Group (state sm)))) = unat a + length (Group (state sm))"
    if "unat a \<le> unat ?n" for a :: u64
    using that n bound g(2) by (subst unat_u64_add) (simp_all add: unat_of_nat)
  have pos: "unat x = 0 \<longleftrightarrow> x = 0" for x :: u64
    by (simp add: unat_eq_0)
  have grp: "Group (state sm) \<noteq> []"
    using ok by (auto simp: machine_ok_def session_ok_def terms_ok_def)
  note clk = finishNonce_clock [OF fin]
  show ?thesis
  proof (cases "Phase (state sm1)")
    case PhaseActive
    with ph clk(1,2) c f1 show ?thesis by (auto simp: clock_ok_def Let_def)
  next
    case PhaseSettlement
    with ph clk(1,3) c f1 n g' show ?thesis by (auto simp: clock_ok_def Let_def)
  next
    case PhaseFinalizing
    have F: "FinalizeNonce (state sm') = (if FinalizeNonce (state sm) = 0 then ?n else FinalizeNonce (state sm))"
      using clk(4) [OF PhaseFinalizing] f1 by simp
    have F0: "FinalizeNonce (state sm) = 0 \<longleftrightarrow> Phase (state sm) = PhaseActive"
      using c ph PhaseFinalizing pos by (auto simp: clock_ok_def Let_def split: SessionPhase.splits)
    have Fle: "unat (FinalizeNonce (state sm')) \<le> unat ?n" "0 < unat (FinalizeNonce (state sm'))"
      using F F0 c ph PhaseFinalizing n pos [of "FinalizeNonce (state sm)"]
      by (auto simp: clock_ok_def Let_def)
    have "Phase (state sm') = (if unat (FinalizeNonce (state sm')) + length (Group (state sm)) \<le> unat ?n
        then PhaseSettlement else PhaseFinalizing)"
      using clk(4) [OF PhaseFinalizing] g(1) sum [OF Fle(1)] by (simp add: word_le_nat_alt)
    with Fle clk(1) g' show ?thesis by (auto simp: clock_ok_def Let_def)
  qed
qed

lemma advanced_clock:
  assumes "advanced init n sm" and "good S A init" and "numbered 0 init" and "clock_ok init" and "n + 129 < 2 ^ 64"
  shows "clock_ok sm"
  using assms
proof (induction rule: advanced.induct)
  case (diff n sm sm')
  have "machine_ok sm"
    using advanced_good [OF diff.hyps(1) diff.prems(1)] by (simp add: good_def)
  moreover have "unat (LatestNonce (state sm)) \<le> n"
    using advanced_numbered [OF diff.hyps(1) diff.prems(1,2)] diff.prems(4) by (simp add: numbered_def)
  moreover have "clock_ok sm"
    using diff by simp
  ultimately show ?case
    using diff.hyps(2) diff.prems(4) accepted_clock [of sm sm'] by simp
next
  case (frame n sm sm' m)
  have c: "clock_ok sm"
    using frame.IH frame.prems frame.hyps(3) by simp
  have "Group (state sm') = Group (state sm)"
    using frame.hyps(2) by (intro staticD(3)) (simp add: unmoved_def same_view_def)
  moreover have "Phase (state sm') = Phase (state sm)" "FinalizeNonce (state sm') = FinalizeNonce (state sm)"
    "LatestNonce (state sm') = LatestNonce (state sm)"
    using frame.hyps(2) by (simp_all add: unmoved_def clock_of_def)
  ultimately show ?case
    using c by (simp add: clock_ok_def)
qed simp

end
