(* ===== verification/DevshardProperties.thy ===== *)
theory DevshardProperties
  imports DevshardGuarantees
begin

text \<open>
  The properties of the devshard state machine, with a concrete session that witnesses them:
  two hosts, two slots, an escrow of 100000 and the default prices.
\<close>

section \<open>A concrete session\<close>

definition ex_group :: "SlotAssignment list" where
  "ex_group = [\<lparr>SlotID = 0, ValidatorAddress = ''a''\<rparr>, \<lparr>SlotID = 1, ValidatorAddress = ''b''\<rparr>]"

text \<open>
  An environment that serialises every message to the empty string, recovers the owner of
  slot 1 except for one signature, and has no warm keys.
\<close>

definition ex_env :: devshard_env where
  "ex_env = \<lparr>marshal = \<lambda>_. Some [], unmarshalRecord = \<lambda>_. None, AppendTag = \<lambda>b _ _. b,
     AppendVarint = \<lambda>b _. b, RecoverAddress = \<lambda>_ s. if s = [1] then Some ''w'' else Some ''b'',
     warmResolver = None, storeFails = \<lambda>_ _. False, GetSealedInference = \<lambda>_ _ _. None\<rparr>"

definition ex_config :: SessionConfig where
  "ex_config = DefaultSessionConfig 2"

definition ex_machine :: StateMachine where
  "ex_machine = (case NewStateMachine True ''v2'' [] ''7'' ex_config ex_group 100000 ''u'' of
     Inr sm \<Rightarrow> sm | Inl _ \<Rightarrow> undefined)"

lemma ex_group_ok: "ValidateGroup ex_group = Inr ()"
  by (simp add: ValidateGroup_def ex_group_def MaxGroupSize_def)

lemma ex_config_eq: "ex_config =
  \<lparr>RefusalTimeout = 60, ExecutionTimeout = 1920, TokenPrice = 1, CreateDevshardFee = 10000,
   FeePerNonce = 1000, VoteThreshold = 1, ValidationRate = 5000, InferenceSealGraceNonces = 20,
   InferenceSealGraceSeconds = 3600, AutoSealEveryNNonces = 150\<rparr>"
  by (simp add: ex_config_def DefaultSessionConfig_def NormalizeSessionConfig_def
      DefaultInferenceSealGraceNonces_def Let_def)

lemma ex_normal: "NormalizeSessionConfig ex_config (length ex_group) = ex_config"
  by (simp add: ex_config_eq NormalizeSessionConfig_def Let_def)

lemma ex_machine_new: "NewStateMachine True ''v2'' [] ''7'' ex_config ex_group 100000 ''u'' = Inr ex_machine"
proof -
  have "\<not> (100000 :: u64) < CreateDevshardFee (NormalizeSessionConfig ex_config (length ex_group))"
    unfolding ex_normal by (simp add: ex_config_eq)
  then obtain sm where "NewStateMachine True ''v2'' [] ''7'' ex_config ex_group 100000 ''u'' = Inr sm"
    by (auto simp: NewStateMachine_def Let_def)
  then show ?thesis by (simp add: ex_machine_def)
qed

lemmas ex_fields = NewStateMachine_eq [OF ex_group_ok ex_machine_new, unfolded ex_normal]

lemma ex_state: "state ex_machine = \<lparr>EscrowID = ''7'', StateRootAndProtocolVersion = ''v2'',
  Config = ex_config, Group = ex_group, Balance = 90000, Fees = 10000, Phase = PhaseActive,
  FinalizeNonce = 0, Inferences = [], HostStatsMap = [(0, HostStats_zero), (1, HostStats_zero)],
  WarmKeys = [], LatestNonce = 0, SealedAcc = []\<rparr>"
  using ex_fields(2) by (simp add: ex_config_eq ex_group_def)

lemma ex_good: "good (static ex_machine) 100000 ex_machine"
  using new_machine_good [OF ex_group_ok ex_machine_new] by simp

definition ex_start :: DevshardTx where
  "ex_start = TxStartInference \<lparr>si_InferenceId = 1, si_PromptHash = [1], si_Model = ''m'',
     si_InputLength = 10, si_MaxTokens = 20, si_StartedAt = 5\<rparr>"

text \<open>The session after its first inference was started.\<close>

definition ex_started :: StateMachine where
  "ex_started = snd (ApplyLocal ex_env 1 [ex_start] ex_machine)"

lemma ex_reach: "reach ex_machine (Suc 0) ex_started"
  unfolding ex_started_def by (intro reach.apply_local reach.init)

lemmas run_simps = ApplyLocal_def applyCore_def checkStarts_def map_filter_simps Let_def orRollback_def
  finishNonce_def chargeNonceFee_def advanceNonce_def settleAtDeadline_def autoSealStep_def
  shouldAutoSealAtNonce_def autoSealInterval_def computeStateRootLocked_def computeHostStatsHash_def
  ComputeRestHashV2_def ComputeInferencesHashV2_def computeInferencesHash_def marshalInferenceEntry_def
  marshalE_def updateCommittedEntryLocked_def setInference_def setHostStats_def addBalance_def

lemma ex_started_state:
  "Balance (state ex_started) = 88970 \<and> Fees (state ex_started) = 11000
   \<and> kv_get (Inferences (state ex_started)) 1 = Some (pendingRecord \<lparr>si_InferenceId = 1, si_PromptHash = [1],
        si_Model = ''m'', si_InputLength = 10, si_MaxTokens = 20, si_StartedAt = 5\<rparr> 1 30)
   \<and> LatestNonce (state ex_started) = 1"
  by (simp add: ex_started_def ex_start_def run_simps applyStartInference_def isDuplicateInferenceID_def
      ex_state ex_fields(6,7) ex_config_eq ex_group_def tokenCost_def safeAdd_def safeMul_def ex_env_def
      HostStats_zero_def)

section \<open>Consequences of the contract\<close>

lemma session_good:
  assumes "ValidateGroup grp = Inr ()" and "NewStateMachine st ver opts escrow cfg grp amount user = Inr sm0"
    and "reach sm0 n sm"
  shows "good (static sm0) (unat amount) sm" and "advanced sm0 n sm"
  using reach_good [OF assms(3)] reach_advanced [OF assms(3)] new_machine_good [OF assms(1,2)] by blast+

lemma new_numbered:
  assumes "ValidateGroup grp = Inr ()" and "NewStateMachine st ver opts escrow cfg grp amount user = Inr sm0"
  shows "numbered 0 sm0" and "clock_ok sm0"
  using NewStateMachine_eq [OF assms] by (simp_all add: numbered_def known_ids_def clock_ok_def)

text \<open>The nonces up to \<open>n\<close> whose inference a slot executes.\<close>

definition assigned :: "SlotAssignment list \<Rightarrow> u32 \<Rightarrow> nat \<Rightarrow> nat" where
  "assigned grp slot n = card {k \<in> {1..n}. SlotID (grp ! (k mod length grp)) = slot}"

lemma known_assigned:
  assumes ok: "machine_ok sm" and n: "numbered n sm"
  shows "card {i \<in> known_ids sm. slot_of (terms_of sm) i = slot}
    \<le> assigned (Group (state sm)) slot (unat (LatestNonce (state sm)))"
  unfolding assigned_def
proof (rule card_inj_on_le [of unat])
  let ?grp = "Group (state sm)"
  have len: "0 < length ?grp" "length ?grp \<le> 128"
    using ok by (auto simp: machine_ok_def session_ok_def terms_ok_def MaxGroupSize_def)
  have "slot_of (terms_of sm) i = SlotID (?grp ! (unat i mod length ?grp))" for i
    using len by (simp add: slot_of_def unat_mod_distrib unat_of_nat)
  then show "unat ` {i \<in> known_ids sm. slot_of (terms_of sm) i = slot}
      \<subseteq> {k \<in> {1..unat (LatestNonce (state sm))}. SlotID (?grp ! (k mod length ?grp)) = slot}"
    using n by (fastforce simp: numbered_def)
  show "inj_on unat {i \<in> known_ids sm. slot_of (terms_of sm) i = slot}"
    by (simp add: inj_on_def word_unat_eq_iff)
qed simp

lemma voted_bound: "terms_ok T \<Longrightarrow> card (voted T vb) \<le> length (t_slots T)"
  using card_mono [of "set (t_slots T)" "voted T vb"] card_length [of "t_slots T"]
  by (auto simp: voted_def)

lemma accepted_steps:
  assumes "accepted (LatestNonce (state sm) + 1) sm sm'" and ok: "machine_ok sm"
  shows "(sess_step (terms_of sm))\<^sup>*\<^sup>* (session_of sm) (session_of sm')"
proof -
  obtain env sm1 root where run: "tx_run sm (Inr (), sm1)"
    and fin: "finishNonce env (LatestNonce (state sm) + 1) sm1 = (Inr root, sm')"
    using accepted_parts [OF assms] by blast
  have "sim sm1 (Inr root, sm')"
    using finishNonce_sim [OF tx_run_ok(1) [OF run ok], of _ env] tx_run_frame(1) [OF run] fin by metis
  then have "(sess_step (terms_of sm))\<^sup>*\<^sup>* (session_of sm1) (session_of sm')"
    by (simp add: sim_def end_steps_sess)
  moreover have "(sess_step (terms_of sm))\<^sup>*\<^sup>* (session_of sm) (session_of sm1)"
    using run by (simp add: tx_run_def tx_steps_sess)
  ultimately show ?thesis by (rule rtranclp_trans [rotated])
qed

lemma ApplyDiff_steps:
  assumes g: "good S A sm" and r: "ApplyDiff env d sm = (x, sm')"
  shows "(sess_step (terms_of sm))\<^sup>*\<^sup>* (session_of sm) (session_of sm')"
proof (cases "session_of sm' = session_of sm")
  case False
  obtain root where "applyCore env (d_Nonce d) (d_Txs d) (d_PostStateRoot d) sm = (Inr root, sm')"
  proof (cases x)
    case (Inl e)
    have "rolled_back sm sm'"
      using r Inl applyCore_rolled_back [OF g] by (auto simp: ApplyDiff_def split: sum.splits)
    then have "session_of sm' = session_of sm"
      using rolled_back_unmoved by (auto simp: unmoved_def same_view_def)
    with False show ?thesis by simp
  next
    case (Inr root)
    with r that show ?thesis by (auto simp: ApplyDiff_def split: sum.splits)
  qed
  then show ?thesis
    using accepted_steps [OF applyCore_accepted] g by (simp add: good_def)
qed simp

section \<open>Properties\<close>

text \<open>
  C1. The escrow is conserved: in every machine reached from a new session over a validated
  group, the free balance, the fees, the costs credited to hosts and the reservations of
  inferences in flight add up to the escrowed amount. No sum wraps around.
\<close>

theorem escrow_conserved:
  assumes "ValidateGroup grp = Inr ()"
    and "NewStateMachine st ver opts escrow cfg grp amount user = Inr sm0"
    and "reach sm0 n sm"
  shows "unat (Balance (state sm)) + unat (Fees (state sm)) + costs (HostStatsMap (state sm))
    + kv_sum (\<lambda>_. held) (Inferences (state sm)) = unat amount"
  using session_good(1) [OF assms] by (simp add: good_def wealth_def)

theorem escrow_conserved_witness:
  "unat (Balance (state ex_started)) + unat (Fees (state ex_started))
    + costs (HostStatsMap (state ex_started)) + kv_sum (\<lambda>_. held) (Inferences (state ex_started)) = 100000"
  using escrow_conserved [OF ex_group_ok ex_machine_new ex_reach] by simp

text \<open>
  C2. A settled session holds nothing back: once the phase is settlement, no inference is
  live and the escrowed amount is exactly the refund, the fees and the hosts' costs.
\<close>

theorem settlement_complete:
  assumes "ValidateGroup grp = Inr ()"
    and "NewStateMachine st ver opts escrow cfg grp amount user = Inr sm0"
    and "reach sm0 n sm" and "Phase (state sm) = PhaseSettlement"
  shows "Inferences (state sm) = []
    \<and> unat (Balance (state sm)) + unat (Fees (state sm)) + costs (HostStatsMap (state sm)) = unat amount"
  using session_good(1) [OF assms(1-3)] assms(4) by (auto simp: good_def settled_empty_def wealth_def)

definition ex_settled :: StateMachine where
  "ex_settled = snd (ApplyLocal ex_env 3 [] (snd (ApplyLocal ex_env 2 []
     (snd (ApplyLocal ex_env 1 [TxFinalizeRound] ex_machine)))))"

lemma ex_settled_phase: "Phase (state ex_settled) = PhaseSettlement"
  by (simp add: ex_settled_def run_simps applyFinalizeRound_def drainLiveIntoSealedAccLocked_def
      ex_state ex_fields(6,7) ex_config_eq ex_group_def ex_env_def)

theorem settlement_complete_witness:
  "Inferences (state ex_settled) = []
    \<and> unat (Balance (state ex_settled)) + unat (Fees (state ex_settled)) + costs (HostStatsMap (state ex_settled)) = 100000"
  using settlement_complete [OF ex_group_ok ex_machine_new _ ex_settled_phase, of "Suc (Suc (Suc 0))"]
  by (simp add: ex_settled_def reach.apply_local reach.init)

text \<open>
  C3. No operation on a reachable machine panics: no division by an empty group, no statistics
  missing for an executor, whatever the environment answers.
\<close>

theorem session_never_panics:
  assumes "ValidateGroup grp = Inr ()"
    and "NewStateMachine st ver opts escrow cfg grp amount user = Inr sm0"
    and "reach sm0 n sm"
  shows "fst (ApplyDiff env d sm) \<noteq> Inl GoPanic \<and> fst (ApplyLocal env nonce txs sm) \<noteq> Inl GoPanic
    \<and> fst (ApplyLocalBestEffort env nonce txs sm) \<noteq> Inl GoPanic
    \<and> fst (ValidateDiff env d sm) \<noteq> Inl GoPanic
    \<and> fst (PreviewLocalBestEffort env nonce txs sm) \<noteq> Inl GoPanic"
proof -
  note g = session_good(1) [OF assms]
  show ?thesis
    using ApplyDiff_good [OF g] applyCore_good [OF g] localBestEffort_good [OF g]
      ValidateDiff_good(1) [OF g] Preview_good(1) [OF g]
    by (simp add: ApplyLocal_def ApplyLocalBestEffort_def)
qed

theorem session_never_panics_witness:
  "fst (ApplyLocal ex_env 2 [TxFinalizeRound] ex_started) \<noteq> Inl GoPanic"
  using session_never_panics [OF ex_group_ok ex_machine_new ex_reach] by blast

text \<open>
  C4. Diffs are atomic: when an application returns an error, the mutable state (balance, fees,
  phase, nonces, inferences, committed entries, statistics, warm keys, accumulator and seal
  nonces) and the fixed part of the machine are what they were; only the storage log and the
  write buffer may differ. Validation and preview leave them as they were on success too.
\<close>

theorem failed_operation_rolls_back:
  assumes "ValidateGroup grp = Inr ()"
    and "NewStateMachine st ver opts escrow cfg grp amount user = Inr sm0"
    and "reach sm0 n sm"
  shows "(ApplyDiff env d sm = (Inl e, sm') \<longrightarrow> rolled_back sm sm')
    \<and> (ApplyLocal env nonce txs sm = (Inl e, sm') \<longrightarrow> rolled_back sm sm')
    \<and> (ApplyLocalBestEffort env nonce txs sm = (Inl e, sm') \<longrightarrow> rolled_back sm sm')
    \<and> rolled_back sm (snd (ValidateDiff env d sm))
    \<and> rolled_back sm (snd (PreviewLocalBestEffort env nonce txs sm))"
proof -
  note g = session_good(1) [OF assms] and a = session_good(2) [OF assms]
  show ?thesis
    using applyCore_rolled_back [OF g] localBestEffort_rolled_back [OF g]
      ValidateDiff_advanced(1) [OF a g] Preview_advanced(1) [OF a g]
    by (auto simp: ApplyDiff_def ApplyLocal_def ApplyLocalBestEffort_def split: sum.splits)
qed

theorem failed_operation_rolls_back_witness:
  "ApplyLocal ex_env 5 [] ex_started = (Inl ErrInvalidNonce, ex_started) \<and> rolled_back ex_started ex_started"
proof -
  have "ApplyLocal ex_env 5 [] ex_started = (Inl ErrInvalidNonce, ex_started)"
    using ex_started_state by (simp add: ApplyLocal_def applyCore_def)
  then show ?thesis
    using failed_operation_rolls_back [OF ex_group_ok ex_machine_new ex_reach] by blast
qed

text \<open>
  C5. No slot is blamed beyond its assignments: the missed and invalid inferences of a slot,
  with those that may still become one, are at most the nonces used so far that the rotation
  assigned to the slot. The number of operations is below the range of the nonce.
\<close>

theorem faults_within_assignment:
  assumes "ValidateGroup grp = Inr ()"
    and "NewStateMachine st ver opts escrow cfg grp amount user = Inr sm0"
    and "reach sm0 n sm" and "n < 2 ^ 64"
    and "kv_get (HostStatsMap (state sm)) slot = Some h"
  shows "unat (Missed h) + unat (Invalid h) + kv_sum (only_slot slot undecided) (Inferences (state sm))
    \<le> assigned (Group (state sm)) slot (unat (LatestNonce (state sm)))"
proof -
  have ok: "machine_ok sm"
    using session_good(1) [OF assms(1-3)] by (simp add: good_def)
  have "numbered n sm"
    using advanced_numbered [OF session_good(2) [OF assms(1-3)] new_machine_good [OF assms(1,2)]]
      new_numbered [OF assms(1,2)] assms(4) by simp
  from known_assigned [OF ok this, of slot] show ?thesis
    using ok assms(5) by (fastforce simp: machine_ok_def session_ok_def books_ok_def faults_def)
qed

theorem faults_within_assignment_witness:
  "\<exists>h. kv_get (HostStatsMap (state ex_started)) 1 = Some h \<and>
     unat (Missed h) + unat (Invalid h) + kv_sum (only_slot 1 undecided) (Inferences (state ex_started))
       \<le> assigned (Group (state ex_started)) 1 1"
proof -
  have "kv_get (HostStatsMap (state ex_started)) 1 = Some HostStats_zero"
    by (simp add: ex_started_def ex_start_def run_simps applyStartInference_def isDuplicateInferenceID_def
        ex_state ex_fields(6,7) ex_config_eq ex_group_def tokenCost_def safeAdd_def safeMul_def ex_env_def)
  from faults_within_assignment [OF ex_group_ok ex_machine_new ex_reach _ this] show ?thesis
    using ex_started_state \<open>kv_get _ 1 = _\<close> by simp
qed

text \<open>
  C6. Votes on an inference never outweigh the group: the tallies of a live inference count
  every address at most once, with the weight of its slots, so together they are at most the
  size of the group and cannot wrap around.
\<close>

theorem votes_within_group:
  assumes "ValidateGroup grp = Inr ()"
    and "NewStateMachine st ver opts escrow cfg grp amount user = Inr sm0"
    and "reach sm0 n sm" and "kv_get (Inferences (state sm)) i = Some r"
  shows "unat (VotesValid r) + unat (VotesInvalid r) \<le> length (Group (state sm))"
proof -
  have ok: "session_ok (terms_of sm) (session_of sm)"
    using session_good(1) [OF assms(1-3)] by (simp add: good_def machine_ok_def)
  then have "votes_ok (terms_of sm) r" and T: "terms_ok (terms_of sm)"
    using assms(4) by (auto simp: session_ok_def maps_ok_def)
  then show ?thesis
    using voted_bound [OF T, of "ValidatedBy r"] by (simp add: votes_ok_def)
qed

theorem votes_within_group_witness:
  "\<exists>r. kv_get (Inferences (state ex_started)) 1 = Some r
     \<and> unat (VotesValid r) + unat (VotesInvalid r) \<le> length (Group (state ex_started))"
  using votes_within_group [OF ex_group_ok ex_machine_new ex_reach] ex_started_state by blast

text \<open>
  C7. An inference only moves along its life cycle. Over one diff, an id in use stays in use;
  an inference that is no longer live never comes back; and the status of one that stays live
  goes from pending to started to finished to challenged to validated or invalidated, or from
  pending or started to timed out, and never back.
\<close>

theorem inference_life_cycle:
  assumes "ValidateGroup grp = Inr ()"
    and "NewStateMachine st ver opts escrow cfg grp amount user = Inr sm0"
    and "reach sm0 n sm" and "ApplyDiff env d sm = (x, sm')" and "isDuplicateInferenceID sm i"
  shows "isDuplicateInferenceID sm' i
    \<and> (kv_get (Inferences (state sm)) i = None \<longrightarrow> kv_get (Inferences (state sm')) i = None)
    \<and> (\<forall>r r'. kv_get (Inferences (state sm)) i = Some r \<longrightarrow> kv_get (Inferences (state sm')) i = Some r' \<longrightarrow>
         life\<^sup>*\<^sup>* (Status r) (Status r'))"
proof -
  have dup: "isDuplicateInferenceID m i \<longleftrightarrow> i \<in> known_ids m" for m
    by (auto simp: isDuplicateInferenceID_def known_ids_def)
  show ?thesis
    using sess_steps_record [OF ApplyDiff_steps [OF session_good(1) [OF assms(1-3)] assms(4)], of i] assms(5)
    by (simp add: dup)
qed

theorem inference_life_cycle_witness:
  "isDuplicateInferenceID ex_started 1
   \<and> isDuplicateInferenceID (snd (ApplyDiff ex_env \<lparr>d_Nonce = 2, d_Txs = [], d_UserSig = [], d_PostStateRoot = []\<rparr> ex_started)) 1"
proof -
  have "isDuplicateInferenceID ex_started 1"
    using ex_started_state by (simp add: isDuplicateInferenceID_def)
  then show ?thesis
    using inference_life_cycle [OF ex_group_ok ex_machine_new ex_reach, where i = 1] by (metis prod.collapse)
qed

text \<open>
  C8. A session settles on time: an active session has no finalization nonce; a finalizing one
  is less than a group of nonces past it; and a session is settled exactly when a full group of
  nonces has passed since finalization began. (Below the range of the nonce.)
\<close>

theorem settlement_deadline:
  assumes "ValidateGroup grp = Inr ()"
    and "NewStateMachine st ver opts escrow cfg grp amount user = Inr sm0"
    and "reach sm0 n sm" and "n + 129 < 2 ^ 64"
  shows "(Phase (state sm) = PhaseActive \<longleftrightarrow> FinalizeNonce (state sm) = 0)
    \<and> (Phase (state sm) = PhaseSettlement \<longleftrightarrow> FinalizeNonce (state sm) \<noteq> 0
         \<and> unat (FinalizeNonce (state sm)) + length (Group (state sm)) \<le> unat (LatestNonce (state sm)))"
proof -
  have "clock_ok sm"
    using advanced_clock [OF session_good(2) [OF assms(1-3)] new_machine_good [OF assms(1,2)]]
      new_numbered [OF assms(1,2)] assms(4) by simp
  then show ?thesis
    by (auto simp: clock_ok_def Let_def unat_eq_0 split: SessionPhase.splits)
qed

theorem settlement_deadline_witness:
  "FinalizeNonce (state ex_settled) \<noteq> 0
   \<and> unat (FinalizeNonce (state ex_settled)) + length (Group (state ex_settled)) \<le> unat (LatestNonce (state ex_settled))"
  using settlement_deadline [OF ex_group_ok ex_machine_new, of "Suc (Suc (Suc 0))" ex_settled] ex_settled_phase
  by (simp add: ex_settled_def reach.apply_local reach.init)

end
