(* ===== verification/Signing.thy ===== *)
theory Signing
  imports DevshardHash
begin

text \<open>
  Signatures over session states, on both sides of a settlement: the verifier of the devshard
  (\<open>devshard/signing/secp256k1.go\<close>) and the address recovery of the chain
  (\<open>recoverCosmosAddress\<close> in \<open>x/inference/keeper/devshard_settlement.go\<close>). The curve, RIPEMD-160
  and bech32 come from third-party packages: they are the fields of \<^verbatim>\<open>crypto_lib\<close>.
\<close>

section \<open>Third-party operations\<close>

text \<open>
  \<open>Ecrecover\<close>, \<open>UnmarshalPubkey\<close> and \<open>CompressPubkey\<close> of go-ethereum, \<open>RecoverCompact\<close> and
  \<open>SerializeCompressed\<close> of dcrd, the address of a public key and the string of an address of the
  Cosmos SDK, and the two steps of the bech32 package. Public keys are the byte strings the
  packages exchange.
\<close>

record crypto_lib =
  Ecrecover :: "bytes \<Rightarrow> bytes \<Rightarrow> bytes option"
  UnmarshalPubkey :: "bytes \<Rightarrow> bytes option"
  CompressPubkey :: "bytes \<Rightarrow> bytes"
  ripemd160 :: "bytes \<Rightarrow> bytes"
  ConvertBits :: "bytes \<Rightarrow> bytes option"
  Bech32Encode :: "string \<Rightarrow> bytes \<Rightarrow> string option"
  RecoverCompact :: "bytes \<Rightarrow> bytes \<Rightarrow> bytes option"
  SerializeCompressed :: "bytes \<Rightarrow> bytes"
  PubKeyAddress :: "bytes \<Rightarrow> bytes"
  AccString :: "bytes \<Rightarrow> string"
  AccAddressFromBech32 :: "string \<Rightarrow> bytes option"

section \<open>The devshard verifier\<close>

definition addressFromCompressed :: "'z crypto_lib_scheme \<Rightarrow> bytes \<Rightarrow> string option" where
  "addressFromCompressed L compressed =
     (let addrBytes = ripemd160 L (sha256 compressed) in
      case ConvertBits L addrBytes of
        None \<Rightarrow> None
      | Some conv \<Rightarrow> Bech32Encode L ''gonka'' conv)"

definition addressFromUncompressedPubkey :: "'z crypto_lib_scheme \<Rightarrow> bytes \<Rightarrow> string option" where
  "addressFromUncompressedPubkey L pubkey =
     (case UnmarshalPubkey L pubkey of
        None \<Rightarrow> None
      | Some pub \<Rightarrow> addressFromCompressed L (CompressPubkey L pub))"

definition AddressFromPubKey :: "'z crypto_lib_scheme \<Rightarrow> bytes \<Rightarrow> string option" where
  "AddressFromPubKey L pubkey =
     (if length pubkey = 33 then addressFromCompressed L pubkey
      else if length pubkey = 65 then addressFromUncompressedPubkey L pubkey
      else None)"

definition Secp256k1_RecoverAddress :: "'z crypto_lib_scheme \<Rightarrow> bytes \<Rightarrow> bytes \<Rightarrow> string option" where
  "Secp256k1_RecoverAddress L message sig =
     (if length sig \<noteq> 65 then None
      else case Ecrecover L (sha256 message) sig of
        None \<Rightarrow> None
      | Some pubkey \<Rightarrow> addressFromUncompressedPubkey L pubkey)"

section \<open>The recovery on chain\<close>

definition recoverCosmosAddress :: "'z crypto_lib_scheme \<Rightarrow> bytes \<Rightarrow> bytes \<Rightarrow> bytes option" where
  "recoverCosmosAddress L hash sig =
     (if length sig \<noteq> 65 then None
      else
        let v = sig ! 64;
            dcrdSig = (v + 27) # take 32 sig @ take 32 (drop 32 sig)
        in case RecoverCompact L dcrdSig hash of
             None \<Rightarrow> None
           | Some pubKey \<Rightarrow> Some (PubKeyAddress L (SerializeCompressed L pubKey)))"

section \<open>Agreement\<close>

text \<open>
  What the packages document. Both libraries recover the key that made the signature, or both
  fail; the SDK's address of a secp256k1 key is RIPEMD-160 of SHA-256 of its compressed form,
  and the string of an address is its bech32 encoding under the prefix of the chain.
\<close>

definition same_recovery :: "'z crypto_lib_scheme \<Rightarrow> bool" where
  "same_recovery L \<longleftrightarrow>
     (\<forall>hash sig. length sig = 65 \<longrightarrow>
        map_option (CompressPubkey L) (Option.bind (Ecrecover L hash sig) (UnmarshalPubkey L))
        = map_option (SerializeCompressed L)
            (RecoverCompact L ((sig ! 64 + 27) # take 64 sig) hash))"

definition sdk_addresses :: "'z crypto_lib_scheme \<Rightarrow> bool" where
  "sdk_addresses L \<longleftrightarrow>
     (\<forall>key. PubKeyAddress L key = ripemd160 L (sha256 key))
     \<and> (\<forall>a. Option.bind (ConvertBits L a) (Bech32Encode L ''gonka'') = Some (AccString L a))"

lemma take_split_64: "take 32 xs @ take 32 (drop 32 xs) = take 64 xs"
  by (metis add_diff_cancel_left' numeral_plus_numeral numeral_Bit0 take_add)

lemma addressFromCompressed_sdk:
  "sdk_addresses L \<Longrightarrow> addressFromCompressed L key = Some (AccString L (PubKeyAddress L key))"
proof -
  assume L: "sdk_addresses L"
  then have "Option.bind (ConvertBits L (ripemd160 L (sha256 key))) (Bech32Encode L ''gonka'')
      = Some (AccString L (PubKeyAddress L key))"
    by (simp add: sdk_addresses_def)
  then show ?thesis
    by (cases "ConvertBits L (ripemd160 L (sha256 key))") (simp_all add: addressFromCompressed_def Let_def)
qed

text \<open>The devshard verifier and the chain attribute a signature to the same address.\<close>

lemma verifiers_agree:
  assumes "same_recovery L" and "sdk_addresses L"
  shows "Secp256k1_RecoverAddress L message sig
    = map_option (AccString L) (recoverCosmosAddress L (sha256 message) sig)"
proof (cases "length sig = 65")
  case True
  let ?c = "RecoverCompact L ((sig ! 64 + 27) # take 64 sig) (sha256 message)"
  have "Secp256k1_RecoverAddress L message sig
      = Option.bind (map_option (CompressPubkey L)
          (Option.bind (Ecrecover L (sha256 message) sig) (UnmarshalPubkey L))) (addressFromCompressed L)"
    using True
    by (auto simp: Secp256k1_RecoverAddress_def addressFromUncompressedPubkey_def split: option.splits)
  also have "\<dots> = Option.bind (map_option (SerializeCompressed L) ?c) (addressFromCompressed L)"
    using assms(1) True by (simp add: same_recovery_def)
  also have "\<dots> = map_option (AccString L) (recoverCosmosAddress L (sha256 message) sig)"
    using True
    by (auto simp: recoverCosmosAddress_def take_split_64 addressFromCompressed_sdk [OF assms(2)]
        split: option.splits)
  finally show ?thesis .
qed (simp add: Secp256k1_RecoverAddress_def recoverCosmosAddress_def)

end
