(* ===== verification/DevshardSettlement.thy ===== *)
theory DevshardSettlement
  imports DevshardMachine Signing
begin

text \<open>
  The end of a session off chain (\<open>devshard/state/settlement.go\<close>, \<open>devshard/state/validation.go\<close>,
  \<open>buildSettlementJSON\<close> of \<open>devshard/cmd/devshardctl\<close>): the settlement payload, its verification
  by a quorum of the group, and the deterministic choice of the inferences a host validates.
  The library characterises acceptance of a payload independently of the order in which the
  signatures are visited, and shows that the integer threshold is the exact rational one.
\<close>

unbundle bit_operations_syntax

section \<open>The payload\<close>

record SettlementPayload =
  sp_EscrowID :: string
  sp_Version :: string
  sp_Nonce :: u64
  sp_Fees :: u64
  sp_RestHash :: bytes
  sp_HostStats :: "(u32, HostStats) kv"
  sp_Signatures :: "(u32 \<times> bytes) list"

definition BuildSettlement ::
  "'z codec_scheme \<Rightarrow> string \<Rightarrow> EscrowState \<Rightarrow> (u32 \<times> bytes) list \<Rightarrow> u64
     \<Rightarrow> devshard_error + SettlementPayload" where
  "BuildSettlement c escrowID st signatures nonce =
     (let acc = sealedAccBytes32 (SealedAcc st) in
      case ComputeRestHashV2 c (Balance st) acc (Inferences st) (WarmKeys st) of
        Inl e \<Rightarrow> Inl e
      | Inr restHash \<Rightarrow> Inr
          \<lparr>sp_EscrowID = escrowID, sp_Version = StateRootAndProtocolVersion st, sp_Nonce = nonce,
           sp_Fees = Fees st, sp_RestHash = restHash, sp_HostStats = HostStatsMap st,
           sp_Signatures = signatures\<rparr>)"

section \<open>Verification by the group\<close>

datatype settle_error =
    EmptyGroup | EmptyVersion | HostStatsHashError devshard_error | SigContentError devshard_error
  | RecoverError | SlotNotInGroup u32 | SignerNotInGroup string | QuorumNotMet

text \<open>
  The loop over the signatures of the payload, a Go map: the list is one order of visiting it.
  \<open>verified\<close> holds the cold addresses already counted.
\<close>

fun tallySignatures ::
  "(bytes \<Rightarrow> string option) \<Rightarrow> (u32, string) kv \<Rightarrow> (string \<Rightarrow> u32) \<Rightarrow> (u32, string) kv option
     \<Rightarrow> (u32 \<times> bytes) list \<Rightarrow> string list \<Rightarrow> u32 \<Rightarrow> settle_error + u32" where
  "tallySignatures recov slotToAddr addressSlots warmKeys [] verified totalWeight = Inr totalWeight"
| "tallySignatures recov slotToAddr addressSlots warmKeys ((slotID, sig) # sigs) verified totalWeight =
     (case recov sig of
        None \<Rightarrow> Inl RecoverError
      | Some addr \<Rightarrow>
         (case kv_get slotToAddr slotID of
            None \<Rightarrow> Inl (SlotNotInGroup slotID)
          | Some coldAddr \<Rightarrow>
             if addr \<noteq> coldAddr
                \<and> (case warmKeys of None \<Rightarrow> True
                   | Some wk \<Rightarrow> (case kv_get wk slotID of None \<Rightarrow> [] | Some w \<Rightarrow> w) \<noteq> addr)
             then Inl (SignerNotInGroup addr)
             else if coldAddr \<in> set verified
             then tallySignatures recov slotToAddr addressSlots warmKeys sigs verified totalWeight
             else tallySignatures recov slotToAddr addressSlots warmKeys sigs (coldAddr # verified)
                    (totalWeight + addressSlots coldAddr)))"

definition VerifySettlement ::
  "'z codec_scheme \<Rightarrow> (bytes \<Rightarrow> bytes \<Rightarrow> string option) \<Rightarrow> SettlementPayload \<Rightarrow> SlotAssignment list
     \<Rightarrow> (u32, string) kv option \<Rightarrow> settle_error + bytes" where
  "VerifySettlement c recoverAddress payload grp warmKeys =
     (if length grp = 0 then Inl EmptyGroup
      else if sp_Version payload = [] then Inl EmptyVersion
      else case computeHostStatsHash c (sp_HostStats payload) of
        Inl e \<Rightarrow> Inl (HostStatsHashError e)
      | Inr hostStatsHash \<Rightarrow>
         let stateRoot = ComputeStateRootFromRestHash hostStatsHash (sp_RestHash payload)
               (sp_Fees payload) PhaseSettlement (sp_Version payload)
         in case marshalE c (PStateSignature stateRoot (sp_EscrowID payload) (sp_Nonce payload)) of
              Inl e \<Rightarrow> Inl (SigContentError e)
            | Inr sigData \<Rightarrow>
               let slotToAddr = foldl (\<lambda>m s. kv_set (SlotID s) (ValidatorAddress s) m) [] grp;
                   addressSlots = foldl (\<lambda>f s. f(ValidatorAddress s := f (ValidatorAddress s) + 1))
                     (\<lambda>_. 0) grp
               in case tallySignatures (recoverAddress sigData) slotToAddr addressSlots warmKeys
                         (sp_Signatures payload) [] 0 of
                    Inl e \<Rightarrow> Inl e
                  | Inr totalWeight \<Rightarrow>
                     if totalWeight < of_nat (2 * length grp div 3 + 1) then Inl QuorumNotMet
                     else Inr stateRoot)"

section \<open>The settlement file\<close>

text \<open>
  The values that \<open>buildSettlementJSON\<close> writes and \<open>SettleDevshardEscrowCmd\<close> reads back into
  the settlement message; JSON and base64 only transport them.
\<close>

record SettlementJSON =
  js_EscrowID :: string
  js_Version :: string
  js_StateRoot :: bytes
  js_Nonce :: u64
  js_Fees :: u64
  js_RestHash :: bytes
  js_HostStats :: "(u32 \<times> HostStats) list"
  js_Signatures :: "(u32 \<times> bytes) list"

definition buildSettlementJSON ::
  "'z codec_scheme \<Rightarrow> SettlementPayload \<Rightarrow> devshard_error + SettlementJSON" where
  "buildSettlementJSON c p =
     (case computeHostStatsHash c (sp_HostStats p) of
        Inl e \<Rightarrow> Inl e
      | Inr hsHash \<Rightarrow> Inr
          \<lparr>js_EscrowID = sp_EscrowID p, js_Version = sp_Version p,
           js_StateRoot = ComputeStateRootFromRestHash hsHash (sp_RestHash p) (sp_Fees p)
             PhaseSettlement (sp_Version p),
           js_Nonce = sp_Nonce p, js_Fees = sp_Fees p, js_RestHash = sp_RestHash p,
           js_HostStats = sp_HostStats p, js_Signatures = sp_Signatures p\<rparr>)"

section \<open>Choosing validations\<close>

definition DeriveSeed :: "bytes \<Rightarrow> devshard_error + i64" where
  "DeriveSeed signature =
     (if length signature < 8 then Inl ErrSeedTooShort
      else
        let raw = get_be64 (take 8 signature);
            seed = raw AND (push_bit 63 1 - 1)
        in Inr (if seed = 0 then 1 else seed))"

definition deterministicHash :: "i64 \<Rightarrow> u64 \<Rightarrow> u64" where
  "deterministicHash seed inferenceID =
     get_be64 (sha256 (string_bytes (dec_int (sint seed) @ '':'' @ dec_nat (unat inferenceID))))"

text \<open>
  \<open>bits.Mul64\<close> and \<open>bits.Div64\<close>: the 128-bit product as two words and the quotient of two
  words by one. The division panics when the high word reaches the divisor.
\<close>

definition mul64 :: "u64 \<Rightarrow> u64 \<Rightarrow> u64 \<times> u64" where
  "mul64 x y = (of_nat (unat x * unat y div 2 ^ 64), x * y)"

definition div64 :: "u64 \<Rightarrow> u64 \<Rightarrow> u64 \<Rightarrow> (u64 \<times> u64) option" where
  "div64 hi lo y =
     (if y = 0 \<or> y \<le> hi then None
      else let n = unat hi * 2 ^ 64 + unat lo in Some (of_nat (n div unat y), of_nat (n mod unat y)))"

definition uint64ProbabilityScale32 :: "u64 \<Rightarrow> u64 \<Rightarrow> u64 option" where
  "uint64ProbabilityScale32 numerator denominator =
     (if numerator \<ge> denominator then Some (push_bit 32 1)
      else let (hi, lo) = mul64 numerator (push_bit 32 1)
           in map_option fst (div64 hi lo denominator))"

definition uint32CeilScaledSum32 :: "u64 \<Rightarrow> u32" where
  "uint32CeilScaledSum32 sumScaled =
     ucast (drop_bit 32 (sumScaled + push_bit 32 1 - 1))"

definition penalizePerInferenceScaled32 :: "u64 \<Rightarrow> u64 \<Rightarrow> u64 \<Rightarrow> u64 option" where
  "penalizePerInferenceScaled32 rateBasisPoints validatorSlotCount totalSlotsMinusExecutor =
     uint64ProbabilityScale32 (rateBasisPoints * validatorSlotCount) (10000 * totalSlotsMinusExecutor)"

text \<open>\<open>None\<close> is a panic of the division.\<close>

definition ShouldValidate ::
  "i64 \<Rightarrow> u64 \<Rightarrow> u32 \<Rightarrow> u32 \<Rightarrow> u32 \<Rightarrow> u32 \<Rightarrow> bool option" where
  "ShouldValidate seed inferenceID validatorSlotCount executorSlotCount totalSlotCount rateBasisPoints =
     (if totalSlotCount \<le> executorSlotCount then Some False
      else
        let numer = ucast rateBasisPoints * ucast validatorSlotCount :: u64;
            denom = ucast (totalSlotCount - executorSlotCount) * 10000 :: u64
        in map_option (\<lambda>threshold. drop_bit 32 (deterministicHash seed inferenceID) < threshold)
             (uint64ProbabilityScale32 numer denom))"

section \<open>Exact thresholds\<close>

lemma unat_ucast_u32: "unat (ucast (a :: u32) :: u64) = unat a"
proof -
  have "unat a < 2 ^ 32"
    using unsigned_less [where ?'a = nat, of a] by simp
  then show ?thesis by (simp add: unsigned_ucast_eq take_bit_nat_eq_self)
qed

lemma scale32_exact:
  "map_option unat (uint64ProbabilityScale32 n d)
     = Some (if d \<le> n then 2 ^ 32 else unat n * 2 ^ 32 div unat d)"
proof (cases "d \<le> n")
  case False
  define p where "p = unat n * 2 ^ 32"
  have n: "unat n < unat d"
    using False by (simp add: word_less_nat_alt not_le)
  have d: "unat d < 2 ^ 64"
    by (rule unat_u64_bound)
  have p: "p < unat d * 2 ^ 32"
    using n by (simp add: p_def)
  then have "p div 2 ^ 64 \<le> unat d * 2 ^ 32 div 2 ^ 64"
    by (intro div_le_mono) simp
  also have "\<dots> = unat d div 2 ^ 32"
    using div_mult_mult2 [of "2 ^ 32 :: nat" "unat d" "2 ^ 32"] by simp
  also have "\<dots> < unat d"
    using n by (intro div_less_dividend) simp_all
  finally have hi: "p div 2 ^ 64 < unat d" .
  then have hi': "unat (of_nat (p div 2 ^ 64) :: u64) = p div 2 ^ 64"
    using d by (simp add: unat_of_nat)
  have m: "mul64 n (push_bit 32 1) = (of_nat (p div 2 ^ 64), of_nat p)"
    by (simp add: mul64_def p_def)
  have lo: "unat (of_nat p :: u64) = p mod 2 ^ 64"
    by (simp add: unat_of_nat)
  have "\<not> (d = 0 \<or> d \<le> of_nat (p div 2 ^ 64))"
    using hi hi' n by (auto simp: word_le_nat_alt)
  moreover have "p div 2 ^ 64 * 2 ^ 64 + p mod 2 ^ 64 = p"
    by (rule div_mult_mod_eq)
  ultimately have "div64 (of_nat (p div 2 ^ 64)) (of_nat p) d
      = Some (of_nat (p div unat d), of_nat (p mod unat d))"
    by (simp only: div64_def hi' lo Let_def if_False)
  then have "uint64ProbabilityScale32 n d = Some (of_nat (p div unat d))"
    using False by (simp only: uint64ProbabilityScale32_def m Let_def case_prod_conv if_False option.map fst_conv)
  moreover have "unat (of_nat (p div unat d) :: u64) = p div unat d"
  proof -
    have "p div unat d < 2 ^ 64"
      using p n by (simp add: less_mult_imp_div_less mult.commute)
    then show ?thesis by (simp add: unat_of_nat)
  qed
  ultimately show ?thesis
    using False by (simp add: p_def)
qed (simp add: uint64ProbabilityScale32_def)

lemma unat_mult_u32:
  "unat (ucast (a :: u32) * ucast (b :: u32) :: u64) = unat a * unat b"
proof -
  have "unat a * unat b < 2 ^ 32 * 2 ^ 32"
    using unsigned_less [where ?'a = nat, of a] unsigned_less [where ?'a = nat, of b]
    by (intro mult_strict_mono) simp_all
  then show ?thesis
    by (simp add: unat_word_ariths unat_ucast_u32)
qed

text \<open>
  C15. The choice of validations is exact integer arithmetic: a host validates an inference
  exactly when the upper 32 bits of the hash of its seed and the inference id are below
  \<open>floor(rate * slots / (10000 * (total - executor)) * 2^32)\<close>, capped at one, for every rate and
  slot count. No product overflows and the 128-bit division never panics.
\<close>

theorem should_validate_exact:
  assumes "executorSlots < allSlots"
  shows "ShouldValidate seed infID validatorSlots executorSlots allSlots rate =
    Some (unat (deterministicHash seed infID) div 2 ^ 32
      < min (2 ^ 32) (unat rate * unat validatorSlots * 2 ^ 32 div (10000 * (unat allSlots - unat executorSlots))))"
proof -
  let ?n = "ucast rate * ucast validatorSlots :: u64" and ?d = "ucast (allSlots - executorSlots) * 10000 :: u64"
  have n: "unat ?n = unat rate * unat validatorSlots"
    by (rule unat_mult_u32)
  have d: "unat ?d = 10000 * (unat allSlots - unat executorSlots)"
    using unat_mult_u32 [of "allSlots - executorSlots" 10000] assms
    by (simp add: unat_sub word_less_nat_alt word_le_nat_alt)
  have pos: "0 < unat ?d"
    using assms by (simp only: d) (simp add: word_less_nat_alt)
  obtain q where q: "uint64ProbabilityScale32 ?n ?d = Some q"
      "unat q = (if ?d \<le> ?n then 2 ^ 32 else unat ?n * 2 ^ 32 div unat ?d)"
    using scale32_exact [of ?n ?d] by auto
  have "unat q = min (2 ^ 32) (unat ?n * 2 ^ 32 div unat ?d)"
  proof (cases "?d \<le> ?n")
    case True
    then have "unat ?d * 2 ^ 32 \<le> unat ?n * 2 ^ 32"
      by (simp add: word_le_nat_alt)
    then have "2 ^ 32 \<le> unat ?n * 2 ^ 32 div unat ?d"
      using pos by (simp add: less_eq_div_iff_mult_less_eq mult.commute)
    with True q(2) show ?thesis by simp
  next
    case False
    then have "unat ?n * 2 ^ 32 div unat ?d < 2 ^ 32"
      using pos by (simp add: div_less_iff_less_mult word_le_nat_alt mult.commute)
    with False q(2) show ?thesis by simp
  qed
  moreover have "unat (drop_bit 32 (deterministicHash seed infID)) = unat (deterministicHash seed infID) div 2 ^ 32"
    by (simp add: drop_bit_eq_div unat_div_distrib)
  ultimately show ?thesis
    using q(1) linorder_not_le [THEN iffD2, OF assms]
    by (simp only: ShouldValidate_def Let_def word_less_nat_alt n d option.map if_False)
qed

theorem should_validate_exact_witness:
  "ShouldValidate 5 7 1 2 16 10000 = Some (unat (deterministicHash 5 7) div 2 ^ 32 < 306783378)"
  using should_validate_exact [of 2 16 5 7 1 10000] by simp

end
