(* ===== verification/SlotSampling.thy ===== *)
theory SlotSampling
  imports GoStd
begin

text \<open>
  Weighted sampling of validator slots (\<open>inference-chain/x/inference/calculations/slots.go\<close>):
  the preparation of the weight list, the batch sampler that merges the sorted draws with the
  cumulative weights, and the sampler of a single slot. The library shows that the batch
  sampler computes, slot by slot, what the single-slot sampler does.
\<close>

section \<open>Entries\<close>

record WeightEntry =
  we_Address :: string
  we_Weight :: i64

record slotRandom =
  randomVal :: i64
  origIdx :: nat

text \<open>The weights are a Go map; \<open>kv\<close> lists it in the order of its sorted keys.\<close>

definition PrepareSortedEntries :: "(string, i64) kv \<Rightarrow> WeightEntry list \<times> i64" where
  "PrepareSortedEntries weights =
     (let sortedEntries = map (\<lambda>(addr, w). \<lparr>we_Address = addr, we_Weight = w\<rparr>)
            (filter (\<lambda>(_, w). \<not> sint w \<le> 0) weights);
          totalWeight = foldl (\<lambda>t e. t + we_Weight e) 0 sortedEntries
      in if totalWeight = 0 \<or> sortedEntries = [] then ([], 0) else (sortedEntries, totalWeight))"

section \<open>Draws\<close>

definition slotRandomVal :: "string \<Rightarrow> string \<Rightarrow> string \<Rightarrow> nat \<Rightarrow> i64 \<Rightarrow> i64" where
  "slotRandomVal appHash participantAddress modelID slotIdx totalWeight =
     get_be64 (sha256 (string_bytes (appHash @ participantAddress @ modelID @ dec_nat slotIdx)))
       mod totalWeight"

text \<open>The inner loop of the batch sampler: the draws below the cumulative weight go to one address.\<close>

fun assignRun ::
  "i64 \<Rightarrow> string \<Rightarrow> slotRandom list \<Rightarrow> string list \<Rightarrow> slotRandom list \<times> string list" where
  "assignRun cumulative addr [] result = ([], result)"
| "assignRun cumulative addr (r # rs) result =
     (if sint (randomVal r) < sint cumulative
      then assignRun cumulative addr rs (result[origIdx r := addr])
      else (r # rs, result))"

fun assignSlots ::
  "i64 \<Rightarrow> WeightEntry list \<Rightarrow> slotRandom list \<Rightarrow> string list \<Rightarrow> string list" where
  "assignSlots cumulative [] randoms result = result"
| "assignSlots cumulative (e # es) randoms result =
     (let cumulative = cumulative + we_Weight e;
          (randoms, result) = assignRun cumulative (we_Address e) randoms result
      in assignSlots cumulative es randoms result)"

definition GetSlotsFromSorted ::
  "string \<Rightarrow> string \<Rightarrow> string \<Rightarrow> WeightEntry list \<Rightarrow> i64 \<Rightarrow> nat \<Rightarrow> string list" where
  "GetSlotsFromSorted appHash participantAddress modelID sortedEntries totalWeight nSlots =
     (if nSlots = 0 \<or> sint totalWeight \<le> 0 then []
      else
        let randoms = map (\<lambda>i. \<lparr>randomVal = slotRandomVal appHash participantAddress modelID i totalWeight,
                                origIdx = i\<rparr>) [0..<nSlots]
        in assignSlots 0 sortedEntries (sort_key (\<lambda>r. sint (randomVal r)) randoms)
             (replicate nSlots []))"

fun pickSlot :: "i64 \<Rightarrow> WeightEntry list \<Rightarrow> i64 \<Rightarrow> string option" where
  "pickSlot cumulative [] r = None"
| "pickSlot cumulative (e # es) r =
     (let cumulative = cumulative + we_Weight e
      in if sint r < sint cumulative then Some (we_Address e) else pickSlot cumulative es r)"

definition GetSlotFromSorted ::
  "string \<Rightarrow> string \<Rightarrow> string \<Rightarrow> WeightEntry list \<Rightarrow> i64 \<Rightarrow> nat \<Rightarrow> string" where
  "GetSlotFromSorted appHash participantAddress modelID sortedEntries totalWeight slotIdx =
     (if sortedEntries = [] \<or> sint totalWeight \<le> 0 then []
      else case pickSlot 0 sortedEntries
             (slotRandomVal appHash participantAddress modelID slotIdx totalWeight) of
        Some a \<Rightarrow> a
      | None \<Rightarrow> we_Address (last sortedEntries))"

text \<open>Integer division of Go, which truncates towards zero.\<close>

definition go_quot :: "int \<Rightarrow> int \<Rightarrow> int" where
  "go_quot a b = sgn a * sgn b * (\<bar>a\<bar> div \<bar>b\<bar>)"

definition ComputeSampledSlotCount :: "i64 \<Rightarrow> i64 \<Rightarrow> i64 \<Rightarrow> i64" where
  "ComputeSampledSlotCount modelVotingPower totalNetworkWeight nSlots =
     (if sint nSlots \<le> 0 \<or> sint modelVotingPower \<le> 0 \<or> sint totalNetworkWeight \<le> 0 then 0
      else if sint modelVotingPower \<ge> sint totalNetworkWeight then nSlots
      else
        let groupSlots = of_int (go_quot (sint (modelVotingPower * nSlots)) (sint totalNetworkWeight)) :: i64
        in if sint groupSlots \<le> 0 then 0
           else if sint groupSlots \<ge> sint nSlots then nSlots else groupSlots)"

section \<open>The batch sampler slot by slot\<close>

lemma assignRun_eq:
  "assignRun c a rs result =
     (dropWhile (\<lambda>r. sint (randomVal r) < sint c) rs,
      foldl (\<lambda>res r. res[origIdx r := a]) result
        (takeWhile (\<lambda>r. sint (randomVal r) < sint c) rs))"
  by (induction c a rs result rule: assignRun.induct) auto

lemma foldl_update_nth:
  "i < length res \<Longrightarrow>
   foldl (\<lambda>res r. res[origIdx r := a]) res rs ! i = (if i \<in> origIdx ` set rs then a else res ! i)"
  by (induction rs arbitrary: res) (auto simp: nth_list_update)

lemma length_foldl_update [simp]:
  "length (foldl (\<lambda>res r. res[origIdx r := a]) res rs) = length res"
  by (induction rs arbitrary: res) auto

lemma length_assignSlots [simp]: "length (assignSlots c es rs res) = length res"
  by (induction c es rs res rule: assignSlots.induct) (auto simp: Let_def assignRun_eq)

text \<open>The ordering of the draws, which any sort establishes: only sortedness is used.\<close>

abbreviation draws_sorted :: "slotRandom list \<Rightarrow> bool" where
  "draws_sorted rs \<equiv> sorted (map (\<lambda>r. sint (randomVal r)) rs)"

lemma draws_dropWhile:
  assumes "draws_sorted rs"
  shows "draws_sorted (dropWhile P rs)"
    and "r \<in> set rs \<Longrightarrow> sint (randomVal r) < sint c \<Longrightarrow>
      r \<in> set (takeWhile (\<lambda>r. sint (randomVal r) < sint c) rs)"
  using assms
proof (induction rs)
  case (Cons x rs)
  { case 1 then show ?case using Cons.IH(1) by auto }
  { case 2 then show ?case using Cons.IH(2) by (auto dest: order.strict_trans1) }
qed auto

lemma assignSlots_untouched:
  "i < length res \<Longrightarrow> i \<notin> origIdx ` set rs \<Longrightarrow> assignSlots c es rs res ! i = res ! i"
proof (induction c es rs res rule: assignSlots.induct)
  case (2 c e es rs res)
  let ?P = "\<lambda>r. sint (randomVal r) < sint (c + we_Weight e)"
  have "i \<notin> origIdx ` set (takeWhile ?P rs)" "i \<notin> origIdx ` set (dropWhile ?P rs)"
    using "2.prems"(2) by (auto dest: set_takeWhileD set_dropWhileD)
  with 2 show ?case
    by (simp add: Let_def assignRun_eq foldl_update_nth)
qed simp

lemma assignSlots_nth:
  assumes "draws_sorted rs" "distinct (map origIdx rs)" "r \<in> set rs" "origIdx r < length res"
  shows "assignSlots c es rs res ! origIdx r =
    (case pickSlot c es (randomVal r) of None \<Rightarrow> res ! origIdx r | Some a \<Rightarrow> a)"
  using assms
proof (induction es arbitrary: c rs res)
  case (Cons e es)
  define P where "P = (\<lambda>r :: slotRandom. sint (randomVal r) < sint (c + we_Weight e))"
  define ts ds where "ts = takeWhile P rs" and "ds = dropWhile P rs"
  define res' where "res' = foldl (\<lambda>res r. res[origIdx r := we_Address e]) res ts"
  have rs: "rs = ts @ ds"
    by (simp add: ts_def ds_def)
  have step: "assignSlots c (e # es) rs res = assignSlots (c + we_Weight e) es ds res'"
    by (simp add: Let_def assignRun_eq P_def ts_def ds_def res'_def)
  have len: "origIdx r < length res'"
    using Cons.prems(4) by (simp add: res'_def)
  have apart: "origIdx ` set ts \<inter> origIdx ` set ds = {}" "distinct (map origIdx ds)"
    using Cons.prems(2) by (subst (asm) rs, simp)+
  have nth: "res' ! origIdx r = (if origIdx r \<in> origIdx ` set ts then we_Address e else res ! origIdx r)"
    using Cons.prems(4) by (simp add: res'_def foldl_update_nth)
  show ?case
  proof (cases "P r")
    case True
    then have "r \<in> set ts"
      using draws_dropWhile(2) [OF Cons.prems(1,3)] by (simp add: P_def ts_def)
    then have "origIdx r \<notin> origIdx ` set ds" "origIdx r \<in> origIdx ` set ts"
      using apart(1) by auto
    with True len show ?thesis
      unfolding step by (simp add: assignSlots_untouched nth Let_def P_def)
  next
    case False
    then have r: "r \<in> set ds"
      using Cons.prems(3) set_takeWhileD [of r P rs] rs by (metis Un_iff set_append ts_def)
    then have "origIdx r \<notin> origIdx ` set ts"
      using apart(1) by auto
    moreover have "draws_sorted ds"
      unfolding ds_def by (rule draws_dropWhile(1) [OF Cons.prems(1)])
    ultimately show ?thesis
      unfolding step
      using False Cons.IH [OF _ apart(2) r len, of "c + we_Weight e"]
      by (simp add: nth Let_def P_def split: option.splits)
  qed
qed simp

section \<open>Every draw falls on an entry\<close>

lemma PrepareSortedEntries_total:
  "PrepareSortedEntries weights = (es, t) \<Longrightarrow> foldl (\<lambda>t e. t + we_Weight e) 0 es = t"
  by (auto simp: PrepareSortedEntries_def Let_def split: if_splits)

lemma pickSlot_below_total:
  "es \<noteq> [] \<Longrightarrow> sint r < sint (foldl (\<lambda>t e. t + we_Weight e) c es) \<Longrightarrow>
   \<exists>e \<in> set es. pickSlot c es r = Some (we_Address e)"
proof (induction c es r rule: pickSlot.induct)
  case (2 c e es r)
  then show ?case by (cases "es = []") (auto simp: Let_def)
qed simp

lemma sint_i64: "sint (x :: i64) = (if uint x < 2 ^ 63 then uint x else uint x - 2 ^ 64)"
proof -
  have b: "0 \<le> uint x" "uint x < 2 ^ 64"
    using uint_bounded [of x] by simp_all
  have s: "sint x = (uint x + 2 ^ 63) mod 2 ^ 64 - 2 ^ 63"
    by (simp add: sint_uint signed_take_bit_eq_take_bit_shift take_bit_eq_mod)
  show ?thesis
  proof (cases "uint x < 2 ^ 63")
    case True
    then have "(uint x + 2 ^ 63) mod 2 ^ 64 = uint x + 2 ^ 63"
      using b by (intro mod_pos_pos_trivial) simp_all
    with True s show ?thesis by simp
  next
    case False
    then have "(uint x + 2 ^ 63) mod 2 ^ 64 = uint x - 2 ^ 63"
      using b by (intro int_mod_pos_eq [where q = 1]) simp_all
    with False s show ?thesis by simp
  qed
qed

lemma sint_mod_below:
  assumes "0 < sint (t :: i64)"
  shows "sint (x mod t) < sint t"
proof -
  have t: "uint t < 2 ^ 63" "0 < uint t"
    using assms uint_bounded [of t] by (auto simp: sint_i64 split: if_splits)
  have "uint (x mod t) < uint t"
    using t by (simp add: uint_mod)
  with t show ?thesis by (simp add: sint_i64)
qed

lemma GetSlotsFromSorted_nth:
  assumes "PrepareSortedEntries weights = (es, t)" and "0 < sint t" and "i < n"
  shows "GetSlotsFromSorted ah pa m es t n ! i = GetSlotFromSorted ah pa m es t i"
    and "GetSlotFromSorted ah pa m es t i \<in> we_Address ` set es"
proof -
  define rs where "rs = sort_key (\<lambda>r. sint (randomVal r))
    (map (\<lambda>i. \<lparr>randomVal = slotRandomVal ah pa m i t, origIdx = i\<rparr>) [0..<n])"
  let ?r = "\<lparr>randomVal = slotRandomVal ah pa m i t, origIdx = i\<rparr>"
  have es: "es \<noteq> []"
    using assms(1,2) by (auto simp: PrepareSortedEntries_def Let_def split: if_splits)
  have "sint (slotRandomVal ah pa m i t) < sint t"
    unfolding slotRandomVal_def by (rule sint_mod_below [OF assms(2)])
  then obtain e where e: "e \<in> set es" "pickSlot 0 es (randomVal ?r) = Some (we_Address e)"
    using pickSlot_below_total [OF es] PrepareSortedEntries_total [OF assms(1)] by fastforce
  have "distinct (map origIdx rs)"
    by (simp add: rs_def distinct_map inj_on_def)
  moreover have "draws_sorted rs"
    by (simp add: rs_def)
  moreover have "?r \<in> set rs"
    using assms(3) by (auto simp: rs_def)
  ultimately have "assignSlots 0 es rs (replicate n []) ! i = we_Address e"
    using assignSlots_nth [of rs ?r "replicate n []" 0 es] e(2) assms(3) by simp
  then show "GetSlotsFromSorted ah pa m es t n ! i = GetSlotFromSorted ah pa m es t i"
    and "GetSlotFromSorted ah pa m es t i \<in> we_Address ` set es"
    using assms(2,3) es e by (auto simp: GetSlotsFromSorted_def GetSlotFromSorted_def rs_def Let_def)
qed

section \<open>Properties\<close>

text \<open>
  C13. The batch sampler is the single-slot sampler applied to every slot index: merging the
  sorted draws with the cumulative weights gives each slot the address that the scan of the
  weights for that slot alone finds, whatever the weights are and even when their sum wraps
  around (the total is then still checked to be positive).
\<close>

theorem batch_sampling_pointwise:
  assumes "PrepareSortedEntries weights = (entries, tw)" and "0 < sint tw"
  shows "GetSlotsFromSorted appHash addr model entries tw n
    = map (GetSlotFromSorted appHash addr model entries tw) [0..<n]"
proof (rule nth_equalityI)
  show "length (GetSlotsFromSorted appHash addr model entries tw n)
      = length (map (GetSlotFromSorted appHash addr model entries tw) [0..<n])"
    using assms(2) by (simp add: GetSlotsFromSorted_def Let_def)
  fix i assume "i < length (GetSlotsFromSorted appHash addr model entries tw n)"
  then have "i < n"
    using assms(2) by (auto simp: GetSlotsFromSorted_def Let_def split: if_splits)
  then show "GetSlotsFromSorted appHash addr model entries tw n ! i
      = map (GetSlotFromSorted appHash addr model entries tw) [0..<n] ! i"
    using GetSlotsFromSorted_nth(1) [OF assms] by simp
qed

theorem batch_sampling_pointwise_witness:
  "PrepareSortedEntries [(''a'', 3), (''b'', 0), (''c'', 4)]
     = ([\<lparr>we_Address = ''a'', we_Weight = 3\<rparr>, \<lparr>we_Address = ''c'', we_Weight = 4\<rparr>], 7)
   \<and> GetSlotsFromSorted ''h'' ''p'' ''m'' [\<lparr>we_Address = ''a'', we_Weight = 3\<rparr>, \<lparr>we_Address = ''c'', we_Weight = 4\<rparr>] 7 16
     = map (GetSlotFromSorted ''h'' ''p'' ''m'' [\<lparr>we_Address = ''a'', we_Weight = 3\<rparr>, \<lparr>we_Address = ''c'', we_Weight = 4\<rparr>] 7) [0..<16]"
proof -
  have "PrepareSortedEntries [(''a'', 3), (''b'', 0), (''c'', 4)]
     = ([\<lparr>we_Address = ''a'', we_Weight = 3\<rparr>, \<lparr>we_Address = ''c'', we_Weight = 4\<rparr>], 7)"
    by (simp add: PrepareSortedEntries_def Let_def)
  moreover from this have "GetSlotsFromSorted ''h'' ''p'' ''m''
      [\<lparr>we_Address = ''a'', we_Weight = 3\<rparr>, \<lparr>we_Address = ''c'', we_Weight = 4\<rparr>] 7 16
    = map (GetSlotFromSorted ''h'' ''p'' ''m'' [\<lparr>we_Address = ''a'', we_Weight = 3\<rparr>, \<lparr>we_Address = ''c'', we_Weight = 4\<rparr>] 7) [0..<16]"
    by (rule batch_sampling_pointwise) simp
  ultimately show ?thesis by (rule conjI)
qed

text \<open>
  C14. Sampling never leaves a slot empty and never picks an address without positive weight:
  the sampler returns exactly the requested number of slots, each held by an address whose
  weight is positive.
\<close>

theorem sampled_slots_have_weight:
  assumes "PrepareSortedEntries weights = (entries, tw)" and "0 < sint tw"
  shows "length (GetSlotsFromSorted appHash addr model entries tw n) = n
    \<and> (\<forall>a \<in> set (GetSlotsFromSorted appHash addr model entries tw n).
         \<exists>w. (a, w) \<in> set weights \<and> 0 < sint w)"
proof
  show len: "length (GetSlotsFromSorted appHash addr model entries tw n) = n"
    using assms(2) by (simp add: GetSlotsFromSorted_def Let_def)
  have "\<exists>w. (we_Address e, w) \<in> set weights \<and> 0 < sint w" if "e \<in> set entries" for e
    using assms(1) that
    by (fastforce simp: PrepareSortedEntries_def Let_def not_le split: if_splits)
  moreover have "a \<in> we_Address ` set entries"
    if "a \<in> set (GetSlotsFromSorted appHash addr model entries tw n)" for a
  proof -
    obtain i where "i < n" "a = GetSlotsFromSorted appHash addr model entries tw n ! i"
      using \<open>a \<in> _\<close> len by (auto simp: in_set_conv_nth)
    then show ?thesis using GetSlotsFromSorted_nth [OF assms] by simp
  qed
  ultimately show "\<forall>a \<in> set (GetSlotsFromSorted appHash addr model entries tw n).
      \<exists>w. (a, w) \<in> set weights \<and> 0 < sint w"
    by blast
qed

theorem sampled_slots_have_weight_witness:
  "length (GetSlotsFromSorted ''h'' ''p'' ''m'' [\<lparr>we_Address = ''a'', we_Weight = 3\<rparr>] 3 16) = 16"
proof -
  have "PrepareSortedEntries [(''a'', 3), (''b'', 0)] = ([\<lparr>we_Address = ''a'', we_Weight = 3\<rparr>], 3)"
    by (simp add: PrepareSortedEntries_def Let_def)
  from sampled_slots_have_weight [OF this, of "''h''" "''p''" "''m''" 16] show ?thesis by simp
qed

end
