(* ===== verification/ChainState.thy ===== *)
theory ChainState
  imports Signing SlotSampling "HOL-Library.Product_Lexorder"
begin

text \<open>
  The part of the chain's inference module that devshard escrows touch
  (\<open>inference-chain/x/inference\<close>): the stored records, the environment, permissions, coins and
  bank transfers, participants and claim recipients. A message handler returns an error or
  the new state: the SDK discards the writes of a failed message. Writes to the key-value
  store do not fail. The bank, authz and address packages are third-party code and
  parameters of the model; a bank keeper is seen through the transfers it accepts, which
  \<^verbatim>\<open>bankLog\<close> records.
\<close>

section \<open>Errors\<close>

datatype chain_error =
    ErrNotAllowedEscrowCreator | ErrInvalidAddress | ErrEscrowNotFound | ErrParamsMissing
  | ErrAlreadySettled | ErrNotEscrowCreator | ErrVersionRequired | ErrNonceTooHigh
  | ErrVersionTooLong | ErrVersionNotApproved | ErrChainMarshal | ErrStateRootLength
  | ErrStateRootMismatch | ErrDuplicateSignature | ErrSlotOutOfRange | ErrRecoverAddress
  | ErrWrongSigner | ErrQuorum | ErrNoSlots | ErrDuplicateHostStats | ErrMissedExceedsAssigned
  | ErrInvalidExceedsCompleted | ErrTotalCostOverflow | ErrDebitExceedsEscrow
  | ErrEpochUnavailable | ErrEpochOutOfRange | ErrParticipantNotFound | ErrPayoutOverflow
  | ErrRemainderNotAllocated | ErrPayoutExceedsEscrow | ErrAmountTooLarge | ErrNegativeCoinBalance
  | ErrBankTransfer | ErrStatsOverflow | ErrStatusUpdate | ErrModelRequired | ErrAmountOutOfRange
  | ErrTooManyEscrows | ErrEpochGroupNotFound | ErrNoWeights | ErrCounterOverflow
  | ErrEpochNotFuture | ErrLookahead | ErrEmptyEntries

section \<open>Records\<close>

record DevshardEscrow =
  e_Id :: u64
  e_Creator :: string
  e_Amount :: u64
  e_Slots :: "string list"
  e_EpochIndex :: u64
  e_AppHash :: string
  e_Settled :: bool
  e_TokenPrice :: u64
  e_ModelId :: string
  e_CreateDevshardFee :: u64
  e_FeePerNonce :: u64
  e_InferenceSealGraceNonces :: u32
  e_InferenceSealGraceSeconds :: u32
  e_AutoSealEveryNNonces :: u32
  e_ValidationRate :: u32
  e_VoteThresholdFactor :: u32

text \<open>An approved version is a pointer to a record; \<open>None\<close> is the nil pointer, \<open>Some\<close> its name.\<close>

record DevshardEscrowParams =
  dp_MinAmount :: u64
  dp_MaxAmount :: u64
  dp_MaxEscrowsPerEpoch :: u32
  dp_GroupSize :: u32
  dp_AllowedCreatorAddresses :: "string list"
  dp_TokenPrice :: u64
  dp_ApprovedVersions :: "string option list"
  dp_MaxNonce :: u32
  dp_DevshardRequestsEnabled :: bool
  dp_DefaultInferenceSealGraceNonces :: u32
  dp_DefaultInferenceSealGraceSeconds :: u32
  dp_CreateDevshardFee :: u64
  dp_FeePerNonce :: u64
  dp_RefusalTimeout :: i64
  dp_ExecutionTimeout :: i64
  dp_ValidationRate :: u32
  dp_VoteThresholdFactor :: u32
  dp_DefaultAutoSealEveryNNonces :: u32

record DevshardHostEpochStats =
  he_Participant :: string
  he_EpochIndex :: u64
  he_Missed :: u32
  he_Invalid :: u32
  he_Cost :: u64
  he_RequiredValidations :: u32
  he_CompletedValidations :: u32
  he_EscrowCount :: u32

type_synonym Decimal = "i64 \<times> 32 word"

record CurrentEpochStats =
  es_InferenceCount :: u64
  es_MissedRequests :: u64
  es_EarnedCoins :: u64
  es_RewardedCoins :: u64
  es_BurnedCoins :: u64
  es_ValidatedInferences :: u64
  es_InvalidatedInferences :: u64
  es_InvalidLLR :: "Decimal option"
  es_InactiveLLR :: "Decimal option"
  es_ConfirmationPoCRatio :: "Decimal option"

definition NewCurrentEpochStats :: CurrentEpochStats where
  "NewCurrentEpochStats = \<lparr>es_InferenceCount = 0, es_MissedRequests = 0, es_EarnedCoins = 0,
     es_RewardedCoins = 0, es_BurnedCoins = 0, es_ValidatedInferences = 0,
     es_InvalidatedInferences = 0, es_InvalidLLR = Some (0, 0), es_InactiveLLR = Some (0, 0),
     es_ConfirmationPoCRatio = None\<rparr>"

text \<open>The fields of a participant that the modelled code reads or writes.\<close>

record Participant =
  pt_Index :: string
  pt_Address :: string
  pt_Status :: "32 word"
  pt_CoinBalance :: i64
  pt_ConsecutiveInvalidInferences :: i64
  pt_EpochsCompleted :: u32
  pt_CurrentEpochStats :: "CurrentEpochStats option"

text \<open>
  A transfer of base coins between an account and the module account, with its memo:
  \<open>SendCoinsFromAccountToModule\<close> and \<open>SendCoinsFromModuleToAccount\<close>.
\<close>

datatype BankOp =
    FromAccount bytes u64 string
  | ToAccount bytes u64 string

text \<open>
  The stores. \<open>DevshardParams\<close> is \<open>None\<close> when the parameters cannot be read, \<open>Some None\<close> when
  their devshard part is nil; \<open>EpochGroups\<close> holds the validation weights of an epoch group.
\<close>

record ChainState =
  Escrows :: "(u64, DevshardEscrow) kv"
  EscrowCounter :: "u64 option"
  EscrowsByEpoch :: "(u64 \<times> u64, unit) kv"
  EscrowEpochCount :: "(u64, u64) kv"
  HostEpochStats :: "(u64 \<times> bytes, DevshardHostEpochStats) kv"
  Participants :: "(bytes, Participant) kv"
  EffectiveEpochIndex :: "u64 option"
  ActiveParticipants :: "(u64 \<times> bytes) list"
  ClaimRecipients :: "(bytes \<times> u64, string) kv"
  ClaimRecipientsByEpoch :: "(u64 \<times> bytes, unit) kv"
  DevshardParams :: "DevshardEscrowParams option option"
  EpochGroups :: "(u64 \<times> string, (string \<times> i64) list) kv"
  DevshardPrunedEpoch :: "i64 option"
  bankLog :: "BankOp list"

text \<open>
  The environment of a message: cryptography and addresses, deterministic serialisation,
  authz grants, the bank, the hash of the previous block, and the recomputation of a
  participant's status (\<open>UpdateParticipantStatus\<close>, whose effects on the stores of this record
  are confined to the participant it is given).
\<close>

record chain_env = crypto_lib +
  chainMarshal :: "ProtoMsg \<Rightarrow> bytes option"
  Grants :: "string \<Rightarrow> string \<Rightarrow> string \<Rightarrow> nat option"
  bankFails :: "BankOp list \<Rightarrow> BankOp \<Rightarrow> bool"
  statusUpdate :: "ChainState \<Rightarrow> Participant \<Rightarrow> Participant option"
  HeaderAppHash :: bytes

section \<open>Coins and the bank\<close>

definition MaxInt64 :: nat where
  "MaxInt64 = 2 ^ 63 - 1"

text \<open>\<open>GetCoins\<close> on a converted unsigned amount: the upper half of the range is negative.\<close>

definition GetCoins :: "i64 \<Rightarrow> chain_error + u64" where
  "GetCoins coins = (if sint coins < 0 then Inl ErrNegativeCoinBalance else Inr coins)"

definition bankSend :: "chain_env \<Rightarrow> BankOp \<Rightarrow> ChainState \<Rightarrow> chain_error + ChainState" where
  "bankSend env bop st =
     (if bankFails env (bankLog st) bop then Inl ErrBankTransfer
      else Inr (st\<lparr>bankLog := bankLog st @ [bop]\<rparr>))"

fun paidOut :: "BankOp \<Rightarrow> nat" where
  "paidOut (ToAccount _ x _) = unat x"
| "paidOut (FromAccount _ _ _) = 0"

fun paidIn :: "BankOp \<Rightarrow> nat" where
  "paidIn (FromAccount _ x _) = unat x"
| "paidIn (ToAccount _ _ _) = 0"

section \<open>Parameters and permissions\<close>

definition DefaultDevshardInferenceSealGraceNonces :: "u32 \<Rightarrow> u32" where
  "DefaultDevshardInferenceSealGraceNonces groupSize =
     (let grace = groupSize * 10 in if grace < 20 then 20 else grace)"

definition DefaultDevshardEscrowParams :: DevshardEscrowParams where
  "DefaultDevshardEscrowParams =
     \<lparr>dp_MinAmount = 5000000000, dp_MaxAmount = 10000000000, dp_MaxEscrowsPerEpoch = 100,
      dp_GroupSize = 16, dp_AllowedCreatorAddresses = [], dp_TokenPrice = 1,
      dp_ApprovedVersions = [], dp_MaxNonce = 20000, dp_DevshardRequestsEnabled = True,
      dp_DefaultInferenceSealGraceNonces = DefaultDevshardInferenceSealGraceNonces 16,
      dp_DefaultInferenceSealGraceSeconds = 3600, dp_CreateDevshardFee = 10000,
      dp_FeePerNonce = 1000, dp_RefusalTimeout = 60, dp_ExecutionTimeout = 32 * 60,
      dp_ValidationRate = 1000, dp_VoteThresholdFactor = 50,
      dp_DefaultAutoSealEveryNNonces = 150\<rparr>"

definition GetDevshardEscrowParams :: "ChainState \<Rightarrow> DevshardEscrowParams" where
  "GetDevshardEscrowParams st =
     (case DevshardParams st of
        None \<Rightarrow> DefaultDevshardEscrowParams
      | Some None \<Rightarrow> DefaultDevshardEscrowParams
      | Some (Some p) \<Rightarrow> p)"

definition IsAllowedEscrowCreator :: "ChainState \<Rightarrow> string \<Rightarrow> bool" where
  "IsAllowedEscrowCreator st addr =
     (let ep = GetDevshardEscrowParams st in
      if dp_AllowedCreatorAddresses ep = [] then True
      else list_ex (\<lambda>a. a = addr) (dp_AllowedCreatorAddresses ep))"

definition checkEscrowAllowListPermission ::
  "chain_env \<Rightarrow> ChainState \<Rightarrow> bytes \<Rightarrow> chain_error + unit" where
  "checkEscrowAllowListPermission env st signer =
     (if IsAllowedEscrowCreator st (AccString env signer) then Inr ()
      else Inl ErrNotAllowedEscrowCreator)"

text \<open>\<open>CheckPermission\<close> with one required permission: some signer passes, or the last error.\<close>

fun CheckPermission ::
  "chain_env \<Rightarrow> (bytes \<Rightarrow> chain_error + unit) \<Rightarrow> string list \<Rightarrow> chain_error + unit
     \<Rightarrow> chain_error + unit" where
  "CheckPermission env checker [] err = err"
| "CheckPermission env checker (signer # signers) err =
     (case (case AccAddressFromBech32 env signer of
              None \<Rightarrow> Inl ErrInvalidAddress
            | Some signerAddr \<Rightarrow> checker signerAddr) of
        Inr _ \<Rightarrow> Inr ()
      | Inl e \<Rightarrow> CheckPermission env checker signers (Inl e))"

definition HasWarmKeyGrant :: "chain_env \<Rightarrow> string \<Rightarrow> string \<Rightarrow> bool" where
  "HasWarmKeyGrant env granter grantee =
     (case Grants env granter grantee ''/inference.inference.MsgClaimRewards'' of
        None \<Rightarrow> False | Some n \<Rightarrow> n > 0)"

section \<open>Participants\<close>

definition GetParticipant :: "chain_env \<Rightarrow> ChainState \<Rightarrow> string \<Rightarrow> Participant option" where
  "GetParticipant env st index =
     (case AccAddressFromBech32 env index of
        None \<Rightarrow> None
      | Some address \<Rightarrow> kv_get (Participants st) address)"

definition SetParticipant :: "chain_env \<Rightarrow> Participant \<Rightarrow> ChainState \<Rightarrow> chain_error + ChainState" where
  "SetParticipant env participant st =
     (case statusUpdate env st participant of
        None \<Rightarrow> Inl ErrStatusUpdate
      | Some p \<Rightarrow>
         (case AccAddressFromBech32 env (pt_Index p) of
            None \<Rightarrow> Inl ErrInvalidAddress
          | Some addr \<Rightarrow> Inr (st\<lparr>Participants := kv_set addr p (Participants st)\<rparr>)))"

definition ensureParticipantEpochStats :: "Participant \<Rightarrow> Participant" where
  "ensureParticipantEpochStats p =
     (case pt_CurrentEpochStats p of
        None \<Rightarrow> p\<lparr>pt_CurrentEpochStats := Some NewCurrentEpochStats\<rparr>
      | Some _ \<Rightarrow> p)"

definition AddToCoinBalance :: "Participant \<Rightarrow> u64 \<Rightarrow> chain_error + Participant" where
  "AddToCoinBalance participant amount =
     (if unat amount > MaxInt64 then Inl ErrAmountTooLarge
      else
        let p = ensureParticipantEpochStats participant
        in Inr (p\<lparr>pt_CoinBalance := pt_CoinBalance p + amount,
                  pt_CurrentEpochStats := map_option (\<lambda>s. s\<lparr>es_EarnedCoins := es_EarnedCoins s + amount\<rparr>)
                    (pt_CurrentEpochStats p)\<rparr>))"

section \<open>Claim recipients\<close>

definition GetClaimRecipientForEpoch :: "ChainState \<Rightarrow> bytes \<Rightarrow> u64 \<Rightarrow> string option" where
  "GetClaimRecipientForEpoch st participant epoch = kv_get (ClaimRecipients st) (participant, epoch)"

definition ResolveClaimRecipientAddress ::
  "chain_env \<Rightarrow> ChainState \<Rightarrow> string \<Rightarrow> u64 \<Rightarrow> chain_error + bytes" where
  "ResolveClaimRecipientAddress env st participant epoch =
     (case AccAddressFromBech32 env participant of
        None \<Rightarrow> Inl ErrInvalidAddress
      | Some participantAddr \<Rightarrow>
         (case GetClaimRecipientForEpoch st participantAddr epoch of
            None \<Rightarrow> Inr participantAddr
          | Some recipient \<Rightarrow>
             (case AccAddressFromBech32 env recipient of
                None \<Rightarrow> Inl ErrInvalidAddress
              | Some a \<Rightarrow> Inr a)))"

definition SetClaimRecipientForEpoch :: "bytes \<Rightarrow> u64 \<Rightarrow> string \<Rightarrow> ChainState \<Rightarrow> ChainState" where
  "SetClaimRecipientForEpoch participant epoch recipient st =
     st\<lparr>ClaimRecipients := kv_set (participant, epoch) recipient (ClaimRecipients st),
        ClaimRecipientsByEpoch := kv_set (epoch, participant) () (ClaimRecipientsByEpoch st)\<rparr>"

definition RemoveClaimRecipientForEpoch :: "bytes \<Rightarrow> u64 \<Rightarrow> ChainState \<Rightarrow> ChainState" where
  "RemoveClaimRecipientForEpoch participant epoch st =
     st\<lparr>ClaimRecipients := kv_del (participant, epoch) (ClaimRecipients st),
        ClaimRecipientsByEpoch := kv_del (epoch, participant) (ClaimRecipientsByEpoch st)\<rparr>"

definition MaxClaimRecipientLookahead :: u64 where
  "MaxClaimRecipientLookahead = 40"

definition applyClaimRecipientEntry ::
  "chain_env \<Rightarrow> bytes \<Rightarrow> u64 \<times> string \<Rightarrow> u64 \<Rightarrow> ChainState \<Rightarrow> chain_error + ChainState" where
  "applyClaimRecipientEntry env creatorAddr entry currentEpoch st =
     (let (epoch, recipient) = entry in
      if epoch \<le> currentEpoch then Inl ErrEpochNotFuture
      else if epoch > currentEpoch + MaxClaimRecipientLookahead then Inl ErrLookahead
      else if recipient \<noteq> [] \<and> AccAddressFromBech32 env recipient = None then Inl ErrInvalidAddress
      else if recipient = [] then Inr (RemoveClaimRecipientForEpoch creatorAddr epoch st)
      else Inr (SetClaimRecipientForEpoch creatorAddr epoch recipient st))"

fun applyClaimRecipientEntries ::
  "chain_env \<Rightarrow> bytes \<Rightarrow> u64 \<Rightarrow> (u64 \<times> string) list \<Rightarrow> ChainState \<Rightarrow> chain_error + ChainState" where
  "applyClaimRecipientEntries env creatorAddr currentEpoch [] st = Inr st"
| "applyClaimRecipientEntries env creatorAddr currentEpoch (entry # entries) st =
     bindE (applyClaimRecipientEntry env creatorAddr entry currentEpoch st)
       (applyClaimRecipientEntries env creatorAddr currentEpoch entries)"

text \<open>The participant permission: the signer is a known participant.\<close>

definition checkParticipantPermission ::
  "chain_env \<Rightarrow> ChainState \<Rightarrow> bytes \<Rightarrow> chain_error + unit" where
  "checkParticipantPermission env st signer =
     (if kv_get (Participants st) signer = None then Inl ErrParticipantNotFound else Inr ())"

definition SetClaimRecipients ::
  "chain_env \<Rightarrow> string \<Rightarrow> (u64 \<times> string) list \<Rightarrow> ChainState \<Rightarrow> chain_error + ChainState" where
  "SetClaimRecipients env creator entries st =
     bindE (CheckPermission env (checkParticipantPermission env st) [creator] (Inr ())) (\<lambda>_.
     case AccAddressFromBech32 env creator of
       None \<Rightarrow> Inl ErrInvalidAddress
     | Some creatorAddr \<Rightarrow>
        (case EffectiveEpochIndex st of
           None \<Rightarrow> Inl ErrEpochUnavailable
         | Some currentEpoch \<Rightarrow>
            if entries = [] then Inl ErrEmptyEntries
            else applyClaimRecipientEntries env creatorAddr currentEpoch entries st))"

end
