(* ===== verification/ChainEscrow.thy ===== *)
theory ChainEscrow
  imports ChainState
begin

text \<open>
  Devshard escrows on chain: the store (\<open>x/inference/keeper/devshard_escrow.go\<close>), the session
  parameters snapshotted at creation (\<open>x/inference/types/devshard_escrow_*.go\<close>) and the creation
  of an escrow (\<open>msg_server_create_devshard_escrow.go\<close>).
\<close>

section \<open>The store\<close>

definition GetDevshardEscrow :: "ChainState \<Rightarrow> u64 \<Rightarrow> DevshardEscrow option" where
  "GetDevshardEscrow st i = kv_get (Escrows st) i"

definition SetDevshardEscrow :: "DevshardEscrow \<Rightarrow> ChainState \<Rightarrow> ChainState" where
  "SetDevshardEscrow escrow st = st\<lparr>Escrows := kv_set (e_Id escrow) escrow (Escrows st)\<rparr>"

definition GetDevshardEscrowEpochCount :: "ChainState \<Rightarrow> u64 \<Rightarrow> u64" where
  "GetDevshardEscrowEpochCount st epochIndex =
     (case kv_get (EscrowEpochCount st) epochIndex of None \<Rightarrow> 0 | Some v \<Rightarrow> v)"

definition IncrementDevshardEscrowEpochCount :: "u64 \<Rightarrow> ChainState \<Rightarrow> ChainState" where
  "IncrementDevshardEscrowEpochCount epochIndex st =
     st\<lparr>EscrowEpochCount :=
        kv_set epochIndex (GetDevshardEscrowEpochCount st epochIndex + 1) (EscrowEpochCount st)\<rparr>"

definition StoreDevshardEscrow :: "DevshardEscrow \<Rightarrow> u64 \<Rightarrow> ChainState \<Rightarrow> u64 \<times> ChainState" where
  "StoreDevshardEscrow escrow nextID st =
     (let escrow = escrow\<lparr>e_Id := nextID\<rparr>;
          st = st\<lparr>EscrowCounter := Some nextID,
                  Escrows := kv_set (e_Id escrow) escrow (Escrows st),
                  EscrowsByEpoch := kv_set (e_EpochIndex escrow, e_Id escrow) () (EscrowsByEpoch st)\<rparr>
      in (e_Id escrow, IncrementDevshardEscrowEpochCount (e_EpochIndex escrow) st))"

section \<open>Parameters snapshotted at creation\<close>

text \<open>The parameters are a pointer; \<open>None\<close> is nil.\<close>

definition DevshardInferenceSealGraceNoncesForCreate ::
  "DevshardEscrowParams option \<Rightarrow> u32 \<Rightarrow> u32" where
  "DevshardInferenceSealGraceNoncesForCreate ep slotCount =
     (case ep of
        None \<Rightarrow> DefaultDevshardInferenceSealGraceNonces slotCount
      | Some p \<Rightarrow>
         if dp_DefaultInferenceSealGraceNonces p > 0 then dp_DefaultInferenceSealGraceNonces p
         else DefaultDevshardInferenceSealGraceNonces slotCount)"

definition DevshardInferenceSealGraceSecondsForCreate :: "DevshardEscrowParams option \<Rightarrow> u32" where
  "DevshardInferenceSealGraceSecondsForCreate ep =
     (case ep of
        None \<Rightarrow> 3600
      | Some p \<Rightarrow>
         if dp_DefaultInferenceSealGraceSeconds p > 0 then dp_DefaultInferenceSealGraceSeconds p
         else 3600)"

definition DevshardAutoSealEveryNNoncesForCreate :: "DevshardEscrowParams option \<Rightarrow> u32" where
  "DevshardAutoSealEveryNNoncesForCreate ep =
     (case ep of
        None \<Rightarrow> 150
      | Some p \<Rightarrow>
         if dp_DefaultAutoSealEveryNNonces p > 0 then dp_DefaultAutoSealEveryNNonces p else 150)"

definition DevshardValidationRateForCreate :: "DevshardEscrowParams option \<Rightarrow> u32" where
  "DevshardValidationRateForCreate ep =
     (case ep of None \<Rightarrow> 1000 | Some p \<Rightarrow> if dp_ValidationRate p = 0 then 1000 else dp_ValidationRate p)"

section \<open>Creation\<close>

record MsgCreateDevshardEscrow =
  mc_Creator :: string
  mc_Amount :: u64
  mc_ModelId :: string

definition newEscrow ::
  "MsgCreateDevshardEscrow \<Rightarrow> DevshardEscrowParams \<Rightarrow> u64 \<Rightarrow> string \<Rightarrow> string list \<Rightarrow> DevshardEscrow" where
  "newEscrow msg ep epochIndex appHash slots =
     \<lparr>e_Id = 0, e_Creator = mc_Creator msg, e_Amount = mc_Amount msg, e_Slots = slots,
      e_EpochIndex = epochIndex, e_AppHash = appHash, e_Settled = False,
      e_TokenPrice = dp_TokenPrice ep, e_ModelId = mc_ModelId msg,
      e_CreateDevshardFee = dp_CreateDevshardFee ep, e_FeePerNonce = dp_FeePerNonce ep,
      e_InferenceSealGraceNonces =
        DevshardInferenceSealGraceNoncesForCreate (Some ep) (of_nat (length slots)),
      e_InferenceSealGraceSeconds = DevshardInferenceSealGraceSecondsForCreate (Some ep),
      e_AutoSealEveryNNonces = DevshardAutoSealEveryNNoncesForCreate (Some ep),
      e_ValidationRate = DevshardValidationRateForCreate (Some ep),
      e_VoteThresholdFactor = 0\<rparr>"

definition CreateDevshardEscrow ::
  "chain_env \<Rightarrow> MsgCreateDevshardEscrow \<Rightarrow> ChainState \<Rightarrow> chain_error + (u64 \<times> ChainState)" where
  "CreateDevshardEscrow env msg st =
     bindE (CheckPermission env (checkEscrowAllowListPermission env st) [mc_Creator msg] (Inr ())) (\<lambda>_.
     if mc_ModelId msg = [] then Inl ErrModelRequired
     else
       let ep = GetDevshardEscrowParams st in
       if mc_Amount msg < dp_MinAmount ep \<or> mc_Amount msg > dp_MaxAmount ep then Inl ErrAmountOutOfRange
       else case EffectiveEpochIndex st of
         None \<Rightarrow> Inl ErrEpochUnavailable
       | Some epochIndex \<Rightarrow>
          if GetDevshardEscrowEpochCount st epochIndex \<ge> ucast (dp_MaxEscrowsPerEpoch ep)
          then Inl ErrTooManyEscrows
          else case kv_get (EpochGroups st) (epochIndex, mc_ModelId msg) of
            None \<Rightarrow> Inl ErrEpochGroupNotFound
          | Some validationWeights \<Rightarrow>
             if validationWeights = [] then Inl ErrNoWeights
             else
               let weights = foldl (\<lambda>m (a, w). kv_set a w m) [] validationWeights;
                   (sortedEntries, totalWeight) = PrepareSortedEntries weights
               in if sint totalWeight \<le> 0 then Inl ErrNoWeights
                  else
                    let appHash = hex_string (HeaderAppHash env);
                        counter = (case EscrowCounter st of None \<Rightarrow> 0 | Some c \<Rightarrow> c)
                    in if counter = maxU64 then Inl ErrCounterOverflow
                       else
                         let nextID = counter + 1;
                             slots = GetSlotsFromSorted appHash
                               (''devshard_escrow:'' @ dec_nat (unat nextID)) (mc_ModelId msg)
                               sortedEntries totalWeight (unat (dp_GroupSize ep))
                         in case AccAddressFromBech32 env (mc_Creator msg) of
                              None \<Rightarrow> Inl ErrInvalidAddress
                            | Some creatorAddr \<Rightarrow>
                               bindE (GetCoins (mc_Amount msg)) (\<lambda>coins.
                               bindE (bankSend env (FromAccount creatorAddr coins ''devshard_escrow_lock'') st)
                                 (\<lambda>st. Inr (StoreDevshardEscrow (newEscrow msg ep epochIndex appHash slots)
                                             nextID st))))"

end
