(* ===== verification/ChainSettlement.thy ===== *)
theory ChainSettlement
  imports ChainEscrow
begin

text \<open>
  The settlement of a devshard escrow on chain: the verification of a settlement proof
  (\<open>x/inference/keeper/devshard_settlement.go\<close>), the aggregation of host statistics
  (\<open>devshard_host_stats.go\<close>) and the handler that pays the validators and refunds the creator
  (\<open>msg_server_settle_devshard_escrow.go\<close>).
\<close>

section \<open>The message\<close>

record SettlementHostStats =
  sh_SlotId :: u32
  sh_Missed :: u32
  sh_Invalid :: u32
  sh_Cost :: u64
  sh_RequiredValidations :: u32
  sh_CompletedValidations :: u32

record MsgSettleDevshardEscrow =
  ms_Settler :: string
  ms_EscrowId :: u64
  ms_Version :: string
  ms_StateRoot :: bytes
  ms_Nonce :: u64
  ms_RestHash :: bytes
  ms_HostStats :: "SettlementHostStats list"
  ms_Signatures :: "(u32 \<times> bytes) list"
  ms_Fees :: u64

section \<open>Verification\<close>

definition validateDevshardSettlementVersionApproved ::
  "string option list \<Rightarrow> string \<Rightarrow> chain_error + unit" where
  "validateDevshardSettlementVersionApproved approved version =
     (if approved = [] then Inr ()
      else if list_ex (\<lambda>v. v = Some version) approved then Inr ()
      else Inl ErrVersionNotApproved)"

definition DevshardQuorumFor :: "nat \<Rightarrow> nat" where
  "DevshardQuorumFor groupSize = 2 * groupSize div 3 + 1"

definition devshardAssignedUpperBoundForSlot :: "u64 \<Rightarrow> u64 \<Rightarrow> u32 \<Rightarrow> chain_error + u64" where
  "devshardAssignedUpperBoundForSlot latestNonce slotCount slotID =
     (if slotCount = 0 then Inl ErrNoSlots
      else if ucast slotID \<ge> slotCount then Inl ErrSlotOutOfRange
      else
        let firstAssignedNonce = (if slotID = 0 then slotCount else ucast slotID)
        in if latestNonce < firstAssignedNonce then Inr 0
           else Inr (1 + (latestNonce - firstAssignedNonce) div slotCount))"

definition settlement_proto :: "SettlementHostStats \<Rightarrow> HostStatsProto" where
  "settlement_proto hs =
     \<lparr>hp_SlotId = sh_SlotId hs, hp_Missed = sh_Missed hs, hp_Invalid = sh_Invalid hs,
      hp_Cost = sh_Cost hs, hp_RequiredValidations = sh_RequiredValidations hs,
      hp_CompletedValidations = sh_CompletedValidations hs\<rparr>"

definition ComputeDevshardHostStatsHash ::
  "chain_env \<Rightarrow> SettlementHostStats list \<Rightarrow> chain_error + bytes" where
  "ComputeDevshardHostStatsHash env hostStats =
     (let entries = sort_key hp_SlotId (map settlement_proto hostStats) in
      case chainMarshal env (PHostStatsMap entries) of
        None \<Rightarrow> Inl ErrChainMarshal
      | Some data \<Rightarrow> Inr (sha256 data))"

fun countSlotVotes ::
  "chain_env \<Rightarrow> string list \<Rightarrow> (string \<Rightarrow> string \<Rightarrow> bool) option \<Rightarrow> bytes \<Rightarrow> (u32 \<times> bytes) list
     \<Rightarrow> u32 list \<Rightarrow> nat \<Rightarrow> chain_error + nat" where
  "countSlotVotes env slots isWarmKey sigHash [] seen votes = Inr votes"
| "countSlotVotes env slots isWarmKey sigHash ((slotId, sig) # sigs) seen votes =
     (if slotId \<in> set seen then Inl ErrDuplicateSignature
      else if unat slotId \<ge> length slots then Inl ErrSlotOutOfRange
      else
        let expectedAddr = slots ! unat slotId
        in case recoverCosmosAddress env sigHash sig of
             None \<Rightarrow> Inl ErrRecoverAddress
           | Some recovered \<Rightarrow>
              if AccString env recovered \<noteq> expectedAddr
                 \<and> (case isWarmKey of None \<Rightarrow> True
                    | Some f \<Rightarrow> \<not> f expectedAddr (AccString env recovered))
              then Inl ErrWrongSigner
              else countSlotVotes env slots isWarmKey sigHash sigs (slotId # seen) (votes + 1))"

fun sumHostStats ::
  "u64 \<Rightarrow> u64 \<Rightarrow> SettlementHostStats list \<Rightarrow> u32 list \<Rightarrow> u64 \<Rightarrow> chain_error + u64" where
  "sumHostStats nonce slotCount [] seen totalCost = Inr totalCost"
| "sumHostStats nonce slotCount (hs # hss) seen totalCost =
     (if sh_SlotId hs \<in> set seen then Inl ErrDuplicateHostStats
      else bindE (devshardAssignedUpperBoundForSlot nonce slotCount (sh_SlotId hs)) (\<lambda>assignedToSlot.
        if ucast (sh_Missed hs) > assignedToSlot then Inl ErrMissedExceedsAssigned
        else
          let completed = assignedToSlot - ucast (sh_Missed hs)
          in if ucast (sh_Invalid hs) > completed then Inl ErrInvalidExceedsCompleted
             else
               let (nextTotalCost, carry) = add64 totalCost (sh_Cost hs)
               in if carry then Inl ErrTotalCostOverflow
                  else sumHostStats nonce slotCount hss (sh_SlotId hs # seen) nextTotalCost))"

definition settlementRoot :: "bytes \<Rightarrow> MsgSettleDevshardEscrow \<Rightarrow> bytes" where
  "settlementRoot hostStatsHash msg =
     sha256 (hostStatsHash @ be64 (ms_Fees msg) @ ms_RestHash msg
       @ sha256 (string_bytes (ms_Version msg)) @ [2])"

definition VerifyDevshardSettlement ::
  "chain_env \<Rightarrow> DevshardEscrow \<Rightarrow> MsgSettleDevshardEscrow \<Rightarrow> DevshardEscrowParams option
     \<Rightarrow> (string \<Rightarrow> string \<Rightarrow> bool) option \<Rightarrow> chain_error + unit" where
  "VerifyDevshardSettlement env escrow msg prms isWarmKey =
     (case prms of
        None \<Rightarrow> Inl ErrParamsMissing
      | Some p \<Rightarrow>
         if e_Settled escrow then Inl ErrAlreadySettled
         else if ms_Settler msg \<noteq> e_Creator escrow then Inl ErrNotEscrowCreator
         else if ms_Version msg = [] then Inl ErrVersionRequired
         else if ms_Nonce msg > ucast (dp_MaxNonce p) then Inl ErrNonceTooHigh
         else if length (ms_Version msg) > 128 then Inl ErrVersionTooLong
         else bindE (validateDevshardSettlementVersionApproved (dp_ApprovedVersions p) (ms_Version msg)) (\<lambda>_.
           bindE (ComputeDevshardHostStatsHash env (ms_HostStats msg)) (\<lambda>hostStatsHash.
           let expectedRoot = settlementRoot hostStatsHash msg in
           if length (ms_StateRoot msg) \<noteq> 32 then Inl ErrStateRootLength
           else if expectedRoot \<noteq> ms_StateRoot msg then Inl ErrStateRootMismatch
           else case chainMarshal env
                  (PStateSignature (ms_StateRoot msg) (dec_nat (unat (e_Id escrow))) (ms_Nonce msg)) of
             None \<Rightarrow> Inl ErrChainMarshal
           | Some sigData \<Rightarrow>
              bindE (countSlotVotes env (e_Slots escrow) isWarmKey (sha256 sigData)
                       (ms_Signatures msg) [] 0) (\<lambda>slotVotes.
              if slotVotes < DevshardQuorumFor (length (e_Slots escrow)) then Inl ErrQuorum
              else
                let slotCount = of_nat (length (e_Slots escrow)) :: u64 in
                if slotCount = 0 then Inl ErrNoSlots
                else bindE (sumHostStats (ms_Nonce msg) slotCount (ms_HostStats msg) [] 0) (\<lambda>totalCost.
                  let (totalDebit, carry) = add64 totalCost (ms_Fees msg)
                  in if carry then Inl ErrTotalCostOverflow
                     else if totalDebit > e_Amount escrow then Inl ErrDebitExceedsEscrow
                     else Inr ())))))"

section \<open>Host statistics\<close>

definition UpdateDevshardHostEpochStats ::
  "chain_env \<Rightarrow> u64 \<Rightarrow> bytes \<Rightarrow> SettlementHostStats \<Rightarrow> bool \<Rightarrow> ChainState \<Rightarrow> chain_error + ChainState" where
  "UpdateDevshardHostEpochStats env epochIndex participant slotStats incrementEscrowCount st =
     (let existing = (case kv_get (HostEpochStats st) (epochIndex, participant) of
            Some s \<Rightarrow> s
          | None \<Rightarrow> \<lparr>he_Participant = AccString env participant, he_EpochIndex = epochIndex,
              he_Missed = 0, he_Invalid = 0, he_Cost = 0, he_RequiredValidations = 0,
              he_CompletedValidations = 0, he_EscrowCount = 0\<rparr>)
      in if he_Missed existing > maxU32 - sh_Missed slotStats then Inl ErrStatsOverflow
         else if he_Invalid existing > maxU32 - sh_Invalid slotStats then Inl ErrStatsOverflow
         else if he_Cost existing > maxU64 - sh_Cost slotStats then Inl ErrStatsOverflow
         else if he_RequiredValidations existing > maxU32 - sh_RequiredValidations slotStats
         then Inl ErrStatsOverflow
         else if he_CompletedValidations existing > maxU32 - sh_CompletedValidations slotStats
         then Inl ErrStatsOverflow
         else if incrementEscrowCount \<and> he_EscrowCount existing = maxU32 then Inl ErrStatsOverflow
         else
           let s = existing
                 \<lparr>he_Missed := he_Missed existing + sh_Missed slotStats,
                  he_Invalid := he_Invalid existing + sh_Invalid slotStats,
                  he_Cost := he_Cost existing + sh_Cost slotStats,
                  he_RequiredValidations := he_RequiredValidations existing + sh_RequiredValidations slotStats,
                  he_CompletedValidations := he_CompletedValidations existing + sh_CompletedValidations slotStats,
                  he_EscrowCount := (if incrementEscrowCount then he_EscrowCount existing + 1
                                     else he_EscrowCount existing)\<rparr>
           in Inr (st\<lparr>HostEpochStats := kv_set (epochIndex, participant) s (HostEpochStats st)\<rparr>))"

definition AggregateDevshardHostStatsIntoCurrentEpochStats ::
  "Participant \<Rightarrow> SettlementHostStats \<Rightarrow> u64 \<Rightarrow> chain_error + Participant" where
  "AggregateDevshardHostStatsIntoCurrentEpochStats participant slotStats assignedPerSlot =
     (let p = ensureParticipantEpochStats participant;
          cs = (case pt_CurrentEpochStats p of Some s \<Rightarrow> s | None \<Rightarrow> NewCurrentEpochStats);
          missed = ucast (sh_Missed slotStats) :: u64;
          invalid = ucast (sh_Invalid slotStats) :: u64
      in if missed > assignedPerSlot then Inl ErrMissedExceedsAssigned
         else
           let completed = assignedPerSlot - missed
           in if invalid > completed then Inl ErrInvalidExceedsCompleted
              else
                let validated = completed - invalid;
                    (nextMissed, c1) = add64 (es_MissedRequests cs) missed;
                    (nextInvalidated, c2) = add64 (es_InvalidatedInferences cs) invalid;
                    (nextInferenceCount, c3) = add64 (es_InferenceCount cs) completed;
                    (nextValidated, c4) = add64 (es_ValidatedInferences cs) validated
                in if c1 \<or> c2 \<or> c3 \<or> c4 then Inl ErrStatsOverflow
                   else Inr (p\<lparr>pt_CurrentEpochStats := Some (cs
                     \<lparr>es_MissedRequests := nextMissed, es_InvalidatedInferences := nextInvalidated,
                      es_InferenceCount := nextInferenceCount,
                      es_ValidatedInferences := nextValidated\<rparr>)\<rparr>))"

section \<open>Payouts\<close>

text \<open>
  The participants of the escrow, in the order of their sorted addresses, each with whether the
  settlement counts towards its current epoch.
\<close>

fun loadParticipants ::
  "chain_env \<Rightarrow> DevshardEscrow \<Rightarrow> u64 \<Rightarrow> ChainState \<Rightarrow> string list
     \<Rightarrow> chain_error + ((string, Participant) kv \<times> (string, bool) kv)" where
  "loadParticipants env escrow currentEpochIndex st [] = Inr ([], [])"
| "loadParticipants env escrow currentEpochIndex st (addr # addrs) =
     (case GetParticipant env st addr of
        None \<Rightarrow> Inl ErrParticipantNotFound
      | Some participant \<Rightarrow>
         bindE (if e_EpochIndex escrow \<noteq> currentEpochIndex then Inr False
                else case AccAddressFromBech32 env addr of
                  None \<Rightarrow> Inl ErrInvalidAddress
                | Some participantAddr \<Rightarrow>
                    Inr ((currentEpochIndex, participantAddr) \<in> set (ActiveParticipants st)
                         \<and> e_EpochIndex escrow = currentEpochIndex)) (\<lambda>treatAsCurrent.
         bindE (loadParticipants env escrow currentEpochIndex st addrs) (\<lambda>(ps, cs).
           Inr (kv_set addr participant ps, kv_set addr treatAsCurrent cs))))"

fun validatorPayouts ::
  "string list \<Rightarrow> u64 \<Rightarrow> SettlementHostStats list \<Rightarrow> (string, u64) kv \<Rightarrow> u64
     \<Rightarrow> chain_error + ((string, u64) kv \<times> u64)" where
  "validatorPayouts slots feePerSlot [] payouts remainderFees = Inr (payouts, remainderFees)"
| "validatorPayouts slots feePerSlot (hs # hss) payouts remainderFees =
     (if unat (sh_SlotId hs) \<ge> length slots then Inl ErrSlotOutOfRange
      else
        let addr = slots ! unat (sh_SlotId hs);
            (p1, carry) = add64 (case kv_get payouts addr of None \<Rightarrow> 0 | Some v \<Rightarrow> v) (sh_Cost hs)
        in if carry then Inl ErrPayoutOverflow
           else
             let (p2, carry) = add64 p1 feePerSlot
             in if carry then Inl ErrPayoutOverflow
                else if remainderFees > 0
                then
                  let (p3, carry) = add64 p2 1
                  in if carry then Inl ErrPayoutOverflow
                     else validatorPayouts slots feePerSlot hss (kv_set addr p3 payouts) (remainderFees - 1)
                else validatorPayouts slots feePerSlot hss (kv_set addr p2 payouts) remainderFees)"

fun sumPayouts :: "(string, u64) kv \<Rightarrow> u64 \<Rightarrow> chain_error + u64" where
  "sumPayouts [] totalPayout = Inr totalPayout"
| "sumPayouts ((addr, payout) # ps) totalPayout =
     (let (next, carry) = add64 totalPayout payout
      in if carry then Inl ErrPayoutOverflow else sumPayouts ps next)"

definition payCoinsDirectly ::
  "chain_env \<Rightarrow> u64 \<Rightarrow> bytes \<Rightarrow> ChainState \<Rightarrow> chain_error + ChainState" where
  "payCoinsDirectly env payout recipientAddr st =
     (if unat payout > MaxInt64 then Inl ErrAmountTooLarge
      else bindE (GetCoins payout) (\<lambda>coins.
        bankSend env (ToAccount recipientAddr coins ''devshard_escrow_payment'') st))"

text \<open>
  The loop over the slots that pays each validator once; participants are updated in memory
  (\<open>participantByAddr\<close>) and remembered as touched.
\<close>

fun payValidators ::
  "chain_env \<Rightarrow> DevshardEscrow \<Rightarrow> (string, u64) kv \<Rightarrow> (string, bool) kv \<Rightarrow> string list \<Rightarrow> string list
     \<Rightarrow> (string, Participant) kv \<times> string list \<times> ChainState
     \<Rightarrow> chain_error + ((string, Participant) kv \<times> string list \<times> ChainState)" where
  "payValidators env escrow payouts current [] paid s = Inr s"
| "payValidators env escrow payouts current (addr # slots) paid (parts, touched, st) =
     (case kv_get payouts addr of
        None \<Rightarrow> payValidators env escrow payouts current slots paid (parts, touched, st)
      | Some payout \<Rightarrow>
         if payout = 0 \<or> addr \<in> set paid
         then payValidators env escrow payouts current slots paid (parts, touched, st)
         else if kv_get current addr = Some True
         then (case kv_get parts addr of
                 None \<Rightarrow> Inl ErrParticipantNotFound
               | Some participant \<Rightarrow>
                  bindE (AddToCoinBalance participant payout) (\<lambda>p.
                    payValidators env escrow payouts current slots (addr # paid)
                      (kv_set addr p parts, addr # touched, st)))
         else bindE (ResolveClaimRecipientAddress env st addr (e_EpochIndex escrow)) (\<lambda>recipientAddr.
                bindE (payCoinsDirectly env payout recipientAddr st) (\<lambda>st1.
                  payValidators env escrow payouts current slots (addr # paid) (parts, touched, st1))))"

definition refundCreator ::
  "chain_env \<Rightarrow> DevshardEscrow \<Rightarrow> u64 \<Rightarrow> ChainState \<Rightarrow> chain_error + ChainState" where
  "refundCreator env escrow remainder st =
     (if remainder > 0
      then if unat remainder > MaxInt64 then Inl ErrAmountTooLarge
           else case AccAddressFromBech32 env (e_Creator escrow) of
             None \<Rightarrow> Inl ErrInvalidAddress
           | Some creatorAddr \<Rightarrow>
              bindE (GetCoins remainder) (\<lambda>coins.
                bankSend env (ToAccount creatorAddr coins ''devshard_escrow_refund'') st)
      else Inr st)"

fun aggregateStats ::
  "chain_env \<Rightarrow> DevshardEscrow \<Rightarrow> u64 \<Rightarrow> (string, bool) kv \<Rightarrow> SettlementHostStats list \<Rightarrow> string list
     \<Rightarrow> (string, Participant) kv \<times> string list \<times> ChainState
     \<Rightarrow> chain_error + ((string, Participant) kv \<times> string list \<times> ChainState)" where
  "aggregateStats env escrow nonce current [] seen s = Inr s"
| "aggregateStats env escrow nonce current (hs # hss) seen (parts, touched, st) =
     (let addr = e_Slots escrow ! unat (sh_SlotId hs)
      in case AccAddressFromBech32 env addr of
           None \<Rightarrow> Inl ErrInvalidAddress
         | Some participantAddr \<Rightarrow>
            bindE (UpdateDevshardHostEpochStats env (e_EpochIndex escrow) participantAddr hs
                     (addr \<notin> set seen) st) (\<lambda>st1.
            if kv_get current addr = Some True
            then (case kv_get parts addr of
                    None \<Rightarrow> Inl ErrParticipantNotFound
                  | Some participant \<Rightarrow>
                     bindE (devshardAssignedUpperBoundForSlot nonce (of_nat (length (e_Slots escrow)))
                              (sh_SlotId hs)) (\<lambda>assignedToSlot.
                     bindE (AggregateDevshardHostStatsIntoCurrentEpochStats participant hs assignedToSlot) (\<lambda>p.
                       aggregateStats env escrow nonce current hss (addr # seen)
                         (kv_set addr p parts, addr # touched, st1))))
            else aggregateStats env escrow nonce current hss (addr # seen) (parts, touched, st1)))"

fun saveParticipants ::
  "chain_env \<Rightarrow> (string, Participant) kv \<Rightarrow> string list \<Rightarrow> ChainState \<Rightarrow> chain_error + ChainState" where
  "saveParticipants env parts [] st = Inr st"
| "saveParticipants env parts (addr # addrs) st =
     (case kv_get parts addr of
        None \<Rightarrow> Inl ErrParticipantNotFound
      | Some p \<Rightarrow> bindE (SetParticipant env p st) (saveParticipants env parts addrs))"

section \<open>The handler\<close>

definition SettleDevshardEscrow ::
  "chain_env \<Rightarrow> MsgSettleDevshardEscrow \<Rightarrow> ChainState \<Rightarrow> chain_error + ChainState" where
  "SettleDevshardEscrow env msg st =
     bindE (CheckPermission env (checkEscrowAllowListPermission env st) [ms_Settler msg] (Inr ())) (\<lambda>_.
     case GetDevshardEscrow st (ms_EscrowId msg) of
       None \<Rightarrow> Inl ErrEscrowNotFound
     | Some escrow \<Rightarrow>
        (case DevshardParams st of
           None \<Rightarrow> Inl ErrParamsMissing
         | Some None \<Rightarrow> Inl ErrParamsMissing
         | Some (Some p) \<Rightarrow>
            bindE (VerifyDevshardSettlement env escrow msg (Some p) (Some (HasWarmKeyGrant env))) (\<lambda>_.
            if e_Slots escrow = [] then Inl ErrNoSlots
            else case EffectiveEpochIndex st of
              None \<Rightarrow> Inl ErrEpochUnavailable
            | Some currentEpochIndex \<Rightarrow>
               if currentEpochIndex < e_EpochIndex escrow \<or> currentEpochIndex > e_EpochIndex escrow + 1
               then Inl ErrEpochOutOfRange
               else
                 let uniqueAddrs = sort (remdups (e_Slots escrow)) in
                 bindE (loadParticipants env escrow currentEpochIndex st uniqueAddrs) (\<lambda>(parts, current).
                 let allSlots = of_nat (length (e_Slots escrow)) :: u64;
                     feePerSlot = ms_Fees msg div allSlots;
                     remainderFees = ms_Fees msg mod allSlots
                 in
                 bindE (validatorPayouts (e_Slots escrow) feePerSlot (ms_HostStats msg) [] remainderFees)
                   (\<lambda>(payouts, left).
                 if left \<noteq> 0 then Inl ErrRemainderNotAllocated
                 else bindE (sumPayouts payouts 0) (\<lambda>totalPayout.
                 if totalPayout > e_Amount escrow then Inl ErrPayoutExceedsEscrow
                 else bindE (payValidators env escrow payouts current (e_Slots escrow) [] (parts, [], st))
                   (\<lambda>(parts, touched, st).
                 bindE (refundCreator env escrow (e_Amount escrow - totalPayout) st) (\<lambda>st.
                 bindE (aggregateStats env escrow (ms_Nonce msg) current (ms_HostStats msg) []
                          (parts, touched, st)) (\<lambda>(parts, touched, st).
                 bindE (saveParticipants env parts (sort (remdups touched)) st) (\<lambda>st.
                 Inr (SetDevshardEscrow (escrow\<lparr>e_Settled := True\<rparr>) st)))))))))))"

end
