(* ===== verification/ChainVerify.thy ===== *)
theory ChainVerify
  imports ChainSettlement
begin

text \<open>
  What the verification of a settlement proof accepts: the exact meaning of its loops (distinct
  signed slots, distinct host statistics within the nonces assigned to the slot, sums that do
  not wrap) and of \<open>VerifyDevshardSettlement\<close> as a whole.
\<close>

section \<open>Nonces assigned to a slot\<close>

lemma residues_from:
  fixes n f L :: nat
  assumes "0 < n" and "f \<le> n" and "0 < f" and "f \<le> L"
  shows "{k \<in> {1..L}. k mod n = f mod n} = (\<lambda>j. f + j * n) ` {0..(L - f) div n}"
proof (intro set_eqI iffI)
  fix k assume "k \<in> {k \<in> {1..L}. k mod n = f mod n}"
  then have k: "1 \<le> k" "k \<le> L" "k mod n = f mod n" by simp_all
  have "f \<le> k"
  proof (cases "f = n")
    case True
    then have "n dvd k" using k(3) by auto
    with True k(1) show ?thesis by (simp add: dvd_imp_le)
  next
    case False
    with assms(2) k(3) have "k mod n = f" by simp
    then show ?thesis by (metis mod_less_eq_dividend)
  qed
  then have "n dvd k - f"
    using k(3) mod_eq_dvd_iff_nat [of f k n] by simp
  then obtain j where "k - f = n * j" ..
  then have j: "k = f + j * n"
    using \<open>f \<le> k\<close> by (simp add: mult.commute)
  then have "j * n \<le> L - f"
    using k(2) by simp
  then have "j \<le> (L - f) div n"
    using assms(1) by (simp add: less_eq_div_iff_mult_less_eq)
  then show "k \<in> (\<lambda>j. f + j * n) ` {0..(L - f) div n}"
    using j by (intro image_eqI [where x = j]) simp_all
next
  fix k assume "k \<in> (\<lambda>j. f + j * n) ` {0..(L - f) div n}"
  then obtain j where j: "k = f + j * n" and "j \<in> {0..(L - f) div n}"
    by (rule imageE)
  then have "j * n \<le> L - f"
    using assms(1) by (simp add: less_eq_div_iff_mult_less_eq)
  then have "f + j * n \<le> L" using assms(4) by simp
  then show "k \<in> {k \<in> {1..L}. k mod n = f mod n}" unfolding j using assms(3) by simp
qed

lemma card_residues:
  fixes n s L :: nat
  assumes "0 < n" and "s < n"
  defines "f \<equiv> if s = 0 then n else s"
  shows "card {k \<in> {1..L}. k mod n = s} = (if L < f then 0 else 1 + (L - f) div n)"
proof (cases "L < f")
  case True
  have "{k \<in> {1..L}. k mod n = s} = {}"
    using True assms(2) by (auto simp: f_def split: if_splits)
  with True show ?thesis by (metis card.empty)
next
  case False
  have s: "f mod n = s"
    using assms(2) by (simp add: f_def)
  have "inj_on (\<lambda>j. f + j * n) {0..(L - f) div n}"
    using assms(1) by (simp add: inj_on_def)
  then have "card {k \<in> {1..L}. k mod n = f mod n} = card {0..(L - f) div n}"
    using residues_from [of n f L] False assms(1,2) by (simp add: card_image f_def split: if_splits)
  with False s show ?thesis by simp
qed

lemma unat_ucast_slot: "unat (ucast (x :: u32) :: u64) = unat x"
proof -
  have "unat x < 2 ^ 32"
    using unsigned_less [where ?'a = nat, of x] by simp
  then show ?thesis by (simp add: unsigned_ucast_eq take_bit_nat_eq_self)
qed

text \<open>The closed formula counts the nonces of the rotation exactly.\<close>

lemma assigned_bound_exact:
  assumes "unat slotID < n" and "n < 2 ^ 32"
  shows "\<exists>a. devshardAssignedUpperBoundForSlot nonce (of_nat n) slotID = Inr a
    \<and> unat a = card {k \<in> {1..unat nonce}. k mod n = unat slotID}"
proof -
  define f where "f = (if slotID = 0 then of_nat n else ucast slotID :: u64)"
  have n: "unat (of_nat n :: u64) = n"
    using assms(2) by (simp add: unat_of_nat)
  have f: "unat f = (if unat slotID = 0 then n else unat slotID)"
    by (simp add: f_def n unat_ucast_slot unat_eq_0)
  have c: "card {k \<in> {1..unat nonce}. k mod n = unat slotID}
      = (if unat nonce < unat f then 0 else 1 + (unat nonce - unat f) div n)"
    using card_residues [of n "unat slotID" "unat nonce"] assms(1) unfolding f by simp
  have "\<not> (of_nat n :: u64) = 0" "\<not> (of_nat n :: u64) \<le> ucast slotID"
    using assms(1) n by (auto simp: word_le_nat_alt unat_ucast_slot word_unat_eq_iff)
  then have e: "devshardAssignedUpperBoundForSlot nonce (of_nat n) slotID
      = (if nonce < f then Inr 0 else Inr (1 + (nonce - f) div of_nat n))"
    by (simp only: devshardAssignedUpperBoundForSlot_def Let_def if_False f_def)
  show ?thesis
  proof (cases "nonce < f")
    case True
    then show ?thesis
      unfolding e c by (simp add: word_less_nat_alt)
  next
    case False
    then have le: "f \<le> nonce" by simp
    have d: "unat ((nonce - f) div of_nat n) = (unat nonce - unat f) div n"
      using le by (simp add: unat_div_distrib n unat_sub)
    have "0 < unat f"
      using assms(1) f by auto
    then have "(unat nonce - unat f) div n < 2 ^ 64 - 1"
      using unat_u64_bound [of nonce] le
      by (intro le_less_trans [OF div_le_dividend]) (simp add: word_le_nat_alt)
    then have "unat (1 :: u64) + unat ((nonce - f) div of_nat n) < 2 ^ 64"
      unfolding d by simp
    then have "unat (1 + (nonce - f) div of_nat n) = 1 + (unat nonce - unat f) div n"
      using d by (simp add: unat_u64_add)
    then show ?thesis
      using False unfolding e c by (simp add: word_less_nat_alt)
  qed
qed

section \<open>Signatures\<close>

definition slot_signed ::
  "chain_env \<Rightarrow> string list \<Rightarrow> (string \<Rightarrow> string \<Rightarrow> bool) option \<Rightarrow> bytes \<Rightarrow> u32 \<times> bytes \<Rightarrow> bool" where
  "slot_signed env slots isWarmKey sigHash p \<longleftrightarrow>
     unat (fst p) < length slots
     \<and> (\<exists>a. recoverCosmosAddress env sigHash (snd p) = Some a
          \<and> (AccString env a = slots ! unat (fst p)
             \<or> (\<exists>f. isWarmKey = Some f \<and> f (slots ! unat (fst p)) (AccString env a))))"

lemma countSlotVotes_step:
  "countSlotVotes env slots isWarmKey sigHash (p # sigs) seen v = Inr v' \<longleftrightarrow>
     fst p \<notin> set seen \<and> slot_signed env slots isWarmKey sigHash p
     \<and> countSlotVotes env slots isWarmKey sigHash sigs (fst p # seen) (v + 1) = Inr v'"
  by (cases p) (auto simp: Let_def slot_signed_def not_le split: option.splits if_splits)

lemma countSlotVotes_iff:
  "countSlotVotes env slots isWarmKey sigHash sigs seen v = Inr v' \<longleftrightarrow>
     v' = v + length sigs \<and> distinct (map fst sigs) \<and> fst ` set sigs \<inter> set seen = {}
     \<and> (\<forall>p \<in> set sigs. slot_signed env slots isWarmKey sigHash p)"
proof (induction sigs arbitrary: seen v)
  case (Cons p sigs)
  show ?case
    unfolding countSlotVotes_step Cons.IH by auto
qed auto

section \<open>Host statistics\<close>

definition stats_within :: "u64 \<Rightarrow> nat \<Rightarrow> SettlementHostStats \<Rightarrow> bool" where
  "stats_within nonce n hs \<longleftrightarrow>
     unat (sh_SlotId hs) < n
     \<and> unat (sh_Missed hs) + unat (sh_Invalid hs)
         \<le> card {k \<in> {1..unat nonce}. k mod n = unat (sh_SlotId hs)}"

definition total_cost :: "SettlementHostStats list \<Rightarrow> nat" where
  "total_cost hss = (\<Sum>hs\<leftarrow>hss. unat (sh_Cost hs))"

lemma bound_out_of_range:
  assumes "0 < n" and "n < 2 ^ 32" and "\<not> unat slotID < n"
  shows "devshardAssignedUpperBoundForSlot nonce (of_nat n) slotID = Inl ErrSlotOutOfRange"
proof -
  have n: "unat (of_nat n :: u64) = n"
    using assms(2) by (simp add: unat_of_nat)
  have "\<not> (of_nat n :: u64) = 0" "(of_nat n :: u64) \<le> ucast slotID"
    using assms n by (auto simp: word_le_nat_alt unat_ucast_slot word_unat_eq_iff)
  then show ?thesis by (simp add: devshardAssignedUpperBoundForSlot_def)
qed

lemma sumHostStats_iff:
  assumes n: "0 < n" "n < 2 ^ 32"
  shows "sumHostStats nonce (of_nat n) hss seen t = Inr t' \<longleftrightarrow>
     distinct (map sh_SlotId hss) \<and> sh_SlotId ` set hss \<inter> set seen = {}
     \<and> (\<forall>hs \<in> set hss. stats_within nonce n hs)
     \<and> unat t + total_cost hss < 2 ^ 64 \<and> unat t' = unat t + total_cost hss"
proof (induction hss arbitrary: seen t)
  case Nil
  show ?case
    using unat_u64_bound [of t] by (auto simp: total_cost_def word_unat_eq_iff)
next
  case (Cons hs hss)
  show ?case
  proof (cases "unat (sh_SlotId hs) < n")
    case False
    then show ?thesis
      using bound_out_of_range [OF n False] by (auto simp: stats_within_def)
  next
    case True
    obtain a where a: "devshardAssignedUpperBoundForSlot nonce (of_nat n) (sh_SlotId hs) = Inr a"
        "unat a = card {k \<in> {1..unat nonce}. k mod n = unat (sh_SlotId hs)}"
      using assigned_bound_exact [OF True n(2)] by blast
    let ?m = "ucast (sh_Missed hs) :: u64" and ?i = "ucast (sh_Invalid hs) :: u64"
    have w: "stats_within nonce n hs \<longleftrightarrow> \<not> ?m > a \<and> \<not> ?i > a - ?m"
      unfolding stats_within_def a(2) [symmetric]
      using True by (auto simp: word_less_nat_alt unat_ucast_slot unat_sub_if')
    show ?thesis
    proof (cases "stats_within nonce n hs \<and> sh_SlotId hs \<notin> set seen \<and> unat t + unat (sh_Cost hs) < 2 ^ 64")
      case ok: True
      have add: "add64 t (sh_Cost hs) = (t + sh_Cost hs, False)"
        using ok by (simp add: add64_no_carry)
      have "unat (t + sh_Cost hs) = unat t + unat (sh_Cost hs)"
        using ok by (simp add: unat_u64_add)
      then show ?thesis
        using ok w Cons.IH [of "sh_SlotId hs # seen" "t + sh_Cost hs"]
        by (auto simp: a(1) Let_def add total_cost_def)
    next
      case bad: False
      have "sumHostStats nonce (of_nat n) (hs # hss) seen t \<noteq> Inr t'"
        using bad w by (auto simp: a(1) Let_def add64_def u64_carry_iff)
      with bad show ?thesis by (auto simp: total_cost_def)
    qed
  qed
qed

section \<open>Verification as a whole\<close>

definition proof_accepted ::
  "chain_env \<Rightarrow> DevshardEscrow \<Rightarrow> MsgSettleDevshardEscrow \<Rightarrow> DevshardEscrowParams
     \<Rightarrow> (string \<Rightarrow> string \<Rightarrow> bool) option \<Rightarrow> bool" where
  "proof_accepted env escrow msg p isWarmKey \<longleftrightarrow>
     \<not> e_Settled escrow \<and> ms_Settler msg = e_Creator escrow
     \<and> ms_Version msg \<noteq> [] \<and> length (ms_Version msg) \<le> 128
     \<and> (dp_ApprovedVersions p = [] \<or> Some (ms_Version msg) \<in> set (dp_ApprovedVersions p))
     \<and> unat (ms_Nonce msg) \<le> unat (dp_MaxNonce p)
     \<and> (\<exists>h sigData. ComputeDevshardHostStatsHash env (ms_HostStats msg) = Inr h
          \<and> ms_StateRoot msg = settlementRoot h msg
          \<and> chainMarshal env (PStateSignature (ms_StateRoot msg) (dec_nat (unat (e_Id escrow)))
               (ms_Nonce msg)) = Some sigData
          \<and> (\<forall>s \<in> set (ms_Signatures msg). slot_signed env (e_Slots escrow) isWarmKey (sha256 sigData) s))
     \<and> distinct (map fst (ms_Signatures msg))
     \<and> 2 * length (e_Slots escrow) < 3 * length (ms_Signatures msg)
     \<and> distinct (map sh_SlotId (ms_HostStats msg))
     \<and> (\<forall>hs \<in> set (ms_HostStats msg). stats_within (ms_Nonce msg) (length (e_Slots escrow)) hs)
     \<and> total_cost (ms_HostStats msg) + unat (ms_Fees msg) \<le> unat (e_Amount escrow)"

lemma quorum_iff: "\<not> v < DevshardQuorumFor n \<longleftrightarrow> 2 * n < 3 * v"
  unfolding DevshardQuorumFor_def by presburger

lemma length_settlementRoot [simp]: "length (settlementRoot h msg) = 32"
  by (simp add: settlementRoot_def)

lemma version_approved_iff:
  "validateDevshardSettlementVersionApproved vs v = Inr u \<longleftrightarrow> vs = [] \<or> Some v \<in> set vs"
  by (auto simp: validateDevshardSettlementVersionApproved_def list_ex_iff)

lemma add64_debit:
  "(let (d, c) = add64 t f in if c then Inl e1 else if d > (m :: u64) then Inl e2 else Inr ()) = Inr u
     \<longleftrightarrow> unat t + unat f \<le> unat m"
proof (cases "unat t + unat f < 2 ^ 64")
  case True
  then have "add64 t f = (t + f, False)"
    by (simp add: add64_no_carry)
  with True show ?thesis
    by (auto simp: word_less_nat_alt unat_u64_add)
next
  case False
  then have "add64 t f = (t + f, True)"
    by (simp add: add64_def u64_carry_iff)
  with False show ?thesis
    using unat_u64_bound [of m] by simp
qed

lemma debit_iff:
  assumes n: "0 < n" "n < 2 ^ 32"
  shows "bindE (sumHostStats nonce (of_nat n) hss [] 0) (\<lambda>totalCost.
      let (totalDebit, carry) = add64 totalCost f
      in if carry then Inl ErrTotalCostOverflow
         else if totalDebit > m then Inl ErrDebitExceedsEscrow else Inr ()) = Inr ()
    \<longleftrightarrow> distinct (map sh_SlotId hss) \<and> (\<forall>hs \<in> set hss. stats_within nonce n hs)
        \<and> total_cost hss + unat f \<le> unat m"
proof -
  have m: "unat m < 2 ^ 64"
    by (rule unat_u64_bound)
  have "(\<exists>t. sumHostStats nonce (of_nat n) hss [] 0 = Inr t \<and> unat t + unat f \<le> unat m)
      \<longleftrightarrow> distinct (map sh_SlotId hss) \<and> (\<forall>hs \<in> set hss. stats_within nonce n hs)
        \<and> total_cost hss + unat f \<le> unat m" (is "?L = ?R")
  proof
    assume ?R
    then have "sumHostStats nonce (of_nat n) hss [] 0 = Inr (of_nat (total_cost hss))"
      using m by (simp add: sumHostStats_iff [OF n] unat_of_nat)
    moreover have "unat (of_nat (total_cost hss) :: u64) = total_cost hss"
      using \<open>?R\<close> m by (simp add: unat_of_nat)
    ultimately show ?L using \<open>?R\<close> by auto
  qed (auto simp: sumHostStats_iff [OF n])
  then show ?thesis
    by (simp only: bindE_Inr_iff add64_debit)
qed

lemma VerifyDevshardSettlement_iff:
  assumes "length (e_Slots escrow) < 2 ^ 32"
  shows "VerifyDevshardSettlement env escrow msg (Some p) isWarmKey = Inr ()
    \<longleftrightarrow> e_Slots escrow \<noteq> [] \<and> proof_accepted env escrow msg p isWarmKey"
proof (cases "e_Slots escrow = []")
  case True
  have "VerifyDevshardSettlement env escrow msg (Some p) isWarmKey \<noteq> Inr ()"
    by (auto simp: VerifyDevshardSettlement_def True bindE_Inr_iff Let_def split: option.splits if_splits)
  with True show ?thesis by simp
next
  case False
  let ?n = "length (e_Slots escrow)"
  have n: "0 < ?n"
    using False by simp
  have n0: "\<not> (of_nat ?n :: u64) = 0"
  proof -
    have "unat (of_nat ?n :: u64) = ?n"
      using assms by (simp add: unat_of_nat)
    with n show ?thesis by (metis less_nat_zero_code unat_0)
  qed
  have nonce: "\<not> ms_Nonce msg > ucast (dp_MaxNonce p) \<longleftrightarrow> unat (ms_Nonce msg) \<le> unat (dp_MaxNonce p)"
    by (simp add: word_less_nat_alt unat_ucast_slot not_less)
  define D where "D = bindE (sumHostStats (ms_Nonce msg) (of_nat ?n) (ms_HostStats msg) [] 0) (\<lambda>totalCost.
      let (totalDebit, carry) = add64 totalCost (ms_Fees msg)
      in if carry then Inl ErrTotalCostOverflow
         else if totalDebit > e_Amount escrow then Inl ErrDebitExceedsEscrow else Inr ())"
  have D: "D = Inr () \<longleftrightarrow> distinct (map sh_SlotId (ms_HostStats msg))
      \<and> (\<forall>hs \<in> set (ms_HostStats msg). stats_within (ms_Nonce msg) ?n hs)
      \<and> total_cost (ms_HostStats msg) + unat (ms_Fees msg) \<le> unat (e_Amount escrow)"
    unfolding D_def by (rule debit_iff [OF n assms])
  have "VerifyDevshardSettlement env escrow msg (Some p) isWarmKey = Inr () \<longleftrightarrow>
      \<not> e_Settled escrow \<and> \<not> ms_Settler msg \<noteq> e_Creator escrow \<and> \<not> ms_Version msg = []
      \<and> \<not> ms_Nonce msg > ucast (dp_MaxNonce p) \<and> \<not> length (ms_Version msg) > 128
      \<and> (\<exists>u. validateDevshardSettlementVersionApproved (dp_ApprovedVersions p) (ms_Version msg) = Inr u
         \<and> (\<exists>h. ComputeDevshardHostStatsHash env (ms_HostStats msg) = Inr h
         \<and> \<not> length (ms_StateRoot msg) \<noteq> 32 \<and> \<not> settlementRoot h msg \<noteq> ms_StateRoot msg
         \<and> (\<exists>d. chainMarshal env (PStateSignature (ms_StateRoot msg) (dec_nat (unat (e_Id escrow)))
                 (ms_Nonce msg)) = Some d
         \<and> (\<exists>v. countSlotVotes env (e_Slots escrow) isWarmKey (sha256 d) (ms_Signatures msg) [] 0 = Inr v
         \<and> \<not> v < DevshardQuorumFor ?n \<and> \<not> (of_nat ?n :: u64) = 0 \<and> D = Inr ()))))"
    unfolding VerifyDevshardSettlement_def D_def Let_def by (simp only: option.case inr_iffs)
  then show ?thesis
    unfolding proof_accepted_def D version_approved_iff countSlotVotes_iff quorum_iff nonce
    using False n0 by fastforce
qed

end
