(* ===== verification/ChainPayout.thy ===== *)
theory ChainPayout
  imports ChainVerify
begin

text \<open>
  Where the escrowed coins go: the loops of the settlement handler as sums over the slots of the
  escrow, and the handler as a whole as an exact split of the escrow between the validators
  (by transfer or by credit to their balance with the module) and the creator.
\<close>

section \<open>What is owed to a validator\<close>

definition owed :: "(string, u64) kv \<Rightarrow> string \<Rightarrow> u64" where
  "owed payouts a = (case kv_get payouts a of None \<Rightarrow> 0 | Some v \<Rightarrow> v)"

abbreviation payout_sum :: "(string, u64) kv \<Rightarrow> nat" where
  "payout_sum payouts \<equiv> kv_sum (\<lambda>_. unat) payouts"

lemma payout_sum_set:
  "kv_inv m \<Longrightarrow> payout_sum (kv_set a v m) + unat (owed m a) = payout_sum m + unat v"
  using kv_sum_set [of m "\<lambda>_. unat" a v] by (auto simp: owed_def split: option.splits)

lemma payout_sum_slots:
  assumes "kv_inv m" and "dom (kv_get m) \<subseteq> set slots"
  shows "payout_sum m = (\<Sum>a \<in> set slots. unat (owed m a))"
proof -
  have "payout_sum m = (\<Sum>p \<in> set m. unat (snd p))"
    using kv_inv_distinct [OF assms(1)]
    by (simp add: kv_sum_def sum_list_distinct_conv_sum_set distinct_map case_prod_beta)
  also have "\<dots> = (\<Sum>a \<in> fst ` set m. unat (owed m a))"
    using kv_inv_distinct [OF assms(1)]
    by (subst sum.reindex) (auto simp: distinct_map owed_def intro!: sum.cong)
  also have "\<dots> = (\<Sum>a \<in> set slots. unat (owed m a))"
    using assms(2) kv_keys_dom [of m] by (intro sum.mono_neutral_left) (auto simp: owed_def split: option.splits)
  finally show ?thesis .
qed

lemma validatorPayouts_sums:
  assumes "validatorPayouts slots fps hss ps r = Inr (ps', r')"
    and "kv_inv ps" and "dom (kv_get ps) \<subseteq> set slots"
  shows "kv_inv ps' \<and> dom (kv_get ps') \<subseteq> set slots \<and> unat r' = unat r - length hss
    \<and> payout_sum ps' = payout_sum ps + total_cost hss + length hss * unat fps + min (length hss) (unat r)"
  using assms
proof (induction hss arbitrary: ps r)
  case (Cons hs hss)
  define a where "a = slots ! unat (sh_SlotId hs)"
  define x where "x = (if 0 < r then 1 else 0 :: u64)"
  from Cons.prems(1) have in_range: "unat (sh_SlotId hs) < length slots"
    by (auto split: if_splits)
  from Cons.prems(1) in_range
  have sums: "unat (owed ps a) + unat (sh_Cost hs) < 2 ^ 64"
      "unat (owed ps a + sh_Cost hs) + unat fps < 2 ^ 64"
      "unat (owed ps a + sh_Cost hs + fps) + unat x < 2 ^ 64"
    and rest: "validatorPayouts slots fps hss (kv_set a (owed ps a + sh_Cost hs + fps + x) ps) (r - x)
      = Inr (ps', r')"
    using unat_u64_bound [of "owed ps a + sh_Cost hs + fps"]
    by (auto simp: Let_def add64_def u64_carry_iff not_le a_def owed_def x_def split: if_splits)
  let ?v = "owed ps a + sh_Cost hs + fps + x"
  have v: "unat ?v = unat (owed ps a) + unat (sh_Cost hs) + unat fps + unat x"
    using sums by (simp add: unat_u64_add)
  have "a \<in> set slots"
    using in_range by (simp add: a_def)
  with Cons.prems(3) have "dom (kv_get (kv_set a ?v ps)) \<subseteq> set slots"
    by simp
  then have IH: "kv_inv ps' \<and> dom (kv_get ps') \<subseteq> set slots \<and> unat r' = unat (r - x) - length hss
      \<and> payout_sum ps' = payout_sum (kv_set a ?v ps) + total_cost hss + length hss * unat fps
          + min (length hss) (unat (r - x))"
    by (rule Cons.IH [OF rest kv_inv_set [OF Cons.prems(2)]])
  have r: "unat (r - x) = unat r - unat x" "unat x = min 1 (unat r)"
    using unat_gt_0 [of r]
    by (auto simp: x_def unat_sub word_le_nat_alt word_less_nat_alt unat_eq_0 min_def)
  show ?case
    using IH payout_sum_set [OF Cons.prems(2), of a ?v] unfolding v
    by (auto simp: r total_cost_def min_def)
qed (simp add: total_cost_def)

lemma sumPayouts_sum: "sumPayouts ps t = Inr t' \<Longrightarrow> unat t' = unat t + payout_sum ps"
proof (induction ps arbitrary: t)
  case (Cons p ps)
  obtain a v where p: "p = (a, v)" by (cases p)
  have "add64 t v = (t + v, False)" "sumPayouts ps (t + v) = Inr t'"
    using Cons.prems by (auto simp: p add64_def Let_def split: if_splits)
  with Cons.IH show ?case
    by (fastforce simp: p add64_no_carry unat_u64_add)
qed simp

section \<open>Paying the validators\<close>

definition coins_of :: "(string, Participant) kv \<Rightarrow> string \<Rightarrow> (string \<times> i64) option" where
  "coins_of parts a = map_option (\<lambda>p. (pt_Index p, pt_CoinBalance p)) (kv_get parts a)"

lemma coins_of_None: "coins_of parts a = None \<longleftrightarrow> kv_get parts a = None"
  by (simp add: coins_of_def)

definition pays :: "BankOp list \<Rightarrow> bool" where
  "pays ops \<longleftrightarrow> (\<forall>bop \<in> set ops. \<exists>a x m. bop = ToAccount a x m)"

abbreviation paid_sum :: "BankOp list \<Rightarrow> nat" where
  "paid_sum ops \<equiv> (\<Sum>bop\<leftarrow>ops. paidOut bop)"

lemma AddToCoinBalance_coins:
  "AddToCoinBalance p x = Inr p' \<Longrightarrow>
   pt_Index p' = pt_Index p \<and> pt_CoinBalance p' = pt_CoinBalance p + x"
  by (auto simp: AddToCoinBalance_def Let_def ensureParticipantEpochStats_def split: if_splits option.splits)

lemma payCoinsDirectly_log:
  assumes "payCoinsDirectly env x a st = Inr st'"
  shows "st' = st\<lparr>bankLog := bankLog st @ [ToAccount a x ''devshard_escrow_payment'']\<rparr>"
  using assms by (auto simp: payCoinsDirectly_def GetCoins_def bankSend_def bindE_Inr_iff split: if_splits)

lemma sum_new_slot:
  fixes f :: "string \<Rightarrow> nat"
  shows "sum f ({x \<in> set (a # slots). P x} - set paid)
    = (if P a \<and> a \<notin> set paid then f a else 0) + sum f ({x \<in> set slots. P x} - set (a # paid))"
proof -
  have "{x \<in> set (a # slots). P x} - set paid
      = (if P a \<and> a \<notin> set paid then {a} else {}) \<union> ({x \<in> set slots. P x} - set (a # paid))"
    by auto
  then show ?thesis by (simp add: sum.union_disjoint)
qed

lemma payValidators_effect:
  assumes "payValidators env escrow payouts current slots paid (parts, touched, st)
      = Inr (parts', touched', st')"
  shows "(\<exists>ops. st' = st\<lparr>bankLog := bankLog st @ ops\<rparr> \<and> pays ops
      \<and> paid_sum ops = (\<Sum>a \<in> {a \<in> set slots. kv_get current a \<noteq> Some True} - set paid. unat (owed payouts a)))
    \<and> (\<forall>a. coins_of parts' a =
         (if a \<in> set slots - set paid \<and> kv_get current a = Some True
          then map_option (\<lambda>(i, c). (i, c + owed payouts a)) (coins_of parts a) else coins_of parts a))
    \<and> set touched' = set touched \<union> {a \<in> set slots - set paid. kv_get current a = Some True \<and> owed payouts a \<noteq> 0}"
  using assms
proof (induction slots arbitrary: paid parts touched st)
  case Nil
  then show ?case by (auto simp: pays_def intro: exI [of _ "[]"])
next
  case (Cons a slots)
  let ?cur = "\<lambda>a. kv_get current a = Some True"
  consider (skip) "owed payouts a = 0 \<or> a \<in> set paid"
      "payValidators env escrow payouts current slots paid (parts, touched, st) = Inr (parts', touched', st')"
    | (credit) p p' where "owed payouts a \<noteq> 0" "a \<notin> set paid" "?cur a" "kv_get parts a = Some p"
      "AddToCoinBalance p (owed payouts a) = Inr p'"
      "payValidators env escrow payouts current slots (a # paid) (kv_set a p' parts, a # touched, st)
        = Inr (parts', touched', st')"
    | (direct) to st1 where "owed payouts a \<noteq> 0" "a \<notin> set paid" "\<not> ?cur a"
      "payCoinsDirectly env (owed payouts a) to st = Inr st1"
      "payValidators env escrow payouts current slots (a # paid) (parts, touched, st1) = Inr (parts', touched', st')"
    using Cons.prems
    by (fastforce simp: owed_def bindE_Inr_iff split: option.splits if_splits)
  then show ?case
  proof cases
    case skip
    have "(\<Sum>x \<in> {x \<in> set (a # slots). \<not> ?cur x} - set paid. unat (owed payouts x))
        = (\<Sum>x \<in> {x \<in> set slots. \<not> ?cur x} - set paid. unat (owed payouts x))"
      using skip(1) by (intro sum.mono_neutral_right) auto
    then show ?thesis
      using Cons.IH [OF skip(2)] skip(1) by (auto simp: option.map_id)
  next
    case credit
    have "coins_of (kv_set a p' parts) x =
        (if x = a then map_option (\<lambda>(i, c). (i, c + owed payouts a)) (coins_of parts a) else coins_of parts x)" for x
      using AddToCoinBalance_coins [OF credit(5)] credit(4) by (simp add: coins_of_def)
    then show ?thesis
      using Cons.IH [OF credit(6)] credit(1-3) sum_new_slot [of _ a slots "\<lambda>x. \<not> ?cur x" paid] by auto
  next
    case direct
    note log = payCoinsDirectly_log [OF direct(4)]
    obtain ops where ops: "st' = st1\<lparr>bankLog := bankLog st1 @ ops\<rparr>" "pays ops"
        "paid_sum ops = (\<Sum>x \<in> {x \<in> set slots. \<not> ?cur x} - set (a # paid). unat (owed payouts x))"
      using Cons.IH [OF direct(5)] by blast
    have "st' = st\<lparr>bankLog := bankLog st @ ToAccount to (owed payouts a) ''devshard_escrow_payment'' # ops\<rparr>"
      by (simp add: ops(1) log)
    moreover have "pays (ToAccount to (owed payouts a) ''devshard_escrow_payment'' # ops)"
      using ops(2) by (simp add: pays_def)
    moreover have "paid_sum (ToAccount to (owed payouts a) ''devshard_escrow_payment'' # ops)
        = (\<Sum>x \<in> {x \<in> set (a # slots). \<not> ?cur x} - set paid. unat (owed payouts x))"
      using direct(2,3) ops(3) sum_new_slot [of _ a slots "\<lambda>x. \<not> ?cur x" paid] by simp
    ultimately show ?thesis
      using Cons.IH [OF direct(5)] direct(1-3) by (intro conjI exI) auto
  qed
qed

section \<open>Statistics and stored participants\<close>

lemma Aggregate_coins:
  "AggregateDevshardHostStatsIntoCurrentEpochStats p hs a = Inr p' \<Longrightarrow>
   pt_Index p' = pt_Index p \<and> pt_CoinBalance p' = pt_CoinBalance p"
  by (auto simp: AggregateDevshardHostStatsIntoCurrentEpochStats_def ensureParticipantEpochStats_def Let_def
      split: if_splits option.splits prod.splits)

lemma UpdateStats_frame:
  "UpdateDevshardHostEpochStats env e a hs inc st = Inr st' \<Longrightarrow> \<exists>m. st' = st\<lparr>HostEpochStats := m\<rparr>"
  by (auto simp: UpdateDevshardHostEpochStats_def Let_def split: if_splits)

lemma aggregateStats_effect:
  assumes "aggregateStats env escrow nonce current hss seen (parts, touched, st) = Inr (parts', touched', st')"
  shows "coins_of parts' = coins_of parts \<and> (\<exists>m. st' = st\<lparr>HostEpochStats := m\<rparr>)
    \<and> set touched \<subseteq> set touched'
    \<and> set touched' \<subseteq> set touched \<union> {a. kv_get current a = Some True \<and> kv_get parts a \<noteq> None}"
  using assms
proof (induction hss arbitrary: seen parts touched st)
  case Nil
  then show ?case by (auto intro: exI [of _ "HostEpochStats st"])
next
  case (Cons hs hss)
  let ?a = "e_Slots escrow ! unat (sh_SlotId hs)"
  consider (current) st1 p p' n where "kv_get current ?a = Some True" "kv_get parts ?a = Some p"
      "AggregateDevshardHostStatsIntoCurrentEpochStats p hs n = Inr p'" "\<exists>m. st1 = st\<lparr>HostEpochStats := m\<rparr>"
      "aggregateStats env escrow nonce current hss (?a # seen) (kv_set ?a p' parts, ?a # touched, st1)
        = Inr (parts', touched', st')"
    | (other) st1 where "\<exists>m. st1 = st\<lparr>HostEpochStats := m\<rparr>"
      "aggregateStats env escrow nonce current hss (?a # seen) (parts, touched, st1) = Inr (parts', touched', st')"
    using Cons.prems UpdateStats_frame
    by (fastforce simp: Let_def bindE_Inr_iff split: option.splits if_splits)
  then show ?case
  proof cases
    case current
    have same: "coins_of (kv_set ?a p' parts) = coins_of parts"
      using Aggregate_coins [OF current(3)] current(2) by (auto simp: coins_of_def fun_eq_iff)
    show ?thesis
      using Cons.IH [OF current(5)] current(1,2,4) unfolding same by (auto split: if_splits)
  next
    case other
    then show ?thesis using Cons.IH [OF other(2)] by auto
  qed
qed

text \<open>What the settlement relies on: a status update keeps a participant's index and balance.\<close>

definition status_keeps :: "chain_env \<Rightarrow> bool" where
  "status_keeps env \<longleftrightarrow> (\<forall>st p p'. statusUpdate env st p = Some p' \<longrightarrow>
     pt_Index p' = pt_Index p \<and> pt_CoinBalance p' = pt_CoinBalance p)"

text \<open>Participants are stored under the address of their index.\<close>

definition participants_indexed :: "chain_env \<Rightarrow> ChainState \<Rightarrow> bool" where
  "participants_indexed env st \<longleftrightarrow> (\<forall>k p. kv_get (Participants st) k = Some p \<longrightarrow>
     AccAddressFromBech32 env (pt_Index p) = Some k)"

definition coinBalance :: "chain_env \<Rightarrow> ChainState \<Rightarrow> string \<Rightarrow> i64" where
  "coinBalance env st a = (case GetParticipant env st a of None \<Rightarrow> 0 | Some p \<Rightarrow> pt_CoinBalance p)"

lemma coinBalance_cong:
  "Participants st = Participants st' \<Longrightarrow> coinBalance env st b = coinBalance env st' b"
  by (simp add: coinBalance_def GetParticipant_def cong: option.case_cong)

definition indexed_parts :: "chain_env \<Rightarrow> (string, Participant) kv \<Rightarrow> bool" where
  "indexed_parts env parts \<longleftrightarrow> (\<forall>a i c. coins_of parts a = Some (i, c) \<longrightarrow>
     AccAddressFromBech32 env i = AccAddressFromBech32 env a \<and> AccAddressFromBech32 env a \<noteq> None)"

lemma SetParticipant_effect:
  assumes "SetParticipant env p st = Inr st'" and "status_keeps env"
    and "AccAddressFromBech32 env (pt_Index p) = AccAddressFromBech32 env a"
  shows "coinBalance env st' b = (if AccAddressFromBech32 env b = AccAddressFromBech32 env a
      then pt_CoinBalance p else coinBalance env st b)"
  using assms
  by (auto simp: SetParticipant_def coinBalance_def GetParticipant_def status_keeps_def
      split: option.splits if_splits)

lemma saveParticipants_frame:
  "saveParticipants env parts addrs st = Inr st' \<Longrightarrow> \<exists>m. st' = st\<lparr>Participants := m\<rparr>"
proof (induction addrs arbitrary: st)
  case Nil
  then show ?case by (auto intro: exI [of _ "Participants st"])
next
  case (Cons a addrs)
  then obtain p st1 where "SetParticipant env p st = Inr st1" "saveParticipants env parts addrs st1 = Inr st'"
    by (auto simp: bindE_Inr_iff split: option.splits)
  then show ?case
    using Cons.IH by (fastforce simp: SetParticipant_def split: option.splits)
qed

lemma saveParticipants_effect:
  assumes "saveParticipants env parts addrs st = Inr st'" and "status_keeps env"
    and "indexed_parts env parts" and "inj_on (AccAddressFromBech32 env) (set addrs \<union> {b})" and "distinct addrs"
  shows "coinBalance env st' b = (if b \<in> set addrs then snd (the (coins_of parts b)) else coinBalance env st b)"
  using assms
proof (induction addrs arbitrary: st)
  case (Cons a addrs)
  then obtain p st1 where p: "kv_get parts a = Some p" "SetParticipant env p st = Inr st1"
      "saveParticipants env parts addrs st1 = Inr st'"
    by (auto simp: bindE_Inr_iff split: option.splits)
  have idx: "AccAddressFromBech32 env (pt_Index p) = AccAddressFromBech32 env a"
    using Cons.prems(3) p(1) by (auto simp: indexed_parts_def coins_of_def)
  have "inj_on (AccAddressFromBech32 env) (set addrs \<union> {b})"
    by (rule inj_on_subset [OF Cons.prems(4)]) auto
  then have IH: "coinBalance env st' b = (if b \<in> set addrs then snd (the (coins_of parts b)) else coinBalance env st1 b)"
    using Cons.IH [OF p(3) Cons.prems(2,3)] Cons.prems(5) by simp
  have eq: "AccAddressFromBech32 env b = AccAddressFromBech32 env a \<longleftrightarrow> b = a"
    using Cons.prems(4) by (auto simp: inj_on_def)
  show ?case
    using IH SetParticipant_effect [OF p(2) Cons.prems(2) idx, of b] p(1) Cons.prems(5)
    by (auto simp: eq coins_of_def)
qed simp

lemma loadParticipants_effect:
  assumes "loadParticipants env escrow cur st addrs = Inr (parts, current)"
  shows "kv_get parts a = (if a \<in> set addrs then GetParticipant env st a else None)"
    and "a \<in> set addrs \<Longrightarrow> GetParticipant env st a \<noteq> None"
  using assms
proof (induction addrs arbitrary: parts current)
  case (Cons b addrs)
  { case 1
    then obtain p ps cs where "GetParticipant env st b = Some p"
        "loadParticipants env escrow cur st addrs = Inr (ps, cs)" "parts = kv_set b p ps"
      by (auto simp: bindE_Inr_iff split: option.splits)
    then show ?case using Cons.IH(1) by auto }
  { case 2
    then obtain p ps cs where "GetParticipant env st b = Some p"
        "loadParticipants env escrow cur st addrs = Inr (ps, cs)" "parts = kv_set b p ps"
      by (auto simp: bindE_Inr_iff split: option.splits)
    then show ?case using Cons.IH(2) 2(1) by auto }
qed auto

lemma refundCreator_effect:
  assumes "refundCreator env escrow x st = Inr st'"
  shows "\<exists>ops. st' = st\<lparr>bankLog := bankLog st @ ops\<rparr> \<and> paid_sum ops = unat x
    \<and> (\<forall>bop \<in> set ops. \<exists>a. AccAddressFromBech32 env (e_Creator escrow) = Some a
         \<and> bop = ToAccount a x ''devshard_escrow_refund'')"
proof (cases "x = 0")
  case True
  with assms show ?thesis by (auto simp: refundCreator_def intro: exI [of _ "[]"])
next
  case False
  then have "x > 0" by (simp add: word_neq_0_conv)
  with assms obtain a where "AccAddressFromBech32 env (e_Creator escrow) = Some a"
      "st' = st\<lparr>bankLog := bankLog st @ [ToAccount a x ''devshard_escrow_refund'']\<rparr>"
    by (auto simp: refundCreator_def GetCoins_def bankSend_def inr_iffs split: if_splits)
  then show ?thesis by (intro exI conjI) auto
qed

section \<open>The handler\<close>

lemma Settle_parts:
  assumes "SettleDevshardEscrow env msg st = Inr st'" and "kv_get (Escrows st) (ms_EscrowId msg) = Some escrow"
  obtains p cur parts current payouts t parts1 touched1 st1 st2 parts2 touched2 st3 st4
  where "VerifyDevshardSettlement env escrow msg (Some p) (Some (HasWarmKeyGrant env)) = Inr ()"
    and "e_Slots escrow \<noteq> []" and "DevshardParams st = Some (Some p)"
    and "loadParticipants env escrow cur st (sort (remdups (e_Slots escrow))) = Inr (parts, current)"
    and "validatorPayouts (e_Slots escrow) (ms_Fees msg div of_nat (length (e_Slots escrow)))
      (ms_HostStats msg) [] (ms_Fees msg mod of_nat (length (e_Slots escrow))) = Inr (payouts, 0)"
    and "sumPayouts payouts 0 = Inr t" and "t \<le> e_Amount escrow"
    and "payValidators env escrow payouts current (e_Slots escrow) [] (parts, [], st) = Inr (parts1, touched1, st1)"
    and "refundCreator env escrow (e_Amount escrow - t) st1 = Inr st2"
    and "aggregateStats env escrow (ms_Nonce msg) current (ms_HostStats msg) [] (parts1, touched1, st2)
      = Inr (parts2, touched2, st3)"
    and "saveParticipants env parts2 (sort (remdups touched2)) st3 = Inr st4"
    and "st' = SetDevshardEscrow (escrow\<lparr>e_Settled := True\<rparr>) st4"
proof -
  from assms(1) show thesis
    unfolding SettleDevshardEscrow_def GetDevshardEscrow_def Let_def assms(2)
    by (simp only: inr_iffs option.case option.inject split_paired_Ex prod.case not_less not_not Inr_inject)
      (elim exE conjE, rule that, auto)
qed

text \<open>The part of the escrow that goes to the validators: their costs and their fee shares.\<close>

definition validators_share :: "DevshardEscrow \<Rightarrow> MsgSettleDevshardEscrow \<Rightarrow> nat" where
  "validators_share escrow msg =
     (let n = length (e_Slots escrow); fees = unat (ms_Fees msg) in
      total_cost (ms_HostStats msg) + length (ms_HostStats msg) * (fees div n) + fees mod n)"

lemma validators_share_complete:
  "length (ms_HostStats msg) = length (e_Slots escrow) \<Longrightarrow>
   validators_share escrow msg = total_cost (ms_HostStats msg) + unat (ms_Fees msg)"
  by (simp add: validators_share_def Let_def)

lemma Settle_share:
  assumes "validatorPayouts (e_Slots escrow) (ms_Fees msg div of_nat (length (e_Slots escrow)))
      (ms_HostStats msg) [] (ms_Fees msg mod of_nat (length (e_Slots escrow))) = Inr (payouts, 0)"
    and "sumPayouts payouts 0 = Inr t" and "length (e_Slots escrow) < 2 ^ 32"
  shows "unat t = validators_share escrow msg" and "unat t = (\<Sum>a \<in> set (e_Slots escrow). unat (owed payouts a))"
proof -
  let ?n = "length (e_Slots escrow)"
  have n: "unat (of_nat ?n :: u64) = ?n"
    using assms(3) by (simp add: unat_of_nat)
  have v: "kv_inv payouts" "dom (kv_get payouts) \<subseteq> set (e_Slots escrow)"
      "unat (ms_Fees msg mod of_nat ?n) \<le> length (ms_HostStats msg)"
      "payout_sum payouts = total_cost (ms_HostStats msg)
        + length (ms_HostStats msg) * unat (ms_Fees msg div of_nat ?n)
        + min (length (ms_HostStats msg)) (unat (ms_Fees msg mod of_nat ?n))"
    using validatorPayouts_sums [OF assms(1)] by simp_all
  then show "unat t = validators_share escrow msg"
    using sumPayouts_sum [OF assms(2)]
    by (simp add: validators_share_def Let_def unat_div_distrib unat_mod_distrib n min_def)
  show "unat t = (\<Sum>a \<in> set (e_Slots escrow). unat (owed payouts a))"
    using sumPayouts_sum [OF assms(2)] payout_sum_slots [OF v(1,2)] by simp
qed

lemma sum_split_current:
  fixes f g h :: "string \<Rightarrow> nat"
  assumes "\<And>a. a \<in> S \<Longrightarrow> P a \<Longrightarrow> g a = f a" and "\<And>a. a \<in> S \<Longrightarrow> \<not> P a \<Longrightarrow> g a = 0" and "finite S"
  shows "sum f {a \<in> S. \<not> P a} + sum g S = sum f S"
proof -
  have "sum g S = sum f {a \<in> S. P a}"
    using assms by (intro sum.mono_neutral_cong_right) auto
  moreover have "sum f S = sum f {a \<in> S. P a} + sum f {a \<in> S. \<not> P a}"
    using assms(3) by (subst sum.union_disjoint [symmetric]) (auto intro!: sum.cong)
  ultimately show ?thesis by simp
qed

lemma Settle_credit:
  assumes load: "loadParticipants env escrow cur st (sort (remdups (e_Slots escrow))) = Inr (parts, current)"
    and pay: "payValidators env escrow payouts current (e_Slots escrow) [] (parts, [], st) = Inr (parts1, touched1, st1)"
    and agg: "aggregateStats env escrow nonce current hss [] (parts1, touched1, st2) = Inr (parts2, touched2, st3)"
    and save: "saveParticipants env parts2 (sort (remdups touched2)) st3 = Inr st4"
    and keeps: "status_keeps env" and idx: "participants_indexed env st"
    and inj: "inj_on (AccAddressFromBech32 env) (set (e_Slots escrow))"
    and base: "\<And>b. coinBalance env st3 b = coinBalance env st b"
    and a: "a \<in> set (e_Slots escrow)"
  shows "coinBalance env st4 a - coinBalance env st a
    = (if kv_get current a = Some True then owed payouts a else 0)"
proof -
  have parts: "kv_get parts b = (if b \<in> set (e_Slots escrow) then GetParticipant env st b else None)" for b
    using loadParticipants_effect(1) [OF load] by simp
  note eff = payValidators_effect [OF pay] and agg' = aggregateStats_effect [OF agg]
  have coins: "coins_of parts2 b = (if b \<in> set (e_Slots escrow) \<and> kv_get current b = Some True
      then map_option (\<lambda>(i, c). (i, c + owed payouts b)) (coins_of parts b) else coins_of parts b)" for b
    using eff agg' by simp
  have none: "coins_of parts2 b = None \<longleftrightarrow> kv_get parts b = None" for b
    unfolding coins by (simp add: coins_of_None)
  have none1: "kv_get parts1 b = None \<longleftrightarrow> kv_get parts b = None" for b
    unfolding coins_of_None [symmetric] using eff by simp
  have old: "\<exists>i. coins_of parts b = Some (i, coinBalance env st b)
      \<and> AccAddressFromBech32 env i = AccAddressFromBech32 env b \<and> AccAddressFromBech32 env b \<noteq> None"
    if "kv_get parts b \<noteq> None" for b
    using that idx
    by (auto simp: parts coins_of_def coinBalance_def GetParticipant_def participants_indexed_def
        split: option.splits if_splits)
  have "indexed_parts env parts2"
    unfolding indexed_parts_def
  proof (intro allI impI)
    fix b i c assume "coins_of parts2 b = Some (i, c)"
    then show "AccAddressFromBech32 env i = AccAddressFromBech32 env b \<and> AccAddressFromBech32 env b \<noteq> None"
      using old [of b] none [of b] by (auto simp: coins split: if_splits)
  qed
  moreover have sub: "set touched2 \<subseteq> set (e_Slots escrow)"
  proof
    fix b assume "b \<in> set touched2"
    then have "b \<in> set (e_Slots escrow) \<or> kv_get parts1 b \<noteq> None"
      using eff agg' by auto
    then show "b \<in> set (e_Slots escrow)"
      unfolding none1 by (auto simp: parts split: if_splits)
  qed
  then have "inj_on (AccAddressFromBech32 env) (set (sort (remdups touched2)) \<union> {a})"
    using inj a by (intro inj_on_subset [OF inj]) auto
  ultimately have bal: "coinBalance env st4 a
      = (if a \<in> set touched2 then snd (the (coins_of parts2 a)) else coinBalance env st3 a)"
    using saveParticipants_effect [OF save keeps] by simp
  have "kv_get parts a \<noteq> None"
    using loadParticipants_effect(2) [OF load, of a] a by (simp add: parts)
  from old [OF this] show ?thesis
    using a eff agg' by (auto simp: bal base coins)
qed

end
