(* ===== verification/ChainPruning.thy ===== *)
theory ChainPruning
  imports ChainEscrow
begin

text \<open>
  Pruning at the end of a block (\<open>x/inference/keeper/pruning.go\<close>, \<open>devshard_pruning.go\<close>): the
  generic pruner with its budget per call and its mark of the last finished epoch, and its
  instances for devshard escrows, whose unsettled funds it distributes, and for claim
  recipients. Errors are logged and nothing is rolled back, so every operation returns the
  state it reached. Epochs are read as integers.
\<close>

section \<open>The pruner\<close>

text \<open>
  \<open>keysOf\<close> is the list with its range: the keys of an epoch in iteration order. \<open>getLastPruned\<close>
  is \<open>None\<close> when the pruning state cannot be read.
\<close>

record ('k, 's) Pruner =
  Threshold :: nat
  PruningMax :: int
  keysOf :: "'s \<Rightarrow> int \<Rightarrow> 'k list"
  getLastPruned :: "'s \<Rightarrow> int option"
  setLastPruned :: "int \<Rightarrow> 's \<Rightarrow> 's"
  Remover :: "'k \<Rightarrow> 's \<Rightarrow> bool \<times> 's"
  PostPruneEpoch :: "int \<Rightarrow> 's \<Rightarrow> 's"

fun pruneKeys ::
  "('k \<Rightarrow> 's \<Rightarrow> bool \<times> 's) \<Rightarrow> int \<Rightarrow> 'k list \<Rightarrow> int \<Rightarrow> 's \<Rightarrow> (int + int) \<times> 's" where
  "pruneKeys remover prunesLeft [] prunedCount st = (Inr prunedCount, st)"
| "pruneKeys remover prunesLeft (k # ks) prunedCount st =
     (let (ok, st1) = remover k st in
      if \<not> ok then (Inl prunedCount, st1)
      else if prunedCount + 1 \<ge> prunesLeft then (Inr (prunedCount + 1), st1)
      else pruneKeys remover prunesLeft ks (prunedCount + 1) st1)"

definition PruneEpoch :: "('k, 's) Pruner \<Rightarrow> int \<Rightarrow> int \<Rightarrow> 's \<Rightarrow> (int + int) \<times> 's" where
  "PruneEpoch p epoch prunesLeft st = pruneKeys (Remover p) prunesLeft (keysOf p st epoch) 0 st"

definition getEpochsToPrune :: "nat \<Rightarrow> int \<Rightarrow> int \<Rightarrow> int \<times> int" where
  "getEpochsToPrune pruningThreshold currentEpochIndex lastPrunedEpoch =
     (let startEpoch = lastPrunedEpoch + 1;
          endEpoch = currentEpochIndex - int pruningThreshold;
          endEpoch = (if endEpoch < 0 then 0 else endEpoch)
      in (startEpoch, endEpoch))"

text \<open>
  The loop over the epochs. The counter of pruned items is not advanced by the code: every epoch
  is given the whole budget.
\<close>

function pruneEpochs :: "('k, 's) Pruner \<Rightarrow> int \<Rightarrow> int \<Rightarrow> 's \<Rightarrow> bool \<times> 's" where
  "pruneEpochs p epoch endEpoch st =
     (if epoch > endEpoch then (True, st)
      else
        case PruneEpoch p epoch (PruningMax p - 0) st of
          (Inl _, st1) \<Rightarrow> pruneEpochs p (epoch + 1) endEpoch st1
        | (Inr prunedForEpoch, st1) \<Rightarrow>
           if prunedForEpoch = 0
           then
             let st2 = PostPruneEpoch p epoch st1
             in case getLastPruned p st2 of
                  None \<Rightarrow> (False, st2)
                | Some lastPruned \<Rightarrow>
                   pruneEpochs p (epoch + 1) endEpoch
                     (if lastPruned < epoch then setLastPruned p epoch st2 else st2)
           else pruneEpochs p (epoch + 1) endEpoch st1)"
  by pat_completeness auto
termination
  by (relation "measure (\<lambda>(p, epoch, endEpoch, st). nat (endEpoch + 1 - epoch))") auto

declare pruneEpochs.simps [simp del]

definition Prune :: "('k, 's) Pruner \<Rightarrow> int \<Rightarrow> 's \<Rightarrow> bool \<times> 's" where
  "Prune p currentEpochIndex st =
     (case getLastPruned p st of
        None \<Rightarrow> (False, st)
      | Some lastPruned \<Rightarrow>
         let (startEpoch, endEpoch) = getEpochsToPrune (Threshold p) currentEpochIndex lastPruned
         in if startEpoch > endEpoch then (True, st) else pruneEpochs p startEpoch endEpoch st)"

section \<open>Devshard escrows\<close>

text \<open>Addresses in the order of their first slot, with the number of shares each is owed.\<close>

fun shareByAddr :: "u64 \<Rightarrow> string list \<Rightarrow> (string \<times> u64) list \<Rightarrow> (string \<times> u64) list" where
  "shareByAddr share [] acc = acc"
| "shareByAddr share (addr # slots) acc =
     shareByAddr share slots
       (if addr \<in> fst ` set acc
        then map (\<lambda>(a, x). if a = addr then (a, x + share) else (a, x)) acc
        else acc @ [(addr, share)])"

definition distributeOne ::
  "chain_env \<Rightarrow> u64 \<Rightarrow> ChainState \<Rightarrow> string \<times> u64 \<Rightarrow> ChainState" where
  "distributeOne env epochIndex st p =
     (case ResolveClaimRecipientAddress env st (fst p) epochIndex of
        Inl _ \<Rightarrow> st
      | Inr recipient \<Rightarrow>
         (case GetCoins (snd p) of
            Inl _ \<Rightarrow> st
          | Inr coins \<Rightarrow>
             (case bankSend env (ToAccount recipient coins ''devshard_escrow_unsettled_distribution'') st of
                Inl _ \<Rightarrow> st
              | Inr st1 \<Rightarrow> st1)))"

definition distributeUnsettledEscrow :: "chain_env \<Rightarrow> DevshardEscrow \<Rightarrow> ChainState \<Rightarrow> ChainState" where
  "distributeUnsettledEscrow env escrow st =
     (let slotCount = of_nat (length (e_Slots escrow)) :: u64 in
      if slotCount = 0 then st
      else
        let share = e_Amount escrow div slotCount in
        if share = 0 then st
        else foldl (distributeOne env (e_EpochIndex escrow)) st (shareByAddr share (e_Slots escrow) []))"

definition removeDevshardEscrow :: "chain_env \<Rightarrow> u64 \<times> u64 \<Rightarrow> ChainState \<Rightarrow> bool \<times> ChainState" where
  "removeDevshardEscrow env key st =
     (let (epochIndex, escrowID) = key;
          st1 = (case GetDevshardEscrow st escrowID of
                   None \<Rightarrow> st
                 | Some escrow \<Rightarrow>
                    if \<not> e_Settled escrow then distributeUnsettledEscrow env escrow st else st)
      in (True, st1\<lparr>Escrows := kv_del escrowID (Escrows st1),
                    EscrowsByEpoch := kv_del (epochIndex, escrowID) (EscrowsByEpoch st1)\<rparr>))"

definition postPruneDevshardEpoch :: "int \<Rightarrow> ChainState \<Rightarrow> ChainState" where
  "postPruneDevshardEpoch epoch st =
     (let epochIndex = of_int epoch :: u64 in
      st\<lparr>HostEpochStats := filter (\<lambda>((e, _), _). e \<noteq> epochIndex) (HostEpochStats st),
         EscrowEpochCount := kv_del epochIndex (EscrowEpochCount st)\<rparr>)"

definition DevshardPruningThreshold :: nat where
  "DevshardPruningThreshold = 2"

definition DevshardPruningMax :: int where
  "DevshardPruningMax = 100"

definition GetDevshardPruner :: "chain_env \<Rightarrow> (u64 \<times> u64, ChainState) Pruner" where
  "GetDevshardPruner env =
     \<lparr>Threshold = DevshardPruningThreshold, PruningMax = DevshardPruningMax,
      keysOf = (\<lambda>st epoch. filter (\<lambda>k. fst k = of_int epoch) (map fst (EscrowsByEpoch st))),
      getLastPruned = (\<lambda>st. map_option sint (DevshardPrunedEpoch st)),
      setLastPruned = (\<lambda>epoch st. st\<lparr>DevshardPrunedEpoch := Some (of_int epoch)\<rparr>),
      Remover = removeDevshardEscrow env,
      PostPruneEpoch = postPruneDevshardEpoch\<rparr>"

section \<open>Claim recipients\<close>

text \<open>The last pruned epoch of the claim recipients is a second component of the state.\<close>

definition GetClaimRecipientPruner :: "(u64 \<times> bytes, ChainState \<times> i64 option) Pruner" where
  "GetClaimRecipientPruner =
     \<lparr>Threshold = 5, PruningMax = 1000,
      keysOf = (\<lambda>(st, _) epoch. filter (\<lambda>k. fst k = of_int epoch) (map fst (ClaimRecipientsByEpoch st))),
      getLastPruned = (\<lambda>(_, l). map_option sint l),
      setLastPruned = (\<lambda>epoch (st, l). (st, Some (of_int epoch))),
      Remover = (\<lambda>(epoch, participant) (st, l). (True, (RemoveClaimRecipientForEpoch participant epoch st, l))),
      PostPruneEpoch = (\<lambda>_ s. s)\<rparr>"

end
