(* ===== verification/ChainSolvency.thy ===== *)
theory ChainSolvency
  imports ChainPayout ChainPruning
begin

text \<open>
  The escrow account over time: creation, settlement, pruning and claim recipients as a step
  relation, with the invariant that the module has always received at least what it has paid
  out and still holds for unsettled escrows. The pruner is treated once, as a locale that lifts
  an invariant of the removal of one key to whole calls.
\<close>

section \<open>Invariants of a pruner\<close>

locale pruner_invariant =
  fixes p :: "('k, 's) Pruner" and I :: "'s \<Rightarrow> bool"
  assumes remover: "I s \<Longrightarrow> I (snd (Remover p k s))"
    and post: "I s \<Longrightarrow> I (PostPruneEpoch p e s)"
    and mark: "I s \<Longrightarrow> I (setLastPruned p e s)"
begin

lemma keys_inv: "I s \<Longrightarrow> I (snd (pruneKeys (Remover p) b ks n s))"
proof (induction ks arbitrary: n s)
  case (Cons k ks)
  then show ?case
    using remover [of s k] by (auto simp: Let_def split: prod.splits)
qed simp

lemma epochs_inv: "I s \<Longrightarrow> I (snd (pruneEpochs p e f s))"
proof (induction "nat (f + 1 - e)" arbitrary: e s rule: less_induct)
  case less
  obtain r s1 where r: "PruneEpoch p e (PruningMax p) s = (r, s1)"
    by fastforce
  have s1: "I s1"
    using keys_inv [OF less.prems] r by (metis PruneEpoch_def snd_conv)
  show ?case
  proof (cases "e > f")
    case False
    then have step: "I t \<Longrightarrow> I (snd (pruneEpochs p (e + 1) f t))" for t
      by (intro less.hyps) auto
    show ?thesis
      using False s1
      by (subst pruneEpochs.simps)
        (auto simp: r Let_def step post mark split: sum.splits option.splits)
  qed (use less.prems in \<open>simp add: pruneEpochs.simps\<close>)
qed

lemma prune_inv: "I s \<Longrightarrow> I (snd (Prune p cur s))"
  by (auto simp: Prune_def Let_def epochs_inv split: option.splits prod.splits)

end

section \<open>Claim recipients\<close>

text \<open>The schedule and its index by epoch hold the same entries, and every recipient is an address.\<close>

definition recipients_ok :: "chain_env \<Rightarrow> ChainState \<Rightarrow> bool" where
  "recipients_ok env st \<longleftrightarrow>
     (\<forall>a e. kv_get (ClaimRecipients st) (a, e) = None \<longleftrightarrow> kv_get (ClaimRecipientsByEpoch st) (e, a) = None)
     \<and> (\<forall>k r. kv_get (ClaimRecipients st) k = Some r \<longrightarrow> AccAddressFromBech32 env r \<noteq> None)"

lemma recipients_set:
  "recipients_ok env st \<Longrightarrow> AccAddressFromBech32 env r \<noteq> None \<Longrightarrow>
   recipients_ok env (SetClaimRecipientForEpoch a e r st)"
  by (auto simp: recipients_ok_def SetClaimRecipientForEpoch_def)

lemma recipients_remove:
  "recipients_ok env st \<Longrightarrow> recipients_ok env (RemoveClaimRecipientForEpoch a e st)"
  by (auto simp: recipients_ok_def RemoveClaimRecipientForEpoch_def)

lemma recipients_entries:
  "applyClaimRecipientEntries env a cur es st = Inr st' \<Longrightarrow> recipients_ok env st \<Longrightarrow> recipients_ok env st'"
proof (induction es arbitrary: st)
  case (Cons x es)
  then obtain st1 where "applyClaimRecipientEntry env a x cur st = Inr st1"
      "applyClaimRecipientEntries env a cur es st1 = Inr st'"
    by (auto simp: bindE_Inr_iff)
  moreover from this(1) Cons.prems(2) have "recipients_ok env st1"
    by (auto simp: applyClaimRecipientEntry_def Let_def recipients_set recipients_remove split: prod.splits if_splits)
  ultimately show ?case using Cons.IH by blast
qed simp

interpretation claim_pruner: pruner_invariant GetClaimRecipientPruner "\<lambda>s. recipients_ok env (fst s)" for env
  by unfold_locales (auto simp: GetClaimRecipientPruner_def recipients_remove)

section \<open>The escrow account\<close>

definition escrow_held :: "DevshardEscrow \<Rightarrow> nat" where
  "escrow_held e = (if e_Settled e then 0 else unat (e_Amount e))"

abbreviation locked_sum :: "BankOp list \<Rightarrow> nat" where
  "locked_sum ops \<equiv> (\<Sum>bop\<leftarrow>ops. paidIn bop)"

definition escrow_ok :: "u64 \<Rightarrow> DevshardEscrow \<Rightarrow> bool" where
  "escrow_ok i e \<longleftrightarrow> e_Id e = i \<and> unat (e_Amount e) \<le> MaxInt64 \<and> length (e_Slots e) < 2 ^ 32"

definition counter_of :: "ChainState \<Rightarrow> nat" where
  "counter_of st = (case EscrowCounter st of None \<Rightarrow> 0 | Some c \<Rightarrow> unat c)"

definition solvent :: "ChainState \<Rightarrow> bool" where
  "solvent st \<longleftrightarrow>
     kv_inv (Escrows st)
     \<and> (\<forall>i e. kv_get (Escrows st) i = Some e \<longrightarrow> escrow_ok i e \<and> unat i \<le> counter_of st)
     \<and> paid_sum (bankLog st) + kv_sum (\<lambda>_. escrow_held) (Escrows st) \<le> locked_sum (bankLog st)"

lemma solventI:
  assumes "kv_inv (Escrows st)"
    and "\<And>i e. kv_get (Escrows st) i = Some e \<Longrightarrow> escrow_ok i e \<and> unat i \<le> counter_of st"
    and "paid_sum (bankLog st) + kv_sum (\<lambda>_. escrow_held) (Escrows st) \<le> locked_sum (bankLog st)"
  shows "solvent st"
  using assms by (simp add: solvent_def)

lemma solvent_get:
  assumes "solvent st" and "kv_get (Escrows st) i = Some e"
  shows "escrow_ok i e" and "unat i \<le> counter_of st"
  using assms by (auto simp: solvent_def)

text \<open>Steps that keep the escrows, their counter and the bank log keep solvency.\<close>

lemma solvent_cong:
  "Escrows st' = Escrows st \<Longrightarrow> EscrowCounter st' = EscrowCounter st \<Longrightarrow> bankLog st' = bankLog st \<Longrightarrow>
   solvent st' \<longleftrightarrow> solvent st"
  by (simp add: solvent_def counter_of_def)

lemma pays_locked: "pays ops \<Longrightarrow> locked_sum ops = 0"
  by (induction ops) (auto simp: pays_def)

subsection \<open>Creation\<close>

lemma length_slots:
  "length (GetSlotsFromSorted h a m es t n) \<le> n"
  by (simp add: GetSlotsFromSorted_def Let_def)

lemma GetCoins_iff: "GetCoins x = Inr y \<longleftrightarrow> y = x \<and> unat x \<le> MaxInt64"
proof -
  have u: "uint x = int (unat x)" "unat x < 2 ^ 64"
    using unat_u64_bound [of x] by simp_all
  have "sint x < 0 \<longleftrightarrow> \<not> unat x \<le> MaxInt64"
    using u(2) unfolding sint_i64 u(1) MaxInt64_def by (simp del: of_nat_unat)
  then show ?thesis by (auto simp: GetCoins_def)
qed

lemma Create_parts:
  assumes "CreateDevshardEscrow env msg st = Inr (i, st')"
  obtains a e where "unat i = counter_of st + 1" and "escrow_ok i e"
    and "\<not> e_Settled e" and "e_Amount e = mc_Amount msg" and "Escrows st' = kv_set i e (Escrows st)"
    and "EscrowCounter st' = Some i"
    and "bankLog st' = bankLog st @ [FromAccount a (mc_Amount msg) ''devshard_escrow_lock'']"
    and "EscrowsByEpoch st' = kv_set (e_EpochIndex e, i) () (EscrowsByEpoch st)"
proof -
  let ?c = "case EscrowCounter st of None \<Rightarrow> 0 | Some c \<Rightarrow> c"
  have "\<exists>ep epochIndex h slots a. ?c \<noteq> maxU64 \<and> length slots \<le> unat (dp_GroupSize ep)
      \<and> unat (mc_Amount msg) \<le> MaxInt64
      \<and> (i, st') = StoreDevshardEscrow (newEscrow msg ep epochIndex h slots) (?c + 1)
          (st\<lparr>bankLog := bankLog st @ [FromAccount a (mc_Amount msg) ''devshard_escrow_lock'']\<rparr>)"
    using assms unfolding CreateDevshardEscrow_def Let_def case_prod_beta
    by (simp only: inr_iffs GetCoins_iff bankSend_def sum.inject)
      (elim exE conjE, intro exI conjI, assumption, rule length_slots, assumption, hypsubst, rule sym, assumption)
  then obtain ep epochIndex h slots a where c: "?c \<noteq> maxU64" and len: "length slots \<le> unat (dp_GroupSize ep)"
      and amount: "unat (mc_Amount msg) \<le> MaxInt64"
      and st': "(i, st') = StoreDevshardEscrow (newEscrow msg ep epochIndex h slots) (?c + 1)
          (st\<lparr>bankLog := bankLog st @ [FromAccount a (mc_Amount msg) ''devshard_escrow_lock'']\<rparr>)"
    by blast
  define e where "e = (newEscrow msg ep epochIndex h slots)\<lparr>e_Id := i\<rparr>"
  have i: "i = ?c + 1"
    using st' by (simp add: StoreDevshardEscrow_def Let_def)
  have "unat ?c \<noteq> unat maxU64"
    using c by (simp only: word_unat_eq_iff [symmetric] not_False_eq_True)
  then have "unat (?c + 1) = unat ?c + 1"
    using unat_u64_le [of ?c] by (subst unat_u64_add) auto
  then have "unat i = counter_of st + 1"
    by (simp add: i counter_of_def split: option.splits)
  moreover have "escrow_ok i e"
  proof -
    have "unat (dp_GroupSize ep) < 2 ^ 32"
      using unsigned_less [where ?'a = nat, of "dp_GroupSize ep"] by simp
    then show ?thesis
      using len amount by (simp add: escrow_ok_def e_def newEscrow_def)
  qed
  ultimately show thesis
    using st' by (intro that [of e a])
      (auto simp: StoreDevshardEscrow_def Let_def e_def newEscrow_def IncrementDevshardEscrowEpochCount_def)
qed

lemma Create_solvent:
  assumes "CreateDevshardEscrow env msg st = Inr (i, st')" and ok: "solvent st"
  shows "solvent st'"
proof -
  obtain a e where e: "unat i = counter_of st + 1" "escrow_ok i e" "\<not> e_Settled e" "e_Amount e = mc_Amount msg"
      "Escrows st' = kv_set i e (Escrows st)" "EscrowCounter st' = Some i"
      "bankLog st' = bankLog st @ [FromAccount a (mc_Amount msg) ''devshard_escrow_lock'']"
    using Create_parts [OF assms(1)] by metis
  have fresh: "kv_get (Escrows st) i = None"
    using solvent_get(2) [OF ok, of i] e(1) by (cases "kv_get (Escrows st) i") auto
  have "kv_sum (\<lambda>_. escrow_held) (Escrows st') = kv_sum (\<lambda>_. escrow_held) (Escrows st) + unat (mc_Amount msg)"
    using ok kvs.total_upd_new [OF _ fresh, of "\<lambda>_. escrow_held" e] e(3,4)
    by (simp add: e(5) solvent_def escrow_held_def)
  moreover have "kv_inv (Escrows st)" "counter_of st' = Suc (counter_of st)"
    "paid_sum (bankLog st) + kv_sum (\<lambda>_. escrow_held) (Escrows st) \<le> locked_sum (bankLog st)"
    using ok e(1,6) by (auto simp: solvent_def counter_of_def)
  ultimately show ?thesis
    using e solvent_get [OF ok] by (intro solventI) (auto simp: le_SucI split: if_splits)
qed

subsection \<open>Settlement\<close>

lemma Settle_effect:
  assumes "SettleDevshardEscrow env msg st = Inr st'"
  obtains escrow ops where "kv_get (Escrows st) (ms_EscrowId msg) = Some escrow" and "\<not> e_Settled escrow"
    and "Escrows st' = kv_set (e_Id escrow) (escrow\<lparr>e_Settled := True\<rparr>) (Escrows st)"
    and "EscrowCounter st' = EscrowCounter st" and "EscrowsByEpoch st' = EscrowsByEpoch st"
    and "bankLog st' = bankLog st @ ops" and "locked_sum ops = 0" and "paid_sum ops \<le> unat (e_Amount escrow)"
proof -
  obtain escrow where escrow: "kv_get (Escrows st) (ms_EscrowId msg) = Some escrow"
    using assms by (auto simp: SettleDevshardEscrow_def GetDevshardEscrow_def inr_iffs)
  obtain p cur parts current payouts t parts1 touched1 st1 st2 parts2 touched2 st3 st4
    where ver: "VerifyDevshardSettlement env escrow msg (Some p) (Some (HasWarmKeyGrant env)) = Inr ()"
      and "e_Slots escrow \<noteq> []" and "DevshardParams st = Some (Some p)"
      and "loadParticipants env escrow cur st (sort (remdups (e_Slots escrow))) = Inr (parts, current)"
      and payouts: "validatorPayouts (e_Slots escrow) (ms_Fees msg div of_nat (length (e_Slots escrow)))
        (ms_HostStats msg) [] (ms_Fees msg mod of_nat (length (e_Slots escrow))) = Inr (payouts, 0)"
        "sumPayouts payouts 0 = Inr t" and t: "t \<le> e_Amount escrow"
      and pay: "payValidators env escrow payouts current (e_Slots escrow) [] (parts, [], st) = Inr (parts1, touched1, st1)"
      and refund: "refundCreator env escrow (e_Amount escrow - t) st1 = Inr st2"
      and agg: "aggregateStats env escrow (ms_Nonce msg) current (ms_HostStats msg) [] (parts1, touched1, st2)
        = Inr (parts2, touched2, st3)"
      and save: "saveParticipants env parts2 (sort (remdups touched2)) st3 = Inr st4"
      and st': "st' = SetDevshardEscrow (escrow\<lparr>e_Settled := True\<rparr>) st4"
    by (rule Settle_parts [OF assms escrow])
  obtain payments where payments: "st1 = st\<lparr>bankLog := bankLog st @ payments\<rparr>" "pays payments"
      "paid_sum payments = (\<Sum>a \<in> {a \<in> set (e_Slots escrow). kv_get current a \<noteq> Some True}. unat (owed payouts a))"
    using payValidators_effect [OF pay] by auto
  obtain ops where ops: "st2 = st1\<lparr>bankLog := bankLog st1 @ ops\<rparr>" "paid_sum ops = unat (e_Amount escrow - t)" "pays ops"
    using refundCreator_effect [OF refund] by (fastforce simp: pays_def)
  have "\<exists>m m'. st4 = st2\<lparr>HostEpochStats := m, Participants := m'\<rparr>"
    using aggregateStats_effect [OF agg] saveParticipants_frame [OF save] by auto
  then obtain m m' where st4: "st4 = st2\<lparr>HostEpochStats := m, Participants := m'\<rparr>" by blast
  have v: "kv_inv payouts" "dom (kv_get payouts) \<subseteq> set (e_Slots escrow)"
    using validatorPayouts_sums [OF payouts(1)] by simp_all
  have "paid_sum payments \<le> (\<Sum>a \<in> set (e_Slots escrow). unat (owed payouts a))"
    unfolding payments(3) by (rule sum_mono2) auto
  also have "\<dots> = unat t"
    using sumPayouts_sum [OF payouts(2)] payout_sum_slots [OF v] by simp
  finally have "paid_sum (payments @ ops) \<le> unat (e_Amount escrow)"
    using t by (simp add: ops(2) unat_sub word_le_nat_alt)
  moreover have "locked_sum (payments @ ops) = 0"
    using pays_locked payments(2) ops(3) by simp
  moreover have "\<not> e_Settled escrow"
    using ver by (auto simp: VerifyDevshardSettlement_def)
  ultimately show thesis
    using escrow by (intro that [of escrow "payments @ ops"])
      (simp_all add: st' SetDevshardEscrow_def st4 ops(1) payments(1))
qed

lemma Settle_solvent:
  assumes "SettleDevshardEscrow env msg st = Inr st'" and ok: "solvent st"
  shows "solvent st'"
proof -
  obtain escrow ops where e: "kv_get (Escrows st) (ms_EscrowId msg) = Some escrow" "\<not> e_Settled escrow"
      "Escrows st' = kv_set (e_Id escrow) (escrow\<lparr>e_Settled := True\<rparr>) (Escrows st)"
      "EscrowCounter st' = EscrowCounter st" "bankLog st' = bankLog st @ ops" "locked_sum ops = 0"
      "paid_sum ops \<le> unat (e_Amount escrow)"
    using Settle_effect [OF assms(1)] by metis
  have i: "e_Id escrow = ms_EscrowId msg" "escrow_ok (ms_EscrowId msg) escrow"
    using ok e(1) by (auto simp: solvent_def escrow_ok_def)
  have "kv_sum (\<lambda>_. escrow_held) (Escrows st') + unat (e_Amount escrow) = kv_sum (\<lambda>_. escrow_held) (Escrows st)"
    using ok kvs.total_upd_old [OF _ e(1), of "\<lambda>_. escrow_held" "escrow\<lparr>e_Settled := True\<rparr>"] e(2)
    by (simp add: e(3) i(1) solvent_def escrow_held_def)
  then show ?thesis
    using ok e i by (intro solventI) (auto simp: solvent_def counter_of_def escrow_ok_def split: if_splits)
qed

subsection \<open>Pruning\<close>

text \<open>The shares of an unsettled escrow: one per slot, and together no more than its amount.\<close>

lemma share_one:
  assumes "addr \<in> fst ` set acc" and "distinct (map fst acc)"
    and "(\<Sum>p\<leftarrow>acc. unat (snd p)) + unat share < 2 ^ 64"
  shows "(\<Sum>p\<leftarrow>map (\<lambda>(a, x). if a = addr then (a, x + share) else (a, x)) acc. unat (snd p))
    = (\<Sum>p\<leftarrow>acc. unat (snd p)) + unat (share :: u64)"
  using assms
proof (induction acc)
  case (Cons p acc)
  obtain a x where p: "p = (a, x)" by fastforce
  show ?case
  proof (cases "a = addr")
    case True
    then have "map (\<lambda>(a, x). if a = addr then (a, x + share) else (a, x)) acc = acc"
      using Cons.prems(2) p by (intro map_idI) (auto simp: rev_image_eqI)
    moreover have "unat (x + share) = unat x + unat share"
      using Cons.prems(3) p by (subst unat_u64_add) auto
    ultimately show ?thesis using True p by simp
  next
    case False
    then show ?thesis using Cons p by simp
  qed
qed simp

lemma shareByAddr_sum:
  "distinct (map fst acc) \<Longrightarrow>
   (\<Sum>p\<leftarrow>acc. unat (snd p)) + length slots * unat share < 2 ^ 64 \<Longrightarrow>
   (\<Sum>p\<leftarrow>shareByAddr share slots acc. unat (snd p)) = (\<Sum>p\<leftarrow>acc. unat (snd p)) + length slots * unat share"
proof (induction slots arbitrary: acc)
  case (Cons a slots)
  define new where "new = (if a \<in> fst ` set acc
    then map (\<lambda>(b, x). if b = a then (b, x + share) else (b, x)) acc else acc @ [(a, share)])"
  have "map fst (map (\<lambda>(b, x). if b = a then (b, x + share) else (b, x)) acc) = map fst acc"
    by (induction acc) auto
  then have "distinct (map fst new)"
    using Cons.prems(1) by (cases "a \<in> fst ` set acc") (simp_all add: new_def del: map_map)
  moreover have "(\<Sum>p\<leftarrow>new. unat (snd p)) = (\<Sum>p\<leftarrow>acc. unat (snd p)) + unat share"
    using share_one [OF _ Cons.prems(1), of a share] Cons.prems(2) by (cases "a \<in> fst ` set acc") (simp_all add: new_def)
  ultimately show ?case
    using Cons.IH [of new] Cons.prems(2) by (simp add: new_def [symmetric])
qed simp

lemma distribute_effect:
  "\<exists>ops. foldl (distributeOne env ep) st ps = st\<lparr>bankLog := bankLog st @ ops\<rparr> \<and> pays ops
     \<and> paid_sum ops \<le> (\<Sum>p\<leftarrow>ps. unat (snd p))"
proof (induction ps arbitrary: st)
  case Nil
  then show ?case by (intro exI [of _ "[]"]) (simp add: pays_def)
next
  case (Cons p ps)
  have "\<exists>ops. distributeOne env ep st p = st\<lparr>bankLog := bankLog st @ ops\<rparr> \<and> pays ops \<and> paid_sum ops \<le> unat (snd p)"
    (is "\<exists>ops. ?P ops")
  proof (cases "distributeOne env ep st p = st")
    case True
    then show ?thesis by (intro exI [of _ "[]"]) (simp add: pays_def)
  next
    case False
    then obtain r where "distributeOne env ep st p = st\<lparr>bankLog := bankLog st
        @ [ToAccount r (snd p) ''devshard_escrow_unsettled_distribution'']\<rparr>"
      by (auto simp: distributeOne_def bankSend_def GetCoins_def split: sum.splits if_splits)
    then show ?thesis
      by (intro exI [of _ "[ToAccount r (snd p) ''devshard_escrow_unsettled_distribution'']"]) (simp add: pays_def)
  qed
  then obtain ops where ops: "?P ops" by blast
  then obtain ops' where "foldl (distributeOne env ep) (distributeOne env ep st p) ps
      = (distributeOne env ep st p)\<lparr>bankLog := bankLog (distributeOne env ep st p) @ ops'\<rparr>"
      "pays ops'" "paid_sum ops' \<le> (\<Sum>p\<leftarrow>ps. unat (snd p))"
    using Cons.IH by blast
  with ops show ?case
    by (intro exI [of _ "ops @ ops'"]) (auto simp: pays_def)
qed

lemma distributeUnsettled_effect:
  assumes "length (e_Slots escrow) < 2 ^ 32"
  shows "\<exists>ops. distributeUnsettledEscrow env escrow st = st\<lparr>bankLog := bankLog st @ ops\<rparr> \<and> pays ops
     \<and> paid_sum ops \<le> unat (e_Amount escrow)"
proof -
  define n :: u64 where "n = of_nat (length (e_Slots escrow))"
  define share where "share = e_Amount escrow div n"
  have n: "unat n = length (e_Slots escrow)"
    using assms by (simp add: n_def unsigned_of_nat take_bit_eq_mod)
  have le: "length (e_Slots escrow) * unat share \<le> unat (e_Amount escrow)"
    by (simp add: share_def unat_div_distrib flip: n)
  then have "(\<Sum>p\<leftarrow>shareByAddr share (e_Slots escrow) []. unat (snd p)) = length (e_Slots escrow) * unat share"
    using unat_u64_bound [of "e_Amount escrow"] by (subst shareByAddr_sum) auto
  then have "\<exists>ops. foldl (distributeOne env (e_EpochIndex escrow)) st (shareByAddr share (e_Slots escrow) [])
      = st\<lparr>bankLog := bankLog st @ ops\<rparr> \<and> pays ops \<and> paid_sum ops \<le> unat (e_Amount escrow)"
    using distribute_effect [of env "e_EpochIndex escrow" st "shareByAddr share (e_Slots escrow) []"] le
    by (metis order_trans)
  moreover have "\<exists>ops. st = st\<lparr>bankLog := bankLog st @ ops\<rparr> \<and> pays ops \<and> paid_sum ops \<le> unat (e_Amount escrow)"
    by (intro exI [of _ "[]"]) (simp add: pays_def)
  moreover have "distributeUnsettledEscrow env escrow st = (if n = 0 \<or> share = 0 then st
      else foldl (distributeOne env (e_EpochIndex escrow)) st (shareByAddr share (e_Slots escrow) []))"
    by (simp add: distributeUnsettledEscrow_def Let_def n_def share_def)
  ultimately show ?thesis by presburger
qed

lemma remove_effect:
  assumes "solvent st"
  shows "\<exists>ops. snd (removeDevshardEscrow env (ep, i) st) = st\<lparr>bankLog := bankLog st @ ops,
      Escrows := kv_del i (Escrows st), EscrowsByEpoch := kv_del (ep, i) (EscrowsByEpoch st)\<rparr> \<and> pays ops
    \<and> paid_sum ops \<le> (case kv_get (Escrows st) i of None \<Rightarrow> 0 | Some e \<Rightarrow> escrow_held e)"
proof -
  let ?s = "case kv_get (Escrows st) i of None \<Rightarrow> st
    | Some e \<Rightarrow> if \<not> e_Settled e then distributeUnsettledEscrow env e st else st"
  have keep: "\<exists>ops. st = st\<lparr>bankLog := bankLog st @ ops\<rparr> \<and> pays ops \<and> paid_sum ops \<le> x" for x
    by (intro exI [of _ "[]"]) (simp add: pays_def)
  have "\<exists>ops. ?s = st\<lparr>bankLog := bankLog st @ ops\<rparr> \<and> pays ops
      \<and> paid_sum ops \<le> (case kv_get (Escrows st) i of None \<Rightarrow> 0 | Some e \<Rightarrow> escrow_held e)"
  proof (cases "kv_get (Escrows st) i")
    case (Some e)
    then have "length (e_Slots e) < 2 ^ 32"
      using solvent_get(1) [OF assms] by (auto simp: escrow_ok_def)
    then show ?thesis
      using Some keep [of 0] distributeUnsettled_effect [of e env st] by (simp add: escrow_held_def)
  qed (use keep [of 0] in simp)
  then obtain ops where "?s = st\<lparr>bankLog := bankLog st @ ops\<rparr>" "pays ops"
      "paid_sum ops \<le> (case kv_get (Escrows st) i of None \<Rightarrow> 0 | Some e \<Rightarrow> escrow_held e)"
    by blast
  then show ?thesis
    unfolding removeDevshardEscrow_def Let_def GetDevshardEscrow_def prod.case snd_conv
    by (intro exI [of _ ops]) simp
qed

lemma remove_solvent:
  assumes "solvent st"
  shows "solvent (snd (removeDevshardEscrow env k st))"
proof -
  obtain ep i where k: "k = (ep, i)" by fastforce
  obtain ops where ops: "snd (removeDevshardEscrow env k st) = st\<lparr>bankLog := bankLog st @ ops,
      Escrows := kv_del i (Escrows st), EscrowsByEpoch := kv_del (ep, i) (EscrowsByEpoch st)\<rparr>" "pays ops"
      "paid_sum ops \<le> (case kv_get (Escrows st) i of None \<Rightarrow> 0 | Some e \<Rightarrow> escrow_held e)"
    using remove_effect [OF assms] k by blast
  have "kv_inv (Escrows st)" "paid_sum (bankLog st) + kv_sum (\<lambda>_. escrow_held) (Escrows st) \<le> locked_sum (bankLog st)"
    using assms by (auto simp: solvent_def)
  then show ?thesis
    unfolding ops(1)
    using kvs.total_del [of "Escrows st" "\<lambda>_. escrow_held" i] ops(3) pays_locked [OF ops(2)] solvent_get [OF assms]
    by (intro solventI) (auto simp: counter_of_def split: if_splits)
qed

interpretation devshard_pruner: pruner_invariant "GetDevshardPruner env" solvent for env
proof unfold_locales
  fix st e
  show "solvent (PostPruneEpoch (GetDevshardPruner env) e st)" if "solvent st"
    using that by (subst solvent_cong [of _ st]) (simp_all add: GetDevshardPruner_def postPruneDevshardEpoch_def Let_def)
  show "solvent (setLastPruned (GetDevshardPruner env) e st)" if "solvent st"
    using that by (subst solvent_cong [of _ st]) (simp_all add: GetDevshardPruner_def)
qed (simp add: GetDevshardPruner_def remove_solvent)

end
