(* ===== verification/ChainExample.thy ===== *)
theory ChainExample
  imports ChainSolvency
begin

text \<open>
  A concrete chain for the witnesses: two participants, a creator, an escrow that is created,
  settled and pruned. Signatures are recovered from their first byte.
\<close>

definition ex_chain :: chain_env where
  "ex_chain =
     \<lparr>Ecrecover = (\<lambda>h sig. Some [hd sig]), UnmarshalPubkey = Some, CompressPubkey = (\<lambda>k. k),
      ripemd160 = (\<lambda>x. x), ConvertBits = Some, Bech32Encode = (\<lambda>_ _. None),
      RecoverCompact = (\<lambda>sig h. Some [sig ! 1]), SerializeCompressed = (\<lambda>k. k),
      PubKeyAddress = (\<lambda>k. k),
      AccString = (\<lambda>b. if b = [1] then ''a'' else if b = [2] then ''b'' else ''u''),
      AccAddressFromBech32 = (\<lambda>s. if s = ''a'' then Some [1] else if s = ''b'' then Some [2]
        else if s = ''u'' then Some [3] else None),
      chainMarshal = (\<lambda>_. Some []), Grants = (\<lambda>_ _ _. None), bankFails = (\<lambda>_ _. False),
      statusUpdate = (\<lambda>_ p. Some p), HeaderAppHash = []\<rparr>"

definition ex_participant :: "string \<Rightarrow> Participant" where
  "ex_participant a = \<lparr>pt_Index = a, pt_Address = a, pt_Status = 0, pt_CoinBalance = 7,
     pt_ConsecutiveInvalidInferences = 0, pt_EpochsCompleted = 0, pt_CurrentEpochStats = None\<rparr>"

definition ex_params :: DevshardEscrowParams where
  "ex_params = DefaultDevshardEscrowParams\<lparr>dp_MinAmount := 100, dp_MaxAmount := 5000, dp_GroupSize := 2\<rparr>"

definition ex_genesis :: ChainState where
  "ex_genesis =
     \<lparr>Escrows = [], EscrowCounter = None, EscrowsByEpoch = [], EscrowEpochCount = [],
      HostEpochStats = [], Participants = [([1], ex_participant ''a''), ([2], ex_participant ''b'')],
      EffectiveEpochIndex = Some 5, ActiveParticipants = [(5, [1])], ClaimRecipients = [],
      ClaimRecipientsByEpoch = [], DevshardParams = Some (Some ex_params),
      EpochGroups = [((5, ''m''), [(''a'', 1)])], DevshardPrunedEpoch = Some 4, bankLog = []\<rparr>"

definition ex_create :: MsgCreateDevshardEscrow where
  "ex_create = \<lparr>mc_Creator = ''u'', mc_Amount = 1000, mc_ModelId = ''m''\<rparr>"

definition ex_escrow :: "string list \<Rightarrow> DevshardEscrow" where
  "ex_escrow slots = (newEscrow ex_create ex_params 5 [] slots)\<lparr>e_Id := 1\<rparr>"

text \<open>The state after the creation, with the sampled slots replaced by \<open>slots\<close>.\<close>

definition ex_created :: "string list \<Rightarrow> ChainState" where
  "ex_created slots = ex_genesis
     \<lparr>Escrows := [(1, ex_escrow slots)], EscrowCounter := Some 1, EscrowsByEpoch := [((5, 1), ())],
      EscrowEpochCount := [(5, 1)], bankLog := [FromAccount [3] 1000 ''devshard_escrow_lock'']\<rparr>"

lemma ex_create_run:
  "CreateDevshardEscrow ex_chain ex_create ex_genesis = Inr (1, ex_created [''a'', ''a''])"
proof -
  have "PrepareSortedEntries [(''a'', 1)] = ([\<lparr>we_Address = ''a'', we_Weight = 1\<rparr>], 1)"
    by (simp add: PrepareSortedEntries_def Let_def)
  moreover have "GetSlotsFromSorted h p m [\<lparr>we_Address = ''a'', we_Weight = 1\<rparr>] 1 2 = [''a'', ''a'']" for h p m
    by (simp add: GetSlotsFromSorted_def slotRandomVal_def numeral_2_eq_2 Let_def)
  ultimately show ?thesis
    by (simp add: CreateDevshardEscrow_def ex_create_def ex_chain_def ex_genesis_def ex_params_def Let_def
        checkEscrowAllowListPermission_def IsAllowedEscrowCreator_def GetDevshardEscrowParams_def
        DefaultDevshardEscrowParams_def GetDevshardEscrowEpochCount_def GetCoins_def bankSend_def
        StoreDevshardEscrow_def IncrementDevshardEscrowEpochCount_def ex_created_def ex_escrow_def newEscrow_def hex_string_def)
qed

definition ex_stats :: "u32 \<Rightarrow> u64 \<Rightarrow> SettlementHostStats" where
  "ex_stats slot cost = \<lparr>sh_SlotId = slot, sh_Missed = 1, sh_Invalid = 0, sh_Cost = cost,
     sh_RequiredValidations = 2, sh_CompletedValidations = 2\<rparr>"

definition ex_settle :: "u8 \<Rightarrow> MsgSettleDevshardEscrow" where
  "ex_settle signer =
     (let msg = \<lparr>ms_Settler = ''u'', ms_EscrowId = 1, ms_Version = ''v2'', ms_StateRoot = [], ms_Nonce = 9,
            ms_RestHash = replicate 32 0, ms_HostStats = [ex_stats 0 100, ex_stats 1 200],
            ms_Signatures = [(0, replicate 65 1), (1, replicate 65 signer)], ms_Fees = 31\<rparr>
      in msg\<lparr>ms_StateRoot := settlementRoot (sha256 []) msg\<rparr>)"


text \<open>The slot \<open>0\<close> of the escrow is in the current epoch, its amount is credited; slot \<open>1\<close> is paid.\<close>

lemma ex_verify:
  "VerifyDevshardSettlement ex_chain (ex_escrow [''a'', ''b'']) (ex_settle 2) (Some ex_params)
     (Some (HasWarmKeyGrant ex_chain)) = Inr ()"
  "VerifyDevshardSettlement ex_chain (ex_escrow [''a'', ''a'']) (ex_settle 1) (Some ex_params)
     (Some (HasWarmKeyGrant ex_chain)) = Inr ()"
  by (simp_all add: VerifyDevshardSettlement_def ex_settle_def ex_stats_def ex_chain_def ex_escrow_def newEscrow_def
      ex_create_def ex_params_def DefaultDevshardEscrowParams_def Let_def ComputeDevshardHostStatsHash_def
      settlement_proto_def validateDevshardSettlementVersionApproved_def recoverCosmosAddress_def
      HasWarmKeyGrant_def DevshardQuorumFor_def devshardAssignedUpperBoundForSlot_def add64_def
      settlementRoot_def nth_append word_le_nat_alt)

lemma ex_chain_sel:
  "AccString ex_chain = (\<lambda>b. if b = [1] then ''a'' else if b = [2] then ''b'' else ''u'')"
  "AccAddressFromBech32 ex_chain = (\<lambda>s. if s = ''a'' then Some [1] else if s = ''b'' then Some [2]
     else if s = ''u'' then Some [3] else None)"
  "bankFails ex_chain = (\<lambda>_ _. False)" "statusUpdate ex_chain = (\<lambda>_ p. Some p)"
  by (simp_all add: ex_chain_def)

lemma ex_escrow_sel:
  "e_Id (ex_escrow slots) = 1" "e_Creator (ex_escrow slots) = ''u''" "e_Amount (ex_escrow slots) = 1000"
  "e_Slots (ex_escrow slots) = slots" "e_EpochIndex (ex_escrow slots) = 5" "e_Settled (ex_escrow slots) = False"
  by (simp_all add: ex_escrow_def newEscrow_def ex_create_def)

lemma ex_settle_sel:
  "ms_Settler (ex_settle k) = ''u''" "ms_EscrowId (ex_settle k) = 1" "ms_Nonce (ex_settle k) = 9"
  "ms_HostStats (ex_settle k) = [ex_stats 0 100, ex_stats 1 200]" "ms_Fees (ex_settle k) = 31"
  by (simp_all add: ex_settle_def)

lemma ex_stats_sel:
  "sh_SlotId (ex_stats i c) = i" "sh_Missed (ex_stats i c) = 1" "sh_Invalid (ex_stats i c) = 0"
  "sh_Cost (ex_stats i c) = c" "sh_RequiredValidations (ex_stats i c) = 2" "sh_CompletedValidations (ex_stats i c) = 2"
  by (simp_all add: ex_stats_def)

lemma ex_created_sel:
  "Escrows (ex_created slots) = [(1, ex_escrow slots)]" "DevshardParams (ex_created slots) = Some (Some ex_params)"
  "Participants (ex_created slots) = [([1], ex_participant ''a''), ([2], ex_participant ''b'')]"
  "EffectiveEpochIndex (ex_created slots) = Some 5" "ActiveParticipants (ex_created slots) = [(5, [1])]"
  "ClaimRecipients (ex_created slots) = []" "HostEpochStats (ex_created slots) = []"
  "bankLog (ex_created slots) = [FromAccount [3] 1000 ''devshard_escrow_lock'']"
  by (simp_all add: ex_created_def ex_genesis_def)

lemmas ex_sel = ex_chain_sel ex_escrow_sel ex_settle_sel ex_stats_sel ex_created_sel

lemma ex_permitted [simp]:
  "checkEscrowAllowListPermission ex_chain (ex_created slots) signer = Inr ()"
  by (simp add: ex_sel checkEscrowAllowListPermission_def IsAllowedEscrowCreator_def GetDevshardEscrowParams_def
      ex_params_def DefaultDevshardEscrowParams_def)

lemmas settle_eval = SettleDevshardEscrow_def GetDevshardEscrow_def GetParticipant_def add64_def AddToCoinBalance_def
  MaxInt64_def ensureParticipantEpochStats_def ResolveClaimRecipientAddress_def GetClaimRecipientForEpoch_def
  payCoinsDirectly_def GetCoins_def bankSend_def refundCreator_def UpdateDevshardHostEpochStats_def
  devshardAssignedUpperBoundForSlot_def AggregateDevshardHostStatsIntoCurrentEpochStats_def SetParticipant_def
  SetDevshardEscrow_def NewCurrentEpochStats_def Let_def

definition ex_row :: "string \<Rightarrow> u64 \<Rightarrow> DevshardHostEpochStats" where
  "ex_row a cost = \<lparr>he_Participant = a, he_EpochIndex = 5, he_Missed = 1, he_Invalid = 0, he_Cost = cost,
     he_RequiredValidations = 2, he_CompletedValidations = 2, he_EscrowCount = 1\<rparr>"

definition ex_credited :: Participant where
  "ex_credited = (ex_participant ''a'')\<lparr>pt_CoinBalance := 123,
     pt_CurrentEpochStats := Some (NewCurrentEpochStats\<lparr>es_InferenceCount := 3, es_MissedRequests := 1,
       es_EarnedCoins := 116, es_ValidatedInferences := 3\<rparr>)\<rparr>"

definition ex_split :: ChainState where
  "ex_split = (ex_created [''a'', ''b''])
     \<lparr>bankLog := [FromAccount [3] 1000 ''devshard_escrow_lock'', ToAccount [2] 215 ''devshard_escrow_payment'',
        ToAccount [3] 669 ''devshard_escrow_refund''],
      HostEpochStats := [((5, [1]), ex_row ''a'' 100), ((5, [2]), ex_row ''b'' 200)],
      Participants := [([1], ex_credited), ([2], ex_participant ''b'')],
      Escrows := [(1, (ex_escrow [''a'', ''b''])\<lparr>e_Settled := True\<rparr>)]\<rparr>"

lemma ex_split_run:
  "SettleDevshardEscrow ex_chain (ex_settle 2) (ex_created [''a'', ''b'']) = Inr ex_split"
  by (simp add: settle_eval ex_sel ex_verify ex_participant_def ex_split_def ex_row_def ex_credited_def)

text \<open>The settlement of the created escrow, whose two slots have one validator, an epoch later.\<close>

definition ex_later :: ChainState where
  "ex_later = (ex_created [''a'', ''a''])\<lparr>EffectiveEpochIndex := Some 6\<rparr>"

definition ex_settled_chain :: ChainState where
  "ex_settled_chain = ex_later
     \<lparr>bankLog := [FromAccount [3] 1000 ''devshard_escrow_lock'', ToAccount [1] 331 ''devshard_escrow_payment'',
        ToAccount [3] 669 ''devshard_escrow_refund''],
      HostEpochStats := [((5, [1]), (ex_row ''a'' 300)\<lparr>he_Missed := 2, he_RequiredValidations := 4,
        he_CompletedValidations := 4\<rparr>)],
      Escrows := [(1, (ex_escrow [''a'', ''a''])\<lparr>e_Settled := True\<rparr>)]\<rparr>"

lemma ex_later_sel:
  "Escrows ex_later = [(1, ex_escrow [''a'', ''a''])]" "DevshardParams ex_later = Some (Some ex_params)"
  "Participants ex_later = [([1], ex_participant ''a''), ([2], ex_participant ''b'')]"
  "EffectiveEpochIndex ex_later = Some 6" "ActiveParticipants ex_later = [(5, [1])]"
  "ClaimRecipients ex_later = []" "HostEpochStats ex_later = []"
  "bankLog ex_later = [FromAccount [3] 1000 ''devshard_escrow_lock'']"
  "checkEscrowAllowListPermission ex_chain ex_later signer = Inr ()"
  using ex_permitted [of "[''a'', ''a'']" signer]
  by (simp_all add: ex_later_def ex_created_sel checkEscrowAllowListPermission_def IsAllowedEscrowCreator_def
      GetDevshardEscrowParams_def)

lemma ex_settle_run:
  "SettleDevshardEscrow ex_chain (ex_settle 1) ex_later = Inr ex_settled_chain"
  by (simp add: settle_eval ex_sel ex_later_sel ex_verify ex_settled_chain_def ex_row_def)

end
