(* ===== verification/ChainProperties.thy ===== *)
theory ChainProperties
  imports ChainExample
begin

text \<open>
  What the chain guarantees of devshard escrows: the conditions under which a settlement is
  accepted, how it splits an escrow, that the escrow account stays solvent over every history,
  and that an escrow is settled at most once. The witnesses evaluate the handlers on the
  example chain.
\<close>

section \<open>Histories\<close>

text \<open>
  The steps of the chain that concern escrows: the two handlers, the claim recipients, the two
  pruners at the end of a block, and everything else, which does not write the escrow stores.
  The environment may change between steps.
\<close>

inductive escrow_step :: "ChainState \<Rightarrow> ChainState \<Rightarrow> bool" where
  create: "CreateDevshardEscrow env msg st = Inr (i, st') \<Longrightarrow> escrow_step st st'"
| settle: "SettleDevshardEscrow env smsg st = Inr st' \<Longrightarrow> escrow_step st st'"
| recipients: "SetClaimRecipients env creator entries st = Inr st' \<Longrightarrow> escrow_step st st'"
| prune: "snd (Prune (GetDevshardPruner env) cur st) = st' \<Longrightarrow> escrow_step st st'"
| prune_claims: "snd (Prune GetClaimRecipientPruner cur (st, l)) = (st', l') \<Longrightarrow> escrow_step st st'"
| other: "Escrows st' = Escrows st \<Longrightarrow> EscrowCounter st' = EscrowCounter st \<Longrightarrow> bankLog st' = bankLog st \<Longrightarrow>
    escrow_step st st'"

lemma entries_frame:
  "applyClaimRecipientEntries env a cur es st = Inr st' \<Longrightarrow>
   Escrows st' = Escrows st \<and> EscrowCounter st' = EscrowCounter st \<and> bankLog st' = bankLog st"
proof (induction es arbitrary: st)
  case (Cons x es)
  then obtain st1 where "applyClaimRecipientEntry env a x cur st = Inr st1"
      "applyClaimRecipientEntries env a cur es st1 = Inr st'"
    by (auto simp: bindE_Inr_iff)
  with Cons.IH [of st1] show ?case
    by (auto simp: applyClaimRecipientEntry_def Let_def SetClaimRecipientForEpoch_def RemoveClaimRecipientForEpoch_def
        split: prod.splits if_splits)
qed simp

lemma recipients_frame:
  "SetClaimRecipients env creator entries st = Inr st' \<Longrightarrow>
   Escrows st' = Escrows st \<and> EscrowCounter st' = EscrowCounter st \<and> bankLog st' = bankLog st"
  by (auto simp: SetClaimRecipients_def inr_iffs dest: entries_frame)

interpretation claim_frame: pruner_invariant GetClaimRecipientPruner
  "\<lambda>s. Escrows (fst s) = Escrows st \<and> EscrowCounter (fst s) = EscrowCounter st \<and> bankLog (fst s) = bankLog st" for st
  by unfold_locales (auto simp: GetClaimRecipientPruner_def RemoveClaimRecipientForEpoch_def)

lemma prune_claims_frame:
  "snd (Prune GetClaimRecipientPruner cur (st, l)) = (st', l') \<Longrightarrow>
   Escrows st' = Escrows st \<and> EscrowCounter st' = EscrowCounter st \<and> bankLog st' = bankLog st"
  using claim_frame.prune_inv [of "(st, l)" st cur] by simp

lemma step_solvent: "escrow_step st st' \<Longrightarrow> solvent st \<Longrightarrow> solvent st'"
proof (induction rule: escrow_step.induct)
  case (prune env cur st st')
  then show ?case using devshard_pruner.prune_inv [of st env cur] by simp
qed (simp_all add: Create_solvent Settle_solvent recipients_frame prune_claims_frame cong: solvent_cong)

section \<open>Closed escrows\<close>

text \<open>An escrow is closed when its number has been given and it is settled or removed.\<close>

definition closed_escrow :: "u64 \<Rightarrow> ChainState \<Rightarrow> bool" where
  "closed_escrow i st \<longleftrightarrow> unat i \<le> counter_of st \<and> (\<forall>e. kv_get (Escrows st) i = Some e \<longrightarrow> e_Settled e)"

lemma closed_cong:
  "Escrows st' = Escrows st \<Longrightarrow> EscrowCounter st' = EscrowCounter st \<Longrightarrow> closed_escrow i st' \<longleftrightarrow> closed_escrow i st"
  by (simp add: closed_escrow_def counter_of_def)

lemma remove_closed:
  assumes "solvent st" and "closed_escrow i st"
  shows "closed_escrow i (snd (removeDevshardEscrow env k st))"
  using assms(2) remove_effect [OF assms(1), of env "fst k" "snd k"]
  by (auto simp: closed_escrow_def counter_of_def split: if_splits)

interpretation closed_pruner: pruner_invariant "GetDevshardPruner env" "\<lambda>st. solvent st \<and> closed_escrow i st" for env i
proof unfold_locales
  fix st e
  assume st: "solvent st \<and> closed_escrow i st"
  let ?post = "PostPruneEpoch (GetDevshardPruner env) e st"
  let ?mark = "setLastPruned (GetDevshardPruner env) e st"
  have "Escrows ?post = Escrows st" "EscrowCounter ?post = EscrowCounter st"
    by (simp_all add: GetDevshardPruner_def postPruneDevshardEpoch_def Let_def)
  then show "solvent ?post \<and> closed_escrow i ?post"
    using st devshard_pruner.post closed_cong by blast
  have "Escrows ?mark = Escrows st" "EscrowCounter ?mark = EscrowCounter st"
    by (simp_all add: GetDevshardPruner_def)
  then show "solvent ?mark \<and> closed_escrow i ?mark"
    using st devshard_pruner.mark closed_cong by blast
qed (simp add: GetDevshardPruner_def remove_solvent remove_closed)

lemma step_closed:
  "escrow_step st st' \<Longrightarrow> solvent st \<Longrightarrow> closed_escrow i st \<Longrightarrow> closed_escrow i st'"
proof (induction rule: escrow_step.induct)
  case (create env msg st j st')
  then obtain e where "unat j = counter_of st + 1" "Escrows st' = kv_set j e (Escrows st)" "EscrowCounter st' = Some j"
    using Create_parts by metis
  with create.prems(2) show ?case
    by (auto simp: closed_escrow_def counter_of_def)
next
  case (settle env smsg st st')
  obtain escrow where "Escrows st' = kv_set (e_Id escrow) (escrow\<lparr>e_Settled := True\<rparr>) (Escrows st)"
      "EscrowCounter st' = EscrowCounter st"
    by (rule Settle_effect [OF settle.hyps])
  with settle.prems(2) show ?case
    by (auto simp: closed_escrow_def counter_of_def)
next
  case (prune env cur st st')
  then show ?case using closed_pruner.prune_inv [of st i env cur] by simp
qed (simp_all add: recipients_frame prune_claims_frame cong: closed_cong)

lemma steps_closed:
  assumes "escrow_step\<^sup>*\<^sup>* st st'" and "solvent st" and "closed_escrow i st"
  shows "solvent st' \<and> closed_escrow i st'"
  using assms by (induction) (auto dest: step_solvent step_closed)

lemma settle_closes:
  assumes "SettleDevshardEscrow env msg st = Inr st'" and "solvent st"
  shows "closed_escrow (ms_EscrowId msg) st'"
proof -
  obtain e where e: "kv_get (Escrows st) (ms_EscrowId msg) = Some e"
      "Escrows st' = kv_set (e_Id e) (e\<lparr>e_Settled := True\<rparr>) (Escrows st)" "EscrowCounter st' = EscrowCounter st"
    by (rule Settle_effect [OF assms(1)])
  then show ?thesis
    using solvent_get [OF assms(2) e(1)] by (auto simp: closed_escrow_def counter_of_def escrow_ok_def)
qed

lemma closed_rejects: "closed_escrow (ms_EscrowId msg) st \<Longrightarrow> SettleDevshardEscrow env msg st \<noteq> Inr st'"
  using Settle_effect [of env msg st st'] by (auto simp: closed_escrow_def)

section \<open>Properties\<close>

text \<open>The bank operations of a settlement: the payments to validators, then the refund.\<close>

lemma Settle_log:
  assumes pay: "payValidators env escrow payouts current (e_Slots escrow) [] (parts, [], st) = Inr (parts1, touched1, st1)"
    and refund: "refundCreator env escrow rest st1 = Inr st2"
    and agg: "aggregateStats env escrow nonce current stats [] (parts1, touched1, st2) = Inr (parts2, touched2, st3)"
    and save: "saveParticipants env parts2 touched st3 = Inr st4"
  shows "\<exists>payments ops. bankLog st4 = bankLog st @ payments @ ops \<and> pays payments
    \<and> paid_sum payments = (\<Sum>a \<in> {a \<in> set (e_Slots escrow). kv_get current a \<noteq> Some True}. unat (owed payouts a))
    \<and> paid_sum ops = unat rest
    \<and> (\<forall>bop \<in> set ops. \<exists>a. AccAddressFromBech32 env (e_Creator escrow) = Some a
         \<and> bop = ToAccount a rest ''devshard_escrow_refund'')
    \<and> (\<forall>b. coinBalance env st3 b = coinBalance env st b)"
proof -
  obtain payments where payments: "st1 = st\<lparr>bankLog := bankLog st @ payments\<rparr>" "pays payments"
      "paid_sum payments = (\<Sum>a \<in> {a \<in> set (e_Slots escrow). kv_get current a \<noteq> Some True}. unat (owed payouts a))"
    using payValidators_effect [OF pay] by auto
  obtain ops where ops: "st2 = st1\<lparr>bankLog := bankLog st1 @ ops\<rparr>" "paid_sum ops = unat rest"
      "\<forall>bop \<in> set ops. \<exists>a. AccAddressFromBech32 env (e_Creator escrow) = Some a
         \<and> bop = ToAccount a rest ''devshard_escrow_refund''"
    using refundCreator_effect [OF refund] by blast
  obtain m where m: "st3 = st2\<lparr>HostEpochStats := m\<rparr>"
    using aggregateStats_effect [OF agg] by blast
  have "\<exists>m. st4 = st3\<lparr>Participants := m\<rparr>"
    using save by (rule saveParticipants_frame)
  then have "bankLog st4 = bankLog st @ payments @ ops" by (auto simp: m ops(1) payments(1))
  moreover have "coinBalance env st3 b = coinBalance env st b" for b
    by (rule coinBalance_cong) (simp add: m ops(1) payments(1))
  ultimately show ?thesis using payments(2,3) ops(2,3) by blast
qed

text \<open>
  C9. A settlement splits the escrow exactly. When the handler accepts a settlement, the
  validators of the escrow receive their costs and fee shares, by transfer or as credit to
  their balance with the module, and the rest of the escrow is refunded to its creator: the two
  parts add up to the escrowed amount, and nothing else is transferred. (A status update keeps a
  participant's index and balance; participants are stored under the address of their index;
  the slot addresses are distinct accounts.)
\<close>

theorem settlement_splits_escrow:
  assumes "SettleDevshardEscrow env msg st = Inr st'"
    and "kv_get (Escrows st) (ms_EscrowId msg) = Some escrow"
    and "status_keeps env" and "participants_indexed env st"
    and "inj_on (AccAddressFromBech32 env) (set (e_Slots escrow))" and "length (e_Slots escrow) < 2 ^ 32"
  shows "\<exists>payments refund. bankLog st' = bankLog st @ payments @ refund \<and> pays payments
    \<and> paid_sum payments + (\<Sum>a \<in> set (e_Slots escrow). unat (coinBalance env st' a - coinBalance env st a))
        = validators_share escrow msg
    \<and> paid_sum refund + validators_share escrow msg = unat (e_Amount escrow)
    \<and> (\<forall>bop \<in> set refund. \<exists>a x. AccAddressFromBech32 env (e_Creator escrow) = Some a
         \<and> bop = ToAccount a x ''devshard_escrow_refund'')"
proof -
  obtain p cur parts current payouts t parts1 touched1 st1 st2 parts2 touched2 st3 st4
    where "VerifyDevshardSettlement env escrow msg (Some p) (Some (HasWarmKeyGrant env)) = Inr ()"
      and "e_Slots escrow \<noteq> []" and "DevshardParams st = Some (Some p)"
      and load: "loadParticipants env escrow cur st (sort (remdups (e_Slots escrow))) = Inr (parts, current)"
      and payouts: "validatorPayouts (e_Slots escrow) (ms_Fees msg div of_nat (length (e_Slots escrow)))
        (ms_HostStats msg) [] (ms_Fees msg mod of_nat (length (e_Slots escrow))) = Inr (payouts, 0)"
        "sumPayouts payouts 0 = Inr t" and t: "t \<le> e_Amount escrow"
      and pay: "payValidators env escrow payouts current (e_Slots escrow) [] (parts, [], st) = Inr (parts1, touched1, st1)"
      and refund: "refundCreator env escrow (e_Amount escrow - t) st1 = Inr st2"
      and agg: "aggregateStats env escrow (ms_Nonce msg) current (ms_HostStats msg) [] (parts1, touched1, st2)
        = Inr (parts2, touched2, st3)"
      and save: "saveParticipants env parts2 (sort (remdups touched2)) st3 = Inr st4"
      and st': "st' = SetDevshardEscrow (escrow\<lparr>e_Settled := True\<rparr>) st4"
    by (rule Settle_parts [OF assms(1,2)])
  let ?cur = "\<lambda>a. kv_get current a = Some True"
  obtain payments ops where log: "bankLog st4 = bankLog st @ payments @ ops" "pays payments"
      "paid_sum payments = (\<Sum>a \<in> {a \<in> set (e_Slots escrow). \<not> ?cur a}. unat (owed payouts a))"
      "paid_sum ops = unat (e_Amount escrow - t)"
      "\<forall>bop \<in> set ops. \<exists>a. AccAddressFromBech32 env (e_Creator escrow) = Some a
         \<and> bop = ToAccount a (e_Amount escrow - t) ''devshard_escrow_refund''"
      and base: "\<And>b. coinBalance env st3 b = coinBalance env st b"
    using Settle_log [OF pay refund agg save] by blast
  have st'_log: "bankLog st' = bankLog st @ payments @ ops" by (simp add: st' SetDevshardEscrow_def log(1))
  have "coinBalance env st' b = coinBalance env st4 b" for b
    by (rule coinBalance_cong) (simp add: st' SetDevshardEscrow_def)
  then have credit: "coinBalance env st' a - coinBalance env st a = (if ?cur a then owed payouts a else 0)"
    if "a \<in> set (e_Slots escrow)" for a
    using Settle_credit [OF load pay agg save assms(3-5) base that] by simp
  have "paid_sum payments + (\<Sum>a \<in> set (e_Slots escrow). unat (coinBalance env st' a - coinBalance env st a))
      = (\<Sum>a \<in> set (e_Slots escrow). unat (owed payouts a))"
    unfolding log(3) by (rule sum_split_current [where P = ?cur]) (simp_all add: credit)
  moreover have "paid_sum ops + unat t = unat (e_Amount escrow)"
    using t by (simp add: log(4) unat_sub word_le_nat_alt)
  ultimately show ?thesis
    using st'_log log(2,5) Settle_share [OF payouts assms(6)]
    by (intro exI [of _ payments] exI [of _ ops]) auto
qed

theorem settlement_splits_escrow_witness:
  "\<exists>payments refund. bankLog ex_split = bankLog (ex_created [''a'', ''b'']) @ payments @ refund \<and> pays payments
    \<and> paid_sum payments + (\<Sum>a \<in> {''a'', ''b''}. unat (coinBalance ex_chain ex_split a
          - coinBalance ex_chain (ex_created [''a'', ''b'']) a)) = 331
    \<and> paid_sum refund = 669"
proof -
  have "status_keeps ex_chain" "participants_indexed ex_chain (ex_created [''a'', ''b''])"
    "inj_on (AccAddressFromBech32 ex_chain) (set (e_Slots (ex_escrow [''a'', ''b''])))"
    by (auto simp: status_keeps_def participants_indexed_def ex_sel ex_participant_def split: if_splits)
  moreover have "validators_share (ex_escrow [''a'', ''b'']) (ex_settle 2) = 331"
    by (subst validators_share_complete) (simp_all add: ex_sel total_cost_def)
  ultimately show ?thesis
    using settlement_splits_escrow [OF ex_split_run, of "ex_escrow [''a'', ''b'']"]
    by (simp add: ex_sel) (metis add_right_cancel)
qed

text \<open>
  C10. The escrow account never owes more than it holds. Over every history of creations,
  settlements, pruning and other activity of the chain, what the module has paid out for
  escrows plus the amounts of the escrows that are still open is at most what creators have
  locked.
\<close>

theorem escrow_account_solvent:
  assumes "escrow_step\<^sup>*\<^sup>* st st'"
    and "Escrows st = []" and "EscrowCounter st = None" and "bankLog st = []"
  shows "paid_sum (bankLog st') + kv_sum (\<lambda>_. escrow_held) (Escrows st') \<le> locked_sum (bankLog st')"
proof -
  have "solvent st"
    using assms(2-4) by (simp add: solvent_def)
  with assms(1) have "solvent st'"
    by (induction) (auto dest: step_solvent)
  then show ?thesis by (simp add: solvent_def)
qed

lemma ex_history: "escrow_step\<^sup>*\<^sup>* ex_genesis ex_settled_chain"
proof -
  have "escrow_step ex_genesis (ex_created [''a'', ''a''])"
    using ex_create_run by (rule escrow_step.create)
  moreover have "escrow_step (ex_created [''a'', ''a'']) ex_later"
    by (rule escrow_step.other) (simp_all add: ex_later_def)
  moreover have "escrow_step ex_later ex_settled_chain"
    using ex_settle_run by (rule escrow_step.settle)
  ultimately show ?thesis by (meson converse_rtranclp_into_rtranclp rtranclp.rtrancl_refl)
qed

theorem escrow_account_solvent_witness:
  "paid_sum (bankLog ex_settled_chain) = 1000
   \<and> paid_sum (bankLog ex_settled_chain) + kv_sum (\<lambda>_. escrow_held) (Escrows ex_settled_chain)
       \<le> locked_sum (bankLog ex_settled_chain)"
proof
  show "paid_sum (bankLog ex_settled_chain) = 1000"
    by (simp add: ex_settled_chain_def)
  show "paid_sum (bankLog ex_settled_chain) + kv_sum (\<lambda>_. escrow_held) (Escrows ex_settled_chain)
       \<le> locked_sum (bankLog ex_settled_chain)"
    by (rule escrow_account_solvent [OF ex_history]) (simp_all add: ex_genesis_def)
qed

text \<open>
  C11. An escrow is settled at most once. After a settlement has been accepted, no settlement
  of the same escrow is accepted again, whatever happens on the chain in between: not while the
  escrow is stored, and not after it has been pruned, since numbers are not given twice.
\<close>

theorem escrow_settled_once:
  assumes "escrow_step\<^sup>*\<^sup>* st0 st" and "Escrows st0 = []" and "EscrowCounter st0 = None" and "bankLog st0 = []"
    and "SettleDevshardEscrow env msg st = Inr st1" and "escrow_step\<^sup>*\<^sup>* st1 st2"
    and "ms_EscrowId msg' = ms_EscrowId msg"
  shows "SettleDevshardEscrow env' msg' st2 \<noteq> Inr st3"
proof -
  have "solvent st0"
    using assms(2-4) by (simp add: solvent_def)
  with assms(1) have ok: "solvent st"
    by (induction) (auto dest: step_solvent)
  then have "closed_escrow (ms_EscrowId msg) st2"
    using steps_closed [OF assms(6)] Settle_solvent [OF assms(5)] settle_closes [OF assms(5)] by blast
  then show ?thesis
    using closed_rejects assms(7) by metis
qed

theorem escrow_settled_once_witness:
  "\<forall>st3. SettleDevshardEscrow ex_chain (ex_settle 1) ex_settled_chain \<noteq> Inr st3"
proof
  fix st3
  have h: "escrow_step\<^sup>*\<^sup>* ex_genesis ex_later"
    using escrow_step.create [OF ex_create_run] escrow_step.other [of ex_later "ex_created [''a'', ''a'']"]
    by (simp add: ex_later_def)
  show "SettleDevshardEscrow ex_chain (ex_settle 1) ex_settled_chain \<noteq> Inr st3"
    by (rule escrow_settled_once [OF h _ _ _ ex_settle_run]) (simp_all add: ex_genesis_def)
qed

text \<open>
  C12. The exact condition under which the chain accepts a settlement proof: the escrow is open
  and the settler is its creator; the version is present, short and approved; the nonce is
  within the limit; the state root is the composition of the host statistics, fees, rest hash
  and version of the message; the signatures are of distinct slots, each made by the slot's
  validator or a key it granted, and of more than two thirds of the slots; the host statistics
  are of distinct slots and within the nonces assigned to them; costs and fees together are at
  most the escrowed amount, without wrap-around.
\<close>

theorem settlement_proof_accepted_iff:
  assumes "length (e_Slots escrow) < 2 ^ 32"
  shows "VerifyDevshardSettlement env escrow msg (Some p) isWarmKey = Inr ()
    \<longleftrightarrow> e_Slots escrow \<noteq> [] \<and> proof_accepted env escrow msg p isWarmKey"
  using assms by (rule VerifyDevshardSettlement_iff)

theorem settlement_proof_accepted_iff_witness:
  "proof_accepted ex_chain (ex_escrow [''a'', ''b'']) (ex_settle 2) ex_params (Some (HasWarmKeyGrant ex_chain))"
  using settlement_proof_accepted_iff [of "ex_escrow [''a'', ''b'']" ex_chain "ex_settle 2" ex_params
      "Some (HasWarmKeyGrant ex_chain)"] ex_verify(1) by (simp add: ex_sel)

end
