(* ===== verification/DevshardReplay.thy ===== *)
theory DevshardReplay
  imports DevshardProperties DevshardFrame
begin

text \<open>
  Composition and replay: the user drops the transactions that fail, and a host applies the
  diff that remains strictly. Without a warm-key resolver a failed transaction changes nothing,
  so the two agree; with one, a failed transaction can leave a resolved key behind.
\<close>

section \<open>Failed transactions\<close>

lemma ResolveWarmKey_none:
  "ResolveWarmKey env slot a b sm = (ok, sm') \<Longrightarrow> warmResolver env = None \<Longrightarrow> sm' = sm"
  by (simp add: ResolveWarmKey_def split: option.splits)

lemma verifyProposerSig_none:
  "verifyProposerSig env m sg a slot sm = (x, sm') \<Longrightarrow> warmResolver env = None \<Longrightarrow> sm' = sm"
  by (auto simp: verifyProposerSig_def Let_def dest: ResolveWarmKey_none
      split: sum.splits option.splits if_splits prod.splits)

lemma countTimeoutVotes_none:
  "countTimeoutVotes env i reason vs seen acc sm = (x, sm') \<Longrightarrow> warmResolver env = None \<Longrightarrow> sm' = sm"
proof (induction vs arbitrary: seen acc sm)
  case (Cons v vs)
  from Cons.prems Cons.IH show ?case
    by (auto simp: Let_def dest!: ResolveWarmKey_none split: sum.splits option.splits if_splits prod.splits)
qed simp

lemma updateCommitted_total:
  "updateCommittedEntryLocked env i r sm = (Inl e, sm') \<Longrightarrow> marshal_total env \<Longrightarrow> False"
  by (cases "marshal env (PInferenceRecord (inference_proto i r))")
    (auto simp: updateCommittedEntryLocked_def marshalInferenceEntry_def marshalE_def marshal_total_def
      simp del: not_None_eq)

lemmas failed_dest = ResolveWarmKey_none verifyProposerSig_none countTimeoutVotes_none updateCommitted_total

lemma failed_start:
  "applyStartInference env m sm = (Inl e, sm') \<Longrightarrow> marshal_total env \<Longrightarrow> sm' = sm"
  by (auto simp: applyStartInference_def Let_def dest: failed_dest split: sum.splits option.splits if_splits)

lemma failed_confirm:
  "applyConfirmStart env m sm = (Inl e, sm') \<Longrightarrow> marshal_total env \<Longrightarrow> warmResolver env = None \<Longrightarrow> sm' = sm"
  by (auto simp: applyConfirmStart_def notLive_def Let_def dest: failed_dest
      split: sum.splits option.splits if_splits prod.splits)

lemma failed_finish:
  "applyFinishInference env m sm = (Inl e, sm') \<Longrightarrow> e \<noteq> GoPanic \<Longrightarrow> marshal_total env \<Longrightarrow>
   warmResolver env = None \<Longrightarrow> sm' = sm"
  by (auto simp: applyFinishInference_def notLive_def Let_def dest: failed_dest
      split: sum.splits option.splits if_splits prod.splits)

lemma failed_validation:
  "applyValidation env m sm = (Inl e, sm') \<Longrightarrow> marshal_total env \<Longrightarrow> warmResolver env = None \<Longrightarrow> sm' = sm"
  by (auto simp: applyValidation_def notLiveForValidation_def Let_def dest: failed_dest
      split: sum.splits option.splits if_splits prod.splits)

lemma failed_vote:
  "applyValidationVote env m sm = (Inl e, sm') \<Longrightarrow> e \<noteq> GoPanic \<Longrightarrow> marshal_total env \<Longrightarrow>
   warmResolver env = None \<Longrightarrow> sm' = sm"
  by (auto simp: applyValidationVote_def notLiveForValidation_def Let_def dest: failed_dest
      split: sum.splits option.splits if_splits prod.splits)

lemma failed_timeout:
  "applyTimeout env m sm = (Inl e, sm') \<Longrightarrow> e \<noteq> GoPanic \<Longrightarrow> marshal_total env \<Longrightarrow>
   warmResolver env = None \<Longrightarrow> sm' = sm"
  by (auto simp: applyTimeout_def notLive_def Let_def dest: failed_dest
      split: sum.splits option.splits if_splits prod.splits)

lemma applyTx_failed:
  "applyTx env tx sm = (Inl e, sm') \<Longrightarrow> e \<noteq> GoPanic \<Longrightarrow> marshal_total env \<Longrightarrow> warmResolver env = None \<Longrightarrow>
   sm' = sm"
  by (cases tx)
    (auto simp: applyRevealSeed_def applyFinalizeRound_def split: if_splits
      dest: failed_start failed_confirm failed_finish failed_validation failed_vote failed_timeout)

section \<open>The composed diff\<close>

lemma best_effort_strict:
  "applyBestEffort env txs sm = (Inr applied, sm') \<Longrightarrow> marshal_total env \<Longrightarrow> warmResolver env = None \<Longrightarrow>
   applyTxs env applied sm = (Inr (), sm') \<and> List.map_filter start_id applied = List.map_filter start_id txs"
proof (induction txs arbitrary: sm applied)
  case (Cons tx txs)
  obtain x sm1 where tx: "applyTx env tx sm = (x, sm1)" by fastforce
  show ?case
  proof (cases x)
    case (Inl e)
    then have "sm1 = sm" "start_id tx = None" "applyBestEffort env txs sm = (Inr applied, sm')"
      using Cons.prems tx applyTx_failed [of env tx sm e sm1] by (auto split: if_splits)
    then show ?thesis
      using Cons.IH Cons.prems by (simp add: map_filter_simps)
  next
    case (Inr u)
    then obtain rest where "applyBestEffort env txs sm1 = (Inr rest, sm')" "applied = tx # rest"
      using Cons.prems(1) tx by (auto simp: bindS_def split: sum.splits prod.splits)
    then show ?thesis
      using Cons.IH [of sm1 rest] Cons.prems tx Inr by (simp add: map_filter_simps split: option.split)
  qed
qed simp

lemma composed_core:
  assumes "localBestEffortLocked env nonce txs sm = (Inr (root, applied), sm')"
    and "marshal_total env" and "warmResolver env = None" and "post = [] \<or> post = root"
  shows "applyCore env nonce applied post sm = (Inr root, sm')"
proof -
  obtain sm1 where "applyBestEffort env txs sm = (Inr applied, sm1)" and "finishNonce env nonce sm1 = (Inr root, sm')"
      and c: "nonce = LatestNonce (state sm) + 1" "checkStarts nonce txs = Inr ()"
    using assms(1) by (auto simp: localBestEffort_Inr)
  then show ?thesis
    using best_effort_strict [OF _ assms(2,3)] assms(4)
    by (auto simp: applyCore_def checkStarts_def orRollback_def Let_def)
qed


text \<open>The machines of two nodes differ in their storage logs; the diff machinery does not read them.\<close>

definition withLog :: "StoreOp list \<Rightarrow> StateMachine \<Rightarrow> StateMachine" where
  "withLog l sm = sm\<lparr>storeLog := l @ storeLog sm\<rparr>"

interpretation node: unseen_diff "withLog l" "reliable env" for l env
  by unfold_locales
    (simp_all add: withLog_def restoreMutable_def persistLiveInferenceObsBestEffortLocked_def
      upsertInferenceObsLocked_def storeCall_def Let_def split: option.splits)

end
