(* ===== verification/UserSession.thy ===== *)
theory UserSession
  imports DevshardReplay "HOL-Library.Char_ord" "HOL-Library.List_Lexorder"
begin

text \<open>
  The user side of a session (\<open>devshard/user/session.go\<close>): the sequencer that composes, signs
  and persists diffs, the pool of pending transactions, the processing of host responses, the
  catch-up of hosts and the collection of state signatures. Hosts, the signer and the storage
  back end answer over the network or from disk: they are the fields of \<^verbatim>\<open>user_env\<close>, functions of
  what has been sent to them. Locks, logging, timers and the asynchronous snapshots are left
  out; operations that the code runs concurrently are atomic under its lock, and are modelled
  one by one.
\<close>

section \<open>Records\<close>

record nonceOutcome =
  no_confirmedAt :: i64
  no_finished :: bool

record InferenceParams =
  ip_Model :: string
  ip_Prompt :: bytes
  ip_InputLength :: u64
  ip_MaxTokens :: u64
  ip_StartedAt :: i64

text \<open>The payload of a request is the parameters of the inference it starts.\<close>

record HostRequest =
  hq_Diffs :: "Diff list"
  hq_Nonce :: u64
  hq_Payload :: "InferenceParams option"

record HostResponse =
  hr_StateSig :: "bytes option"
  hr_StateHash :: bytes
  hr_Nonce :: u64
  hr_Receipt :: "bytes option"
  hr_ConfirmedAt :: i64
  hr_Mempool :: "DevshardTx list"

record DiffRecord =
  dr_Diff :: Diff
  dr_StateHash :: bytes
  dr_WarmKeyDelta :: "(u32, string) kv"

text \<open>
  The errors of a persist: a fork, a failure of the back end, the exhaustion of the retries (which
  wraps the last error), a context that is done, and a missing store.
\<close>

datatype append_error = ErrDiffFork | ErrAppend | ErrPersistExhausted append_error | ErrContext | ErrNilStore

datatype session_error =
    GroupError devshard_error | ClientCountMismatch | LocalApply devshard_error
  | SignMarshal devshard_error | SignFailed | PersistDiff append_error | CommitRaced
  | StateHashMismatch | LocalRoot devshard_error | InvalidStateSig | Declined | PromptHashFailed
  | HostIdxRace | SendFailed | WrongPhase | FinalizeInProgress | InsufficientSignatures | SessionPanic

text \<open>
  The storage back end as the session sees it: the diffs it accepted, in order. Signatures are
  persisted as well, but a failure there is only logged.
\<close>

record Session =
  us_sm :: StateMachine
  us_escrowID :: string
  us_group :: "SlotAssignment list"
  us_addrToSlots :: "string \<Rightarrow> u32 list"
  us_nonce :: u64
  us_diffs :: "Diff list"
  us_hostSyncNonce :: "(nat, u64) kv"
  us_pendingTxs :: "DevshardTx list"
  us_pendingTxKeys :: "string list"
  us_signatures :: "(u64, (u32, bytes) kv) kv"
  us_store :: "DiffRecord list option"
  us_nonceStates :: "(u64, nonceOutcome) kv"
  us_sent :: "(nat \<times> HostRequest) list"

type_synonym 'a ses_res = "(session_error + 'a) \<times> Session"

text \<open>
  The environment. \<open>hostSend\<close> answers a request given everything sent before (\<open>None\<close>: the host is
  dead), \<open>ctxDone\<close> tells whether the caller has given up, \<open>appendErr\<close> is the error of an attempt
  to append a diff to what is stored, \<open>fetchSigs\<close> the signatures a host returns when asked.
\<close>

record user_env =
  denv :: devshard_env
  signer :: "bytes \<Rightarrow> bytes option"
  appendErr :: "DiffRecord list \<Rightarrow> nat \<Rightarrow> DiffRecord \<Rightarrow> append_error option"
  hostSend :: "(nat \<times> HostRequest) list \<Rightarrow> nat \<Rightarrow> HostRequest \<Rightarrow> HostResponse option"
  ctxDone :: "(nat \<times> HostRequest) list \<Rightarrow> bool"
  CanonicalPromptHash :: "bytes \<Rightarrow> bytes option"

section \<open>A new session\<close>

definition NewSession ::
  "StateMachine \<Rightarrow> string \<Rightarrow> SlotAssignment list \<Rightarrow> nat \<Rightarrow> bool \<Rightarrow> session_error + Session" where
  "NewSession sm escrowID grp clients withStore =
     (case ValidateGroup grp of
        Inl e \<Rightarrow> Inl (GroupError e)
      | Inr _ \<Rightarrow>
         if clients \<noteq> length grp then Inl ClientCountMismatch
         else Inr
           \<lparr>us_sm = sm, us_escrowID = escrowID, us_group = grp,
            us_addrToSlots = foldl (\<lambda>f s. f(ValidatorAddress s := f (ValidatorAddress s) @ [SlotID s])) (\<lambda>_. []) grp,
            us_nonce = 0, us_diffs = [], us_hostSyncNonce = [], us_pendingTxs = [], us_pendingTxKeys = [],
            us_signatures = [], us_store = (if withStore then Some [] else None), us_nonceStates = [],
            us_sent = []\<rparr>)"

section \<open>Pending transactions\<close>

fun txPriority :: "DevshardTx \<Rightarrow> nat" where
  "txPriority (TxConfirmStart _) = 0"
| "txPriority (TxFinishInference _) = 1"
| "txPriority (TxValidation _) = 2"
| "txPriority (TxValidationVote _) = 3"
| "txPriority _ = 4"

fun devshardTxKey :: "DevshardTx \<Rightarrow> string" where
  "devshardTxKey (TxFinishInference m) = ''finish:'' @ dec_nat (unat (fi_InferenceId m))"
| "devshardTxKey (TxConfirmStart m) = ''confirm:'' @ dec_nat (unat (cs_InferenceId m))"
| "devshardTxKey (TxValidation m) =
     ''validation:'' @ dec_nat (unat (va_InferenceId m)) @ '':'' @ dec_nat (unat (va_ValidatorSlot m))"
| "devshardTxKey (TxValidationVote m) =
     ''vote:'' @ dec_nat (unat (vv_InferenceId m)) @ '':'' @ dec_nat (unat (vv_VoterSlot m))"
| "devshardTxKey (TxRevealSeed m) = ''reveal_seed:'' @ dec_nat (unat (rs_SlotId m))"
| "devshardTxKey _ = []"

definition addPendingTx :: "DevshardTx \<Rightarrow> Session \<Rightarrow> Session" where
  "addPendingTx tx s =
     (let key = devshardTxKey tx in
      if key \<noteq> [] \<and> key \<in> set (us_pendingTxKeys s) then s
      else s\<lparr>us_pendingTxKeys := (if key \<noteq> [] then us_pendingTxKeys s @ [key] else us_pendingTxKeys s),
             us_pendingTxs := us_pendingTxs s @ [tx]\<rparr>)"

definition maxPendingTxKeys :: nat where
  "maxPendingTxKeys = 100000"

definition clearPendingTxs :: "Session \<Rightarrow> Session" where
  "clearPendingTxs s =
     s\<lparr>us_pendingTxs := [],
       us_pendingTxKeys := (if length (us_pendingTxKeys s) > maxPendingTxKeys then [] else us_pendingTxKeys s)\<rparr>"

definition AddPendingTimeoutTx :: "u64 \<Rightarrow> TimeoutReason \<Rightarrow> TimeoutVote list \<Rightarrow> Session \<Rightarrow> Session" where
  "AddPendingTimeoutTx inferenceID reason votes s =
     addPendingTx (TxTimeoutInference \<lparr>ti_InferenceId = inferenceID, ti_Reason = reason, ti_Votes = votes\<rparr>) s"

section \<open>Diffs\<close>

definition diffsForHost :: "nat \<Rightarrow> Session \<Rightarrow> Diff list" where
  "diffsForHost hostIdx s =
     (let lastSent = (case kv_get (us_hostSyncNonce s) hostIdx of None \<Rightarrow> 0 | Some n \<Rightarrow> n)
      in filter (\<lambda>d. d_Nonce d > lastSent) (us_diffs s))"

definition postStateRootForNonce :: "u64 \<Rightarrow> Session \<Rightarrow> bytes option" where
  "postStateRootForNonce nonce s =
     (let scan = map_option d_PostStateRoot (find (\<lambda>d. d_Nonce d = nonce) (us_diffs s)) in
      if us_diffs s = [] then None
      else
        let firstNonce = d_Nonce (us_diffs s ! 0);
            idx = nonce - firstNonce
        in if nonce \<ge> firstNonce \<and> unat idx < length (us_diffs s)
              \<and> d_Nonce (us_diffs s ! unat idx) = nonce
           then Some (d_PostStateRoot (us_diffs s ! unat idx)) else scan)"

definition signDiff ::
  "user_env \<Rightarrow> u64 \<Rightarrow> DevshardTx list \<Rightarrow> bytes \<Rightarrow> Session \<Rightarrow> session_error + Diff" where
  "signDiff env nonce txs postStateRoot s =
     (case marshalE (denv env) (PDiffContent nonce txs (us_escrowID s) postStateRoot) of
        Inl e \<Rightarrow> Inl (SignMarshal e)
      | Inr data \<Rightarrow>
         (case signer env data of
            None \<Rightarrow> Inl SignFailed
          | Some sig \<Rightarrow> Inr \<lparr>d_Nonce = nonce, d_Txs = txs, d_UserSig = sig, d_PostStateRoot = postStateRoot\<rparr>))"

definition ComputeWarmKeyDelta :: "(u32, string) kv \<Rightarrow> (u32, string) kv \<Rightarrow> (u32, string) kv" where
  "ComputeWarmKeyDelta before after =
     filter (\<lambda>(slotID, addr). (case kv_get before slotID of None \<Rightarrow> [] | Some a \<Rightarrow> a) \<noteq> addr) after"

definition DefaultPersistMaxAttempts :: nat where
  "DefaultPersistMaxAttempts = 4"

text \<open>
  One call of \<open>AppendDiff\<close>, as the storage interface documents it: the back end may fail, which
  leaves the journal as it was; the replay of the stored diff succeeds without appending; another diff at
  a stored nonce is a fork; a diff at a new nonce is appended.
\<close>

definition storeAppend ::
  "user_env \<Rightarrow> DiffRecord list \<Rightarrow> nat \<Rightarrow> DiffRecord \<Rightarrow> append_error + DiffRecord list" where
  "storeAppend env stored attempt rec =
     (case appendErr env stored attempt rec of
        Some e \<Rightarrow> Inl e
      | None \<Rightarrow>
         (case find (\<lambda>r. d_Nonce (dr_Diff r) = d_Nonce (dr_Diff rec)) stored of
            None \<Rightarrow> Inr (stored @ [rec])
          | Some r \<Rightarrow> if r = rec then Inr stored else Inl ErrDiffFork))"

text \<open>
  A context as the retries see it: whether it is done when an attempt starts, and whether it is
  done before the back-off after an attempt is over.
\<close>

record retry_ctx =
  ctxErr :: "nat \<Rightarrow> bool"
  ctxWait :: "nat \<Rightarrow> bool"

definition Background :: retry_ctx where
  "Background = \<lparr>ctxErr = \<lambda>_. False, ctxWait = \<lambda>_. False\<rparr>"

text \<open>The attempts left are counted down; \<open>attempt\<close> is the number of the next one.\<close>

fun appendAttempts ::
  "retry_ctx \<Rightarrow> user_env \<Rightarrow> DiffRecord list \<Rightarrow> DiffRecord \<Rightarrow> nat \<Rightarrow> nat \<Rightarrow> append_error + DiffRecord list" where
  "appendAttempts ctx env stored rec 0 attempt = Inl (ErrPersistExhausted ErrAppend)"
| "appendAttempts ctx env stored rec (Suc left) attempt =
     (if ctxErr ctx attempt then Inl ErrContext
      else case storeAppend env stored attempt rec of
        Inr stored1 \<Rightarrow> Inr stored1
      | Inl e \<Rightarrow>
         if e = ErrDiffFork then Inl e
         else if left = 0 then Inl (ErrPersistExhausted e)
         else if ctxWait ctx attempt then Inl ErrContext
         else appendAttempts ctx env stored rec left (attempt + 1))"

definition AppendDiffWithRetry ::
  "retry_ctx \<Rightarrow> user_env \<Rightarrow> DiffRecord list option \<Rightarrow> DiffRecord \<Rightarrow> append_error + DiffRecord list" where
  "AppendDiffWithRetry ctx env store rec =
     (case store of
        None \<Rightarrow> Inl ErrNilStore
      | Some stored \<Rightarrow> appendAttempts ctx env stored rec DefaultPersistMaxAttempts 1)"

definition persistDiffRetryLocked :: "user_env \<Rightarrow> DiffRecord \<Rightarrow> Session \<Rightarrow> append_error + DiffRecord list" where
  "persistDiffRetryLocked env rec s = AppendDiffWithRetry Background env (us_store s) rec"

definition composeDiffLocked :: "user_env \<Rightarrow> DevshardTx list \<Rightarrow> Session \<Rightarrow> (Diff \<times> nat) ses_res" where
  "composeDiffLocked env extraTxs s =
     (if us_group s = [] then (Inl SessionPanic, s)
      else
        let nonce = us_nonce s + 1;
            hostIdx = unat (nonce mod of_nat (length (us_group s)));
            s = s\<lparr>us_pendingTxs := sort_key txPriority (us_pendingTxs s)\<rparr>;
            candidates = us_pendingTxs s @ extraTxs
        in case us_store s of
             Some _ \<Rightarrow>
               let warmBefore = WarmKeys (state (us_sm s));
                   (r, sm1) = PreviewLocalBestEffort (denv env) nonce candidates (us_sm s);
                   s = s\<lparr>us_sm := sm1\<rparr>
               in (case r of
                     Inl e \<Rightarrow> (Inl (LocalApply e), s)
                   | Inr vd \<Rightarrow>
                      (case signDiff env nonce (vd_Applied vd) (vd_Root vd) s of
                         Inl e \<Rightarrow> (Inl e, s)
                       | Inr diff \<Rightarrow>
                          let rec = \<lparr>dr_Diff = diff, dr_StateHash = vd_Root vd,
                                     dr_WarmKeyDelta = ComputeWarmKeyDelta warmBefore (vd_WarmAfter vd)\<rparr>
                          in case persistDiffRetryLocked env rec s of
                               Inl e \<Rightarrow> (Inl (PersistDiff e), s)
                             | Inr stored1 \<Rightarrow>
                                let (ok, sm2) = CommitValidated (denv env) vd (us_sm s);
                                    s = s\<lparr>us_store := Some stored1, us_sm := sm2\<rparr>
                                in if \<not> ok then (Inl CommitRaced, s)
                                   else (Inr (diff, hostIdx),
                                     clearPendingTxs (s\<lparr>us_diffs := us_diffs s @ [diff], us_nonce := nonce\<rparr>))))
           | None \<Rightarrow>
               let (r, sm1) = ApplyLocalBestEffort (denv env) nonce candidates (us_sm s);
                   s = s\<lparr>us_sm := sm1\<rparr>
               in (case r of
                     Inl e \<Rightarrow> (Inl (LocalApply e), s)
                   | Inr (postStateRoot, applied) \<Rightarrow>
                      (case signDiff env nonce applied postStateRoot s of
                         Inl e \<Rightarrow> (Inl e, s)
                       | Inr diff \<Rightarrow>
                          (Inr (diff, hostIdx),
                           clearPendingTxs (s\<lparr>us_diffs := us_diffs s @ [diff], us_nonce := nonce\<rparr>)))))"

section \<open>Signatures\<close>

definition verifyStateSignature ::
  "user_env \<Rightarrow> u64 \<Rightarrow> bytes \<Rightarrow> bytes \<Rightarrow> string \<Rightarrow> Session \<Rightarrow> session_error + unit" where
  "verifyStateSignature env nonce postRoot signature expectedAddr s =
     (case marshalE (denv env) (PStateSignature postRoot (us_escrowID s) nonce) of
        Inl e \<Rightarrow> Inl (SignMarshal e)
      | Inr sigData \<Rightarrow>
         (case RecoverAddress (denv env) sigData signature of
            None \<Rightarrow> Inl InvalidStateSig
          | Some recovered \<Rightarrow>
             if recovered \<noteq> expectedAddr \<and> \<not> CheckWarmKey (denv env) recovered expectedAddr
             then Inl InvalidStateSig else Inr ()))"

text \<open>A verified signature is stored for every slot of the validator.\<close>

definition storeSignature :: "u64 \<Rightarrow> string \<Rightarrow> bytes \<Rightarrow> Session \<Rightarrow> Session" where
  "storeSignature nonce addr sig s =
     (let sigs = (case kv_get (us_signatures s) nonce of None \<Rightarrow> [] | Some m \<Rightarrow> m)
      in s\<lparr>us_signatures := kv_set nonce
             (foldl (\<lambda>m slot. kv_set slot sig m) sigs (us_addrToSlots s addr)) (us_signatures s)\<rparr>)"

text \<open>The weight of a set of signatures: every address counts once, with all its slots.\<close>

fun sigWeight :: "StateMachine \<Rightarrow> (u32, bytes) kv \<Rightarrow> string list \<Rightarrow> u32 \<Rightarrow> u32" where
  "sigWeight sm [] counted weight = weight"
| "sigWeight sm ((slotID, sig) # sigs) counted weight =
     (let addr = SlotAddress sm slotID in
      if addr \<in> set counted then sigWeight sm sigs counted weight
      else sigWeight sm sigs (addr # counted) (weight + addressToSlotCount sm addr))"

definition hasQuorum :: "u64 \<Rightarrow> u32 \<Rightarrow> Session \<Rightarrow> bool" where
  "hasQuorum nonce threshold s =
     (case kv_get (us_signatures s) nonce of
        None \<Rightarrow> False
      | Some sigs \<Rightarrow> sigWeight (us_sm s) sigs [] 0 \<ge> threshold)"

definition HasQuorumAt :: "u64 \<Rightarrow> Session \<Rightarrow> bool" where
  "HasQuorumAt nonce s = hasQuorum nonce (QuorumThreshold (us_sm s)) s"

text \<open>
  The status of the signatures (\<open>signatureStatusLocked\<close>): the highest nonce each address signed,
  and per nonce the weight of the addresses that signed it or a later one. The code iterates
  over Go maps where the result does not depend on the order.
\<close>

record SignatureStatusEntry =
  se_Nonce :: u64
  se_SigWeight :: u32
  se_Total :: u32
  se_HasQuorum :: bool

definition addrMaxNonce :: "Session \<Rightarrow> (string, u64) kv" where
  "addrMaxNonce s =
     foldl (\<lambda>m (nonce, slotSigs).
        foldl (\<lambda>m (slotID, _).
          let addr = SlotAddress (us_sm s) slotID
          in if nonce > (case kv_get m addr of None \<Rightarrow> 0 | Some n \<Rightarrow> n) then kv_set addr nonce m else m) m slotSigs)
       [] (us_signatures s)"

definition nonceWeight :: "Session \<Rightarrow> u64 \<Rightarrow> u32" where
  "nonceWeight s nonce =
     sum_list (map (\<lambda>(addr, n). addressToSlotCount (us_sm s) addr) (filter (\<lambda>(addr, n). n = nonce) (addrMaxNonce s)))"

fun statusLoop ::
  "Session \<Rightarrow> u64 list \<Rightarrow> u32 \<Rightarrow> SignatureStatusEntry list \<Rightarrow> u64 option
     \<Rightarrow> SignatureStatusEntry list \<times> u64 option" where
  "statusLoop s [] cumWeight entries highest = (entries, highest)"
| "statusLoop s (n # ns) cumWeight entries highest =
     (let cumWeight = cumWeight + nonceWeight s n;
          q = cumWeight \<ge> QuorumThreshold (us_sm s);
          e = \<lparr>se_Nonce = n, se_SigWeight = cumWeight, se_Total = totalSlots (us_sm s), se_HasQuorum = q\<rparr>
      in statusLoop s ns cumWeight (e # entries)
           (if q \<and> (case highest of None \<Rightarrow> True | Some h \<Rightarrow> n > h) then Some n else highest))"

definition signatureStatusLocked :: "Session \<Rightarrow> SignatureStatusEntry list \<times> u64 option" where
  "signatureStatusLocked s = statusLoop s (rev (map fst (us_signatures s))) 0 [] None"

section \<open>Host responses\<close>

definition HasMsgFinish :: "DevshardTx list \<Rightarrow> u64 \<Rightarrow> bool" where
  "HasMsgFinish txs nonce =
     list_ex (\<lambda>tx. case tx of TxFinishInference m \<Rightarrow> fi_InferenceId m = nonce | _ \<Rightarrow> False) txs"

text \<open>The root a response is compared with: the diff's, or the live one for the current nonce.\<close>

definition expectedRoot :: "user_env \<Rightarrow> u64 \<Rightarrow> Session \<Rightarrow> session_error + bytes" where
  "expectedRoot env nonce s =
     (case postStateRootForNonce nonce s of
        Some root \<Rightarrow> Inr root
      | None \<Rightarrow>
         if nonce = us_nonce s
         then (case computeStateRootLocked (denv env) (us_sm s) of
                 Inl e \<Rightarrow> Inl (LocalRoot e)
               | Inr root \<Rightarrow> Inr root)
         else Inl StateHashMismatch)"

definition noteOutcome :: "u64 \<Rightarrow> HostResponse \<Rightarrow> Session \<Rightarrow> Session" where
  "noteOutcome inferenceNonce resp s =
     (case kv_get (us_nonceStates s) inferenceNonce of
        None \<Rightarrow> s
      | Some o1 \<Rightarrow>
         let o2 = (if sint (hr_ConfirmedAt resp) > 0 then o1\<lparr>no_confirmedAt := hr_ConfirmedAt resp\<rparr> else o1);
             o3 = (if HasMsgFinish (hr_Mempool resp) inferenceNonce then o2\<lparr>no_finished := True\<rparr> else o2)
         in s\<lparr>us_nonceStates := kv_set inferenceNonce o3 (us_nonceStates s)\<rparr>)"

definition processResponse ::
  "user_env \<Rightarrow> nat \<Rightarrow> HostResponse \<Rightarrow> u64 \<Rightarrow> Session \<Rightarrow> session_error + Session" where
  "processResponse env hostIdx resp inferenceNonce s =
     bindE (if hr_StateHash resp \<noteq> []
            then bindE (expectedRoot env (hr_Nonce resp) s) (\<lambda>expected.
                   if expected \<noteq> hr_StateHash resp then Inl StateHashMismatch else Inr ())
            else Inr ()) (\<lambda>_.
     bindE (case hr_StateSig resp of
              None \<Rightarrow> Inr s
            | Some sig \<Rightarrow>
               let expectedAddr = ValidatorAddress (us_group s ! hostIdx)
               in bindE (verifyStateSignature env (hr_Nonce resp) (hr_StateHash resp) sig expectedAddr s)
                    (\<lambda>_. Inr (storeSignature (hr_Nonce resp) expectedAddr sig s))) (\<lambda>s.
     let lastNonce = (case kv_get (us_hostSyncNonce s) hostIdx of None \<Rightarrow> 0 | Some n \<Rightarrow> n);
         s = (if hr_Nonce resp > lastNonce
              then s\<lparr>us_hostSyncNonce := kv_set hostIdx (hr_Nonce resp) (us_hostSyncNonce s)\<rparr> else s);
         s = (case hr_Receipt resp of
                None \<Rightarrow> s
              | Some receipt \<Rightarrow> addPendingTx (TxConfirmStart
                  \<lparr>cs_InferenceId = inferenceNonce, cs_ExecutorSig = receipt,
                   cs_ConfirmedAt = hr_ConfirmedAt resp\<rparr>) s);
         s = foldl (\<lambda>s tx. addPendingTx tx s) s (hr_Mempool resp)
     in Inr (noteOutcome inferenceNonce resp s)))"

text \<open>
  The signatures a host returns when asked (\<open>fetcher.GetSignatures\<close>), a Go map: the list is one
  order of visiting it. The first slot of the host decides.
\<close>

fun fetchLoop ::
  "user_env \<Rightarrow> u64 \<Rightarrow> bytes \<Rightarrow> string \<Rightarrow> (u32 \<times> bytes) list \<Rightarrow> Session \<Rightarrow> bool \<times> Session" where
  "fetchLoop env nonce postRoot expectedAddr [] s = (False, s)"
| "fetchLoop env nonce postRoot expectedAddr ((slotID, sig) # sigs) s =
     (if SlotAddress (us_sm s) slotID \<noteq> expectedAddr
      then fetchLoop env nonce postRoot expectedAddr sigs s
      else case verifyStateSignature env nonce postRoot sig expectedAddr s of
             Inl _ \<Rightarrow> (False, s)
           | Inr _ \<Rightarrow> (True, storeSignature nonce expectedAddr sig s))"

definition fetchSignature ::
  "user_env \<Rightarrow> nat \<Rightarrow> u64 \<Rightarrow> (u32 \<times> bytes) list option \<Rightarrow> Session \<Rightarrow> bool \<times> Session" where
  "fetchSignature env hostIdx nonce fetched s =
     (case fetched of
        None \<Rightarrow> (False, s)
      | Some sigs \<Rightarrow>
         if sigs = [] then (False, s)
         else
           case expectedRoot env nonce s of
             Inl _ \<Rightarrow> (False, s)
           | Inr postRoot \<Rightarrow>
              fetchLoop env nonce postRoot (ValidatorAddress (us_group s ! hostIdx)) sigs s)"

section \<open>Sending\<close>

definition sendTo :: "user_env \<Rightarrow> nat \<Rightarrow> HostRequest \<Rightarrow> Session \<Rightarrow> HostResponse option \<times> Session" where
  "sendTo env hostIdx req s =
     (hostSend env (us_sent s) hostIdx req, s\<lparr>us_sent := us_sent s @ [(hostIdx, req)]\<rparr>)"

definition processR ::
  "user_env \<Rightarrow> nat \<Rightarrow> HostResponse \<Rightarrow> u64 \<Rightarrow> Session \<Rightarrow> unit ses_res" where
  "processR env hostIdx resp nonce s =
     (case processResponse env hostIdx resp nonce s of Inl e \<Rightarrow> (Inl e, s) | Inr s1 \<Rightarrow> (Inr (), s1))"

definition sendDiffRound :: "user_env \<Rightarrow> DevshardTx list \<Rightarrow> Session \<Rightarrow> unit ses_res" where
  "sendDiffRound env extraTxs s =
     (case composeDiffLocked env extraTxs s of
        (Inl e, s1) \<Rightarrow> (Inl e, s1)
      | (Inr (diff, hostIdx), s1) \<Rightarrow>
         (case sendTo env hostIdx
                 \<lparr>hq_Diffs = diffsForHost hostIdx s1, hq_Nonce = d_Nonce diff, hq_Payload = None\<rparr> s1 of
            (None, s2) \<Rightarrow> (Inr (), s2)
          | (Some resp, s2) \<Rightarrow> processR env hostIdx resp (d_Nonce diff) s2))"

definition SendPendingDiff :: "user_env \<Rightarrow> Session \<Rightarrow> unit ses_res" where
  "SendPendingDiff env s =
     (case composeDiffLocked env [] s of
        (Inl e, s1) \<Rightarrow> (Inl e, s1)
      | (Inr (diff, hostIdx), s1) \<Rightarrow>
         (case sendTo env hostIdx
                 \<lparr>hq_Diffs = diffsForHost hostIdx s1, hq_Nonce = d_Nonce diff, hq_Payload = None\<rparr> s1 of
            (None, s2) \<Rightarrow> (Inl SendFailed, s2)
          | (Some resp, s2) \<Rightarrow> processR env hostIdx resp (d_Nonce diff) s2))"

section \<open>Inferences\<close>

record HostBinding =
  hb_HostIdx :: nat
  hb_Nonce :: u64
  hb_ValidatorAddr :: string

record PreparedInference =
  pi_diff :: Diff
  pi_hostIdx :: nat
  pi_catchUp :: "Diff list"
  pi_params :: InferenceParams
  pi_isProbe :: bool

text \<open>
  \<open>strings.TrimSpace\<close> on ASCII strings (addresses are bech32). The participant key of a binding
  is the trimmed address of the slot, as \<open>NewSession\<close> sets it.
\<close>

definition isSpace :: "char \<Rightarrow> bool" where
  "isSpace c \<longleftrightarrow> of_char c \<in> {9, 10, 11, 12, 13, 32 :: nat}"

definition TrimSpace :: "string \<Rightarrow> string" where
  "TrimSpace cs = rev (dropWhile isSpace (rev (dropWhile isSpace cs)))"

definition PrepareInferenceFn ::
  "user_env \<Rightarrow> (HostBinding \<Rightarrow> (InferenceParams \<times> bool) option) \<Rightarrow> Session \<Rightarrow> PreparedInference ses_res" where
  "PrepareInferenceFn env chooser s =
     (if us_group s = [] then (Inl SessionPanic, s)
      else
        let nonce = us_nonce s + 1;
            hostIdx = unat (nonce mod of_nat (length (us_group s)));
            binding = \<lparr>hb_HostIdx = hostIdx, hb_Nonce = nonce,
              hb_ValidatorAddr = TrimSpace (ValidatorAddress (us_group s ! hostIdx))\<rparr>
        in case chooser binding of
             None \<Rightarrow> (Inl Declined, s)
           | Some (params, probe) \<Rightarrow>
              (case CanonicalPromptHash env (ip_Prompt params) of
                 None \<Rightarrow> (Inl PromptHashFailed, s)
               | Some promptHash \<Rightarrow>
                  let startTx = TxStartInference \<lparr>si_InferenceId = nonce, si_PromptHash = promptHash,
                        si_Model = ip_Model params, si_InputLength = ip_InputLength params,
                        si_MaxTokens = ip_MaxTokens params, si_StartedAt = ip_StartedAt params\<rparr>
                  in case composeDiffLocked env [startTx] s of
                       (Inl e, s1) \<Rightarrow> (Inl e, s1)
                     | (Inr (diff, composedIdx), s1) \<Rightarrow>
                        if composedIdx \<noteq> hostIdx then (Inl HostIdxRace, s1)
                        else
                          let s2 = s1\<lparr>us_nonceStates := kv_set nonce
                                \<lparr>no_confirmedAt = 0, no_finished = False\<rparr> (us_nonceStates s1)\<rparr>
                          in (Inr \<lparr>pi_diff = diff, pi_hostIdx = hostIdx, pi_catchUp = diffsForHost hostIdx s2,
                                   pi_params = params, pi_isProbe = probe\<rparr>, s2)))"

definition SendInference :: "user_env \<Rightarrow> InferenceParams \<Rightarrow> Session \<Rightarrow> HostResponse ses_res" where
  "SendInference env params s =
     (case PrepareInferenceFn env (\<lambda>_. Some (params, False)) s of
        (Inl e, s1) \<Rightarrow> (Inl e, s1)
      | (Inr p, s1) \<Rightarrow>
         (case sendTo env (pi_hostIdx p) \<lparr>hq_Diffs = pi_catchUp p, hq_Nonce = d_Nonce (pi_diff p),
                 hq_Payload = Some (pi_params p)\<rparr> s1 of
            (None, s2) \<Rightarrow> (Inl SendFailed, s2)
          | (Some resp, s2) \<Rightarrow>
             (case processR env (pi_hostIdx p) resp (d_Nonce (pi_diff p)) s2 of
                (Inl e, s3) \<Rightarrow> (Inl e, s3)
              | (Inr _, s3) \<Rightarrow> (Inr resp, s3))))"

section \<open>Catching up\<close>

definition catchUpChunkSize :: nat where
  "catchUpChunkSize = 200"

text \<open>The index of the first diff beyond what the host has, \<open>0\<close> if there is none.\<close>

definition skipTo :: "u64 \<Rightarrow> Diff list \<Rightarrow> nat" where
  "skipTo respNonce catchUp =
     (let ahead = takeWhile (\<lambda>d. \<not> d_Nonce d > respNonce) catchUp
      in if length ahead = length catchUp then 0 else length ahead)"

function catchUpLoop :: "user_env \<Rightarrow> nat \<Rightarrow> Diff list \<Rightarrow> nat \<Rightarrow> Session \<Rightarrow> unit ses_res" where
  "catchUpLoop env hostIdx catchUp chunkIdx s =
     (if \<not> chunkIdx < length catchUp then (Inr (), s)
      else if ctxDone env (us_sent s) then (Inr (), s)
      else
        let chunk = take catchUpChunkSize (drop chunkIdx catchUp);
            chunkNonce = d_Nonce (last chunk);
            (answer, s1) = sendTo env hostIdx \<lparr>hq_Diffs = chunk, hq_Nonce = chunkNonce, hq_Payload = None\<rparr> s
        in case answer of
             None \<Rightarrow> (Inr (), s1)
           | Some resp \<Rightarrow>
              (case processR env hostIdx resp chunkNonce s1 of
                 (Inl e, s2) \<Rightarrow> (Inl e, s2)
               | (Inr _, s2) \<Rightarrow>
                  let nextChunkIdx = chunkIdx + catchUpChunkSize;
                      nextChunkIdx = (if hr_Nonce resp > chunkNonce \<and> skipTo (hr_Nonce resp) catchUp > nextChunkIdx
                        then skipTo (hr_Nonce resp) catchUp else nextChunkIdx)
                  in catchUpLoop env hostIdx catchUp nextChunkIdx s2))"
  by pat_completeness auto
termination
  by (relation "measure (\<lambda>(env, hostIdx, catchUp, chunkIdx, s). length catchUp - chunkIdx)")
    (auto simp: catchUpChunkSize_def split: if_splits)

declare catchUpLoop.simps [simp del]

definition sendCatchUpWith :: "user_env \<Rightarrow> nat \<Rightarrow> Session \<Rightarrow> unit ses_res" where
  "sendCatchUpWith env hostIdx s = catchUpLoop env hostIdx (diffsForHost hostIdx s) 0 s"

text \<open>The first slot of every address, in slot order.\<close>

fun uniqueHosts :: "nat \<Rightarrow> SlotAssignment list \<Rightarrow> string list \<Rightarrow> (nat \<times> string) list" where
  "uniqueHosts i [] seen = []"
| "uniqueHosts i (a # as) seen =
     (if ValidatorAddress a \<in> set seen then uniqueHosts (i + 1) as seen
      else (i, ValidatorAddress a) # uniqueHosts (i + 1) as (ValidatorAddress a # seen))"

definition uniquePhysicalHosts :: "Session \<Rightarrow> (nat \<times> string) list" where
  "uniquePhysicalHosts s = uniqueHosts 0 (us_group s) []"

fun catchUpAll :: "user_env \<Rightarrow> nat list \<Rightarrow> Session \<Rightarrow> unit ses_res" where
  "catchUpAll env [] s = (Inr (), s)"
| "catchUpAll env (h # hs) s =
     (case sendCatchUpWith env h s of
        (Inl e, s1) \<Rightarrow> (Inl e, s1)
      | (Inr _, s1) \<Rightarrow> catchUpAll env hs s1)"

fun pendingRounds :: "user_env \<Rightarrow> nat \<Rightarrow> Session \<Rightarrow> unit ses_res" where
  "pendingRounds env 0 s = (Inr (), s)"
| "pendingRounds env (Suc n) s =
     (if us_pendingTxs s = [] then (Inr (), s)
      else case sendDiffRound env [] s of
             (Inl e, s1) \<Rightarrow> (Inl e, s1)
           | (Inr _, s1) \<Rightarrow> pendingRounds env n s1)"

fun syncCycles :: "user_env \<Rightarrow> nat list \<Rightarrow> nat \<Rightarrow> Session \<Rightarrow> unit ses_res" where
  "syncCycles env hs 0 s = (Inr (), s)"
| "syncCycles env hs (Suc n) s =
     (case catchUpAll env hs s of
        (Inl e, s1) \<Rightarrow> (Inl e, s1)
      | (Inr _, s1) \<Rightarrow>
         (case pendingRounds env (length (us_group s1)) s1 of
            (Inl e, s2) \<Rightarrow> (Inl e, s2)
          | (Inr _, s2) \<Rightarrow> syncCycles env hs n s2))"

definition SyncHosts :: "user_env \<Rightarrow> Session \<Rightarrow> unit ses_res" where
  "SyncHosts env s =
     (if Phase (state (us_sm s)) \<noteq> PhaseActive then (Inl WrongPhase, s)
      else
        let hs = map fst (uniquePhysicalHosts s)
        in case syncCycles env hs 2 s of
             (Inl e, s1) \<Rightarrow> (Inl e, s1)
           | (Inr _, s1) \<Rightarrow> catchUpAll env hs s1)"

section \<open>Finalization\<close>

text \<open>Phase A and A+1: the first diff carries the finalization, the others what hosts returned.\<close>

fun diffRounds :: "user_env \<Rightarrow> nat \<Rightarrow> DevshardTx list \<Rightarrow> Session \<Rightarrow> unit ses_res" where
  "diffRounds env 0 extra s = (Inr (), s)"
| "diffRounds env (Suc n) extra s =
     (case sendDiffRound env extra s of
        (Inl e, s1) \<Rightarrow> (Inl e, s1)
      | (Inr _, s1) \<Rightarrow> diffRounds env n [] s1)"

text \<open>
  The collection of signatures runs one goroutine per host, which asks for a stored signature
  and then catches the host up chunk by chunk. A schedule lists the sections of the goroutines that
  hold the session lock, in the order they take it: an answer to the query for signatures, or one
  chunk of a catch-up, sent and processed. A goroutine that has passed its check of the quorum acts once more after the
  quorum is reached, so a schedule may go on.
\<close>

datatype collect_action = FetchSigs nat "(u32 \<times> bytes) list option" | CatchUpChunk nat "Diff list"

fun action_host :: "collect_action \<Rightarrow> nat" where
  "action_host (FetchSigs h _) = h"
| "action_host (CatchUpChunk h _) = h"

definition hasSig :: "u64 \<Rightarrow> string \<Rightarrow> Session \<Rightarrow> bool" where
  "hasSig nonce addr s =
     (case kv_get (us_signatures s) nonce of
        None \<Rightarrow> False
      | Some sigs \<Rightarrow> list_ex (\<lambda>slot. kv_get sigs slot \<noteq> None) (us_addrToSlots s addr))"

definition missingHosts :: "u64 \<Rightarrow> Session \<Rightarrow> nat list" where
  "missingHosts nonce s = map fst (filter (\<lambda>(i, addr). \<not> hasSig nonce addr s) (uniquePhysicalHosts s))"

fun collectAction :: "user_env \<Rightarrow> u64 \<Rightarrow> collect_action \<Rightarrow> Session \<Rightarrow> Session" where
  "collectAction env nonce (FetchSigs h fetched) s = snd (fetchSignature env h nonce fetched s)"
| "collectAction env nonce (CatchUpChunk h chunk) s =
     (if chunk = [] then s
      else
        let chunkNonce = d_Nonce (last chunk)
        in case sendTo env h \<lparr>hq_Diffs = chunk, hq_Nonce = chunkNonce, hq_Payload = None\<rparr> s of
             (None, s1) \<Rightarrow> s1
           | (Some resp, s1) \<Rightarrow> snd (processR env h resp chunkNonce s1))"

definition CollectSignatures ::
  "user_env \<Rightarrow> collect_action list \<Rightarrow> u64 \<Rightarrow> Session \<Rightarrow> (u32 \<times> u32 \<times> u32) \<times> Session" where
  "CollectSignatures env schedule nonce s =
     (let threshold = QuorumThreshold (us_sm s);
          missing = missingHosts nonce s;
          s1 = foldl (\<lambda>s a. if action_host a \<in> set missing then collectAction env nonce a s else s) s schedule;
          weight = (case kv_get (us_signatures s1) nonce of None \<Rightarrow> 0 | Some sigs \<Rightarrow> sigWeight (us_sm s1) sigs [] 0)
      in ((weight, threshold, totalSlots (us_sm s)), s1))"

text \<open>
  The flag \<open>finalizeInFlight\<close> refuses a call that starts while another one runs. Calls are modelled
  one after the other, so the flag is clear whenever a call starts.
\<close>

definition Finalize :: "user_env \<Rightarrow> collect_action list \<Rightarrow> Session \<Rightarrow> unit ses_res" where
  "Finalize env schedule s =
     (let collect = (\<lambda>s. case CollectSignatures env schedule (us_nonce s) s of
            ((weight, threshold, _), s1) \<Rightarrow>
              if weight < threshold then (Inl InsufficientSignatures, s1) else (Inr (), s1))
      in case Phase (state (us_sm s)) of
           PhaseSettlement \<Rightarrow>
             if hasQuorum (us_nonce s) (QuorumThreshold (us_sm s)) s then (Inr (), s) else collect s
         | PhaseFinalizing \<Rightarrow> (Inl FinalizeInProgress, s)
         | PhaseActive \<Rightarrow>
             (case diffRounds env (length (us_group s) + 1) [TxFinalizeRound] s of
                (Inl e, s1) \<Rightarrow> (Inl e, s1)
              | (Inr _, s1) \<Rightarrow> collect s1))"

end
