(* ===== verification/UserRounds.thy ===== *)
theory UserRounds
  imports UserSession
begin

text \<open>
  What the operations of a user session do: the composition of a diff in normal form (with or
  without a store), the frames of response processing, and the clock of the machine over the
  rounds of finalization.
\<close>

section \<open>Composition\<close>

text \<open>
  One composed diff: the best-effort application to the machine, possibly with buffered writes,
  and the machine it leaves, up to the storage log.
\<close>

definition composed ::
  "user_env \<Rightarrow> u64 \<Rightarrow> DevshardTx list \<Rightarrow> StateMachine \<Rightarrow> bytes \<Rightarrow> DevshardTx list \<Rightarrow> StateMachine \<Rightarrow> bool" where
  "composed env nonce cands sm root applied sm' \<longleftrightarrow>
     localBestEffortLocked (denv env) nonce cands sm = (Inr (root, applied), sm')
     \<or> (\<exists>sm1. localBestEffortLocked (denv env) nonce cands (sm\<lparr>obsDeferred := Some []\<rparr>) = (Inr (root, applied), sm1)
           \<and> unmoved sm1 sm' \<and> state sm' = state sm1)"

lemma preview_commit:
  assumes p: "PreviewLocalBestEffort env nonce cands sm = (Inr vd, sm1)"
    and c: "CommitValidated env' vd sm1 = (True, sm2)"
  shows "\<exists>sm3. localBestEffortLocked env nonce cands (sm\<lparr>obsDeferred := Some []\<rparr>) = (Inr (vd_Root vd, vd_Applied vd), sm3)
    \<and> unmoved sm3 sm2 \<and> state sm2 = state sm3"
proof -
  obtain root applied sm3 where l: "localBestEffortLocked env nonce cands (sm\<lparr>obsDeferred := Some []\<rparr>) = (Inr (root, applied), sm3)"
    and vd: "vd_Root vd = root" "vd_Applied vd = applied" "vd_post vd = snapshotMutable sm3"
    and sm1: "sm1 = restoreMutable (snapshotMutable sm) (sm3\<lparr>obsDeferred := None\<rparr>)"
    using p by (auto simp: PreviewLocalBestEffort_def trialApply_def Let_def split: sum.splits prod.splits)
  have "restoreMutable (vd_post vd) sm1 = sm3\<lparr>obsDeferred := None\<rparr>"
    using restore_snapshot [of "sm3\<lparr>obsDeferred := None\<rparr>" "snapshotMutable sm"]
    by (simp add: vd sm1 snapshotMutable_def)
  then have "sm2 = flushDeferredObsLocked env' (vd_obs vd) (sm3\<lparr>obsDeferred := None\<rparr>)"
    using c by (auto simp: CommitValidated_def split: if_splits)
  then show ?thesis
    using l vd flush_view [of "sm3\<lparr>obsDeferred := None\<rparr>"] deferred_view [of sm3 None]
    by (auto simp: flush_state unmoved_def clock_of_def intro: same_view_trans)
qed

lemma signDiff_frame [simp]:
  "signDiff env n txs r (s\<lparr>us_pendingTxs := p\<rparr>) = signDiff env n txs r s"
  "signDiff env n txs r (s\<lparr>us_sm := sm\<rparr>) = signDiff env n txs r s"
  by (simp_all add: signDiff_def)

lemma compose_parts:
  assumes "composeDiffLocked env extra s = (Inr (diff, hostIdx), s')"
  obtains root applied where
    "composed env (us_nonce s + 1) (sort_key txPriority (us_pendingTxs s) @ extra) (us_sm s) root applied (us_sm s')"
    and "signDiff env (us_nonce s + 1) applied root s = Inr diff"
    and "hostIdx = unat ((us_nonce s + 1) mod of_nat (length (us_group s)))" and "us_group s \<noteq> []"
    and "us_diffs s' = us_diffs s @ [diff]" and "us_nonce s' = us_nonce s + 1" and "us_pendingTxs s' = []"
    and "us_escrowID s' = us_escrowID s" and "us_group s' = us_group s" and "us_addrToSlots s' = us_addrToSlots s"
    and "us_signatures s' = us_signatures s" and "us_hostSyncNonce s' = us_hostSyncNonce s"
    and "us_nonceStates s' = us_nonceStates s" and "us_sent s' = us_sent s"
proof (cases "us_store s")
  case None
  let ?cands = "sort_key txPriority (us_pendingTxs s) @ extra"
  obtain root applied sm1 where "ApplyLocalBestEffort (denv env) (us_nonce s + 1) ?cands (us_sm s) = (Inr (root, applied), sm1)"
      "signDiff env (us_nonce s + 1) applied root s = Inr diff" "us_group s \<noteq> []"
      "hostIdx = unat ((us_nonce s + 1) mod of_nat (length (us_group s)))"
      "s' = clearPendingTxs (s\<lparr>us_pendingTxs := sort_key txPriority (us_pendingTxs s), us_sm := sm1,
        us_diffs := us_diffs s @ [diff], us_nonce := us_nonce s + 1\<rparr>)"
    using assms None
    by (auto simp: composeDiffLocked_def Let_def split: sum.splits prod.splits if_splits option.splits)
  then show thesis
    by (intro that [of root applied])
      (auto simp: composed_def ApplyLocalBestEffort_def clearPendingTxs_def)
next
  case (Some stored)
  let ?cands = "sort_key txPriority (us_pendingTxs s) @ extra"
  obtain vd sm1 sm2 stored1 where p: "PreviewLocalBestEffort (denv env) (us_nonce s + 1) ?cands (us_sm s) = (Inr vd, sm1)"
      and c: "CommitValidated (denv env) vd sm1 = (True, sm2)"
      and rest: "signDiff env (us_nonce s + 1) (vd_Applied vd) (vd_Root vd) s = Inr diff" "us_group s \<noteq> []"
      "hostIdx = unat ((us_nonce s + 1) mod of_nat (length (us_group s)))"
      "s' = clearPendingTxs (s\<lparr>us_pendingTxs := sort_key txPriority (us_pendingTxs s), us_store := Some stored1,
        us_sm := sm2, us_diffs := us_diffs s @ [diff], us_nonce := us_nonce s + 1\<rparr>)"
    using assms Some
    by (auto simp: composeDiffLocked_def Let_def split: sum.splits prod.splits if_splits option.splits)
  show thesis
    using preview_commit [OF p c] rest
    by (intro that [of "vd_Root vd" "vd_Applied vd"]) (auto simp: composed_def clearPendingTxs_def)
qed

text \<open>The application behind a composed diff, on a machine that differs in the buffer at most.\<close>

lemma composed_accepted:
  assumes "composed env nonce cands sm root applied sm'"
  obtains sm0 sm1 where "localBestEffortLocked (denv env) nonce cands sm0 = (Inr (root, applied), sm1)"
    and "unmoved sm sm0" and "state sm0 = state sm" and "unmoved sm1 sm'" and "state sm' = state sm1"
    and "accepted (LatestNonce (state sm) + 1) sm0 sm1"
proof -
  have "unmoved sm (sm\<lparr>obsDeferred := Some []\<rparr>)"
    by (rule deferred_unmoved)
  then obtain sm0 sm1 where l: "localBestEffortLocked (denv env) nonce cands sm0 = (Inr (root, applied), sm1)"
      and "unmoved sm sm0" "state sm0 = state sm" "unmoved sm1 sm'" "state sm' = state sm1"
    using assms unfolding composed_def by (metis (no_types, lifting) StateMachine.select_convs(1) StateMachine.surjective
        StateMachine.update_convs(9) unmoved_refl)
  then show thesis
    using localBestEffort_accepted [OF l] by (intro that [of sm0 sm1]) auto
qed

section \<open>Frames\<close>

text \<open>What processing a response and sending a request never touch.\<close>

definition same_core :: "Session \<Rightarrow> Session \<Rightarrow> bool" where
  "same_core s s' \<longleftrightarrow>
     us_sm s' = us_sm s \<and> us_nonce s' = us_nonce s \<and> us_diffs s' = us_diffs s \<and> us_group s' = us_group s
     \<and> us_addrToSlots s' = us_addrToSlots s \<and> us_escrowID s' = us_escrowID s \<and> us_store s' = us_store s"

lemma same_core_refl [simp]: "same_core s s"
  by (simp add: same_core_def)

lemma same_core_trans: "same_core a b \<Longrightarrow> same_core b c \<Longrightarrow> same_core a c"
  by (simp add: same_core_def)

lemma addPendingTx_frame [simp]:
  "same_core s (addPendingTx tx s)" "us_signatures (addPendingTx tx s) = us_signatures s"
  by (simp_all add: addPendingTx_def same_core_def Let_def)

lemma addAll_frame [simp]:
  "same_core s (foldl (\<lambda>s tx. addPendingTx tx s) s txs)"
  "us_signatures (foldl (\<lambda>s tx. addPendingTx tx s) s txs) = us_signatures s"
proof (induction txs arbitrary: s)
  case (Cons tx txs)
  { case 1 show ?case using same_core_trans [OF addPendingTx_frame(1) Cons.IH(1)] by simp }
  { case 2 show ?case using Cons.IH(2) [of "addPendingTx tx s"] by simp }
qed simp_all

lemma noteOutcome_frame [simp]:
  "same_core s (noteOutcome n resp s)" "us_signatures (noteOutcome n resp s) = us_signatures s"
  by (simp_all add: noteOutcome_def same_core_def Let_def split: option.split)

lemma storeSignature_frame [simp]: "same_core s (storeSignature n a sig s)"
  by (simp add: storeSignature_def same_core_def Let_def)

lemma processResponse_core:
  assumes "processResponse env h resp n s = Inr s'"
  shows "same_core s s'"
    and "us_signatures s' = us_signatures s \<and> hr_StateSig resp = None
      \<or> (\<exists>sig. hr_StateSig resp = Some sig
          \<and> verifyStateSignature env (hr_Nonce resp) (hr_StateHash resp) sig (ValidatorAddress (us_group s ! h)) s = Inr ()
          \<and> us_signatures s' = us_signatures (storeSignature (hr_Nonce resp) (ValidatorAddress (us_group s ! h)) sig s))"
    and "hr_StateHash resp \<noteq> [] \<Longrightarrow> expectedRoot env (hr_Nonce resp) s = Inr (hr_StateHash resp)"
proof -
  let ?sync = "\<lambda>s. if hr_Nonce resp > (case kv_get (us_hostSyncNonce s) h of None \<Rightarrow> 0 | Some n \<Rightarrow> n)
    then s\<lparr>us_hostSyncNonce := kv_set h (hr_Nonce resp) (us_hostSyncNonce s)\<rparr> else s"
  let ?receipt = "\<lambda>s. case hr_Receipt resp of None \<Rightarrow> s | Some receipt \<Rightarrow> addPendingTx (TxConfirmStart
      \<lparr>cs_InferenceId = n, cs_ExecutorSig = receipt, cs_ConfirmedAt = hr_ConfirmedAt resp\<rparr>) s"
  let ?a = "ValidatorAddress (us_group s ! h)"
  obtain u s1 where c: "(if hr_StateHash resp \<noteq> []
            then bindE (expectedRoot env (hr_Nonce resp) s) (\<lambda>expected.
                   if expected \<noteq> hr_StateHash resp then Inl StateHashMismatch else Inr ())
            else Inr ()) = Inr u"
    and r: "(case hr_StateSig resp of None \<Rightarrow> Inr s | Some sig \<Rightarrow>
        bindE (verifyStateSignature env (hr_Nonce resp) (hr_StateHash resp) sig ?a s)
          (\<lambda>_. Inr (storeSignature (hr_Nonce resp) ?a sig s))) = Inr s1"
    and s': "s' = noteOutcome n resp (foldl (\<lambda>s tx. addPendingTx tx s) (?receipt (?sync s1)) (hr_Mempool resp))"
    using assms unfolding processResponse_def Let_def bindE_Inr_iff by (elim exE conjE) (simp only: sum.inject)
  have h: "hr_StateHash resp \<noteq> [] \<Longrightarrow> expectedRoot env (hr_Nonce resp) s = Inr (hr_StateHash resp)"
    using c by (auto simp: bindE_Inr_iff split: if_splits)
  have s1: "s1 = s \<and> hr_StateSig resp = None \<or> (\<exists>sig. hr_StateSig resp = Some sig
      \<and> verifyStateSignature env (hr_Nonce resp) (hr_StateHash resp) sig ?a s = Inr ()
      \<and> s1 = storeSignature (hr_Nonce resp) ?a sig s)"
    using r by (cases "hr_StateSig resp") (auto simp: bindE_Inr_iff)
  show "hr_StateHash resp \<noteq> [] \<Longrightarrow> expectedRoot env (hr_Nonce resp) s = Inr (hr_StateHash resp)"
    by (rule h)
  have "same_core s s1"
    using s1 by auto
  moreover have "same_core s1 (?sync s1)"
    by (simp add: same_core_def)
  moreover have "same_core (?sync s1) (?receipt (?sync s1))"
    by (cases "hr_Receipt resp") (simp_all only: option.case same_core_refl addPendingTx_frame(1))
  ultimately have "same_core s (?receipt (?sync s1))"
    by (rule same_core_trans [OF same_core_trans])
  then show "same_core s s'"
    unfolding s' by (rule same_core_trans [OF same_core_trans [OF _ addAll_frame(1)] noteOutcome_frame(1)])
  have "us_signatures (?sync s1) = us_signatures s1"
    by simp
  then have "us_signatures (?receipt (?sync s1)) = us_signatures s1"
    by (cases "hr_Receipt resp") (simp_all only: option.case addPendingTx_frame(2))
  then have "us_signatures s' = us_signatures s1"
    unfolding s' by (simp only: noteOutcome_frame(2) addAll_frame(2))
  then show "us_signatures s' = us_signatures s \<and> hr_StateSig resp = None
      \<or> (\<exists>sig. hr_StateSig resp = Some sig
          \<and> verifyStateSignature env (hr_Nonce resp) (hr_StateHash resp) sig (ValidatorAddress (us_group s ! h)) s = Inr ()
          \<and> us_signatures s' = us_signatures (storeSignature (hr_Nonce resp) (ValidatorAddress (us_group s ! h)) sig s))"
    using s1 by auto
qed

end
