(* ===== verification/UserInvariant.thy ===== *)
theory UserInvariant
  imports UserRounds
begin

text \<open>
  The sessions a user reaches: a step relation of the operations that hold the session lock, the
  decomposition of the larger operations into it, and the invariant that ties the diff log, the
  nonce and the state machine together.
\<close>

section \<open>Steps\<close>

inductive user_step :: "user_env \<Rightarrow> Session \<Rightarrow> Session \<Rightarrow> bool" for env where
  compose: "composeDiffLocked env extra s = (x, s') \<Longrightarrow> user_step env s s'"
| response: "processResponse env h resp n s = Inr s' \<Longrightarrow> h < length (us_group s) \<Longrightarrow> user_step env s s'"
| fetch: "fetchSignature env h n fetched s = (b, s') \<Longrightarrow> h < length (us_group s) \<Longrightarrow> user_step env s s'"
| pending: "user_step env s (addPendingTx tx s)"
| sent: "user_step env s (s\<lparr>us_sent := l\<rparr>)"
| outcome: "user_step env s (s\<lparr>us_nonceStates := m\<rparr>)"

abbreviation user_steps :: "user_env \<Rightarrow> Session \<Rightarrow> Session \<Rightarrow> bool" where
  "user_steps env \<equiv> (user_step env)\<^sup>*\<^sup>*"

lemma sendTo_step: "sendTo env h req s = (a, s') \<Longrightarrow> user_step env s s'"
  by (auto simp: sendTo_def intro: user_step.sent)

lemma processR_steps: "processR env h resp n s = (x, s') \<Longrightarrow> h < length (us_group s) \<Longrightarrow> user_steps env s s'"
  by (auto simp: processR_def intro: user_step.response split: sum.splits)

lemma compose_host:
  assumes "composeDiffLocked env extra s = (Inr (diff, h), s')" and "length (us_group s) < 2 ^ 64"
  shows "h < length (us_group s')" and "us_group s' = us_group s"
proof -
  have h: "h = unat ((us_nonce s + 1) mod of_nat (length (us_group s)))" "us_group s \<noteq> []"
    and g: "us_group s' = us_group s"
    using compose_parts [OF assms(1)] by metis+
  have "unat (of_nat (length (us_group s)) :: u64) = length (us_group s)"
    using assms(2) by (simp add: unat_of_nat)
  then show "h < length (us_group s')"
    using h by (simp add: g unat_mod_distrib)
  show "us_group s' = us_group s" by (rule g)
qed

lemma step_group: "user_step env s s' \<Longrightarrow> us_group s' = us_group s"
proof (induction rule: user_step.induct)
  case (compose extra s x s')
  then show ?case
    by (auto simp: composeDiffLocked_def Let_def clearPendingTxs_def split: sum.splits prod.splits option.splits if_splits)
next
  case (response h resp n s s')
  then show ?case using processResponse_core(1) by (auto simp: same_core_def)
next
  case (fetch h n fetched s b s')
  have loop: "fetchLoop env n r a sigs t = (c, t') \<Longrightarrow> us_group t' = us_group t" for r a sigs t c t'
    by (induction env n r a sigs t rule: fetchLoop.induct) (auto simp: storeSignature_def Let_def split: if_splits sum.splits)
  show ?case
    using fetch by (auto simp: fetchSignature_def dest: loop split: option.splits if_splits sum.splits)
qed (simp_all add: addPendingTx_def Let_def)

lemma sendDiffRound_steps:
  assumes "sendDiffRound env extra s = (x, s')" and "length (us_group s) < 2 ^ 64"
  shows "user_steps env s s'"
proof -
  obtain r s1 where c: "composeDiffLocked env extra s = (r, s1)" by fastforce
  then have step: "user_step env s s1" by (rule user_step.compose)
  show ?thesis
  proof (cases r)
    case (Inl e)
    with assms(1) c step show ?thesis by (auto simp: sendDiffRound_def)
  next
    case (Inr p)
    obtain diff h where p: "p = (diff, h)" by fastforce
    let ?req = "\<lparr>hq_Diffs = diffsForHost h s1, hq_Nonce = d_Nonce diff, hq_Payload = None\<rparr>"
    obtain a s2 where snd: "sendTo env h ?req s1 = (a, s2)" by fastforce
    have "h < length (us_group s2)"
      using compose_host(1) [OF _ assms(2)] c Inr p step_group [OF sendTo_step [OF snd]] by simp
    then have "user_steps env s2 s'"
      using assms(1) c Inr p snd processR_steps [of env h _ "d_Nonce diff" s2 x s']
      by (auto simp: sendDiffRound_def split: option.splits)
    then show ?thesis
      using step sendTo_step [OF snd] by (meson converse_rtranclp_into_rtranclp)
  qed
qed

section \<open>The invariant\<close>

text \<open>The signer signs, and messages can be serialised.\<close>

definition signer_ok :: "user_env \<Rightarrow> bool" where
  "signer_ok env \<longleftrightarrow> marshal_total (denv env) \<and> (\<forall>data. signer env data \<noteq> None)"

lemma signDiff_ok: "signer_ok env \<Longrightarrow> signDiff env n txs r s \<noteq> Inl e"
proof -
  assume ok: "signer_ok env"
  then obtain data where m: "marshal (denv env) (PDiffContent n txs (us_escrowID s) r) = Some data"
    by (auto simp: signer_ok_def marshal_total_def)
  obtain sig where "signer env data = Some sig"
    using ok by (auto simp: signer_ok_def)
  with m show ?thesis by (simp add: signDiff_def marshalE_def)
qed

text \<open>
  The machine has accepted exactly the diffs of the log, which are numbered from one, and the
  session works on its group.
\<close>

definition session_inv :: "StateMachine \<Rightarrow> Session \<Rightarrow> bool" where
  "session_inv sm0 s \<longleftrightarrow>
     advanced sm0 (length (us_diffs s)) (us_sm s)
     \<and> us_nonce s = LatestNonce (state (us_sm s))
     \<and> us_nonce s = of_nat (length (us_diffs s))
     \<and> map d_Nonce (us_diffs s) = map (\<lambda>i. of_nat (Suc i)) [0..<length (us_diffs s)]
     \<and> us_group s = Group (state sm0) \<and> us_addrToSlots s = addressToSlots sm0"

lemma session_inv_core: "same_core s s' \<Longrightarrow> session_inv sm0 s' = session_inv sm0 s"
  by (simp add: session_inv_def same_core_def)

lemma compose_failed:
  assumes c: "composeDiffLocked env extra s = (Inl e, s')" and ok: "signer_ok env"
    and a: "advanced sm0 n (us_sm s)" and g: "good S A (us_sm s)"
  shows "unmoved (us_sm s) (us_sm s')" and "us_nonce s' = us_nonce s" and "us_diffs s' = us_diffs s"
    and "us_addrToSlots s' = us_addrToSlots s" and "us_signatures s' = us_signatures s"
    and "us_escrowID s' = us_escrowID s"
proof -
  let ?n = "us_nonce s + 1" and ?c = "sort_key txPriority (us_pendingTxs s) @ extra"
  have "us_nonce s' = us_nonce s \<and> us_diffs s' = us_diffs s \<and> us_addrToSlots s' = us_addrToSlots s
      \<and> us_signatures s' = us_signatures s \<and> us_escrowID s' = us_escrowID s"
    using c by (auto simp: composeDiffLocked_def Let_def split: sum.splits prod.splits option.splits if_splits)
  then show "us_nonce s' = us_nonce s" "us_diffs s' = us_diffs s" "us_addrToSlots s' = us_addrToSlots s"
    "us_signatures s' = us_signatures s" "us_escrowID s' = us_escrowID s"
    by simp_all
  show "unmoved (us_sm s) (us_sm s')"
  proof (cases "us_store s")
    case None
    then have "us_sm s' = us_sm s \<or> (\<exists>d. localBestEffortLocked (denv env) ?n ?c (us_sm s) = (Inl d, us_sm s'))"
      using c signDiff_ok [OF ok]
      by (auto simp: composeDiffLocked_def Let_def ApplyLocalBestEffort_def split: sum.splits prod.splits if_splits)
    then show ?thesis
      using localBestEffort_rolled_back [OF g] rolled_back_unmoved by auto
  next
    case (Some stored)
    have "us_sm s' = us_sm s \<or> us_sm s' = snd (PreviewLocalBestEffort (denv env) ?n ?c (us_sm s))"
      using c Some
      by (auto simp: composeDiffLocked_def Let_def CommitValidated_def split: sum.splits prod.splits if_splits)
    then show ?thesis
      using Preview_advanced(1) [OF a g] rolled_back_unmoved by auto
  qed
qed

lemma unmoved_nonce: "unmoved sm sm' \<Longrightarrow> LatestNonce (state sm') = LatestNonce (state sm)"
  by (simp add: unmoved_def clock_of_def)

lemma accepted_nonce:
  assumes "accepted (LatestNonce (state sm) + 1) sm sm'" and "machine_ok sm"
  shows "LatestNonce (state sm') = LatestNonce (state sm) + 1"
  using accepted_parts [OF assms refl] finishNonce_clock(1) by metis

lemma compose_inv:
  assumes c: "composeDiffLocked env extra s = (x, s')" and ok: "signer_ok env"
    and inv: "session_inv sm0 s" and g0: "good S A sm0"
  shows "session_inv sm0 s'"
proof -
  have a: "advanced sm0 (length (us_diffs s)) (us_sm s)"
    using inv by (simp add: session_inv_def)
  have g: "good S A (us_sm s)"
    by (rule advanced_good [OF a g0])
  have grp: "us_group s' = us_group s"
    using step_group [OF user_step.compose [OF c]] .
  show ?thesis
  proof (cases x)
    case (Inl e)
    note f = compose_failed [OF c [unfolded Inl] ok a g]
    from inv f(2-4) grp unmoved_nonce [OF f(1)] advanced.frame [OF a f(1) order_refl] show ?thesis
      by (auto simp: session_inv_def)
  next
    case (Inr p)
    obtain diff h where p: "p = (diff, h)" by fastforce
    obtain root applied where k: "composed env (us_nonce s + 1) (sort_key txPriority (us_pendingTxs s) @ extra)
        (us_sm s) root applied (us_sm s')" and sg: "signDiff env (us_nonce s + 1) applied root s = Inr diff"
      and d: "us_diffs s' = us_diffs s @ [diff]" "us_nonce s' = us_nonce s + 1" "us_addrToSlots s' = us_addrToSlots s"
      using c Inr p compose_parts [of env extra s diff h s'] by metis
    obtain sma smb where u: "unmoved (us_sm s) sma" "state sma = state (us_sm s)" "unmoved smb (us_sm s')"
      and acc: "accepted (LatestNonce (state (us_sm s)) + 1) sma smb"
      using composed_accepted [OF k] by metis
    have adv: "advanced sm0 (length (us_diffs s)) sma"
      using a u(1) by (rule advanced.frame) simp
    have ok1: "machine_ok sma"
      using advanced_good [OF adv g0] by (simp add: good_def)
    have "LatestNonce (state smb) = LatestNonce (state (us_sm s)) + 1"
      using accepted_nonce [of sma smb] acc ok1 u(2) by simp
    moreover have "advanced sm0 (Suc (length (us_diffs s))) (us_sm s')"
      using advanced.frame [OF advanced.diff [OF adv] u(3)] acc u(2) by simp
    moreover have "d_Nonce diff = us_nonce s + 1"
      using sg by (auto simp: signDiff_def split: sum.splits option.splits)
    ultimately show ?thesis
      using inv d grp unmoved_nonce [OF u(3)] by (auto simp: session_inv_def)
  qed
qed

lemma fetchLoop_core: "same_core s (snd (fetchLoop env n r a sigs s))"
  by (induction env n r a sigs s rule: fetchLoop.induct) (auto split: sum.splits)

lemma fetch_core: "fetchSignature env h n fetched s = (b, s') \<Longrightarrow> same_core s s'"
  using fetchLoop_core [of s env n _ "ValidatorAddress (us_group s ! h)"]
  by (auto simp: fetchSignature_def split: option.splits if_splits sum.splits) (metis snd_conv)+

lemma step_inv:
  assumes st: "user_step env s s'" and ok: "signer_ok env" and g: "good S A sm0" and inv: "session_inv sm0 s"
  shows "session_inv sm0 s'"
  using st
proof (cases rule: user_step.cases)
  case (compose extra x)
  then show ?thesis using compose_inv [OF _ ok inv g] by blast
next
  case (response h resp n)
  then show ?thesis using session_inv_core [OF processResponse_core(1) [OF response(1)]] inv by simp
next
  case (fetch h n fetched b)
  then show ?thesis using session_inv_core [OF fetch_core [OF fetch(1)]] inv by simp
next
  case (pending tx)
  then show ?thesis using session_inv_core [OF addPendingTx_frame(1)] inv by simp
qed (use inv in \<open>auto simp: session_inv_def\<close>)

lemma steps_inv:
  "user_steps env s s' \<Longrightarrow> signer_ok env \<Longrightarrow> good S A sm0 \<Longrightarrow> session_inv sm0 s \<Longrightarrow> session_inv sm0 s'"
  by (induction rule: rtranclp_induct) (auto intro: step_inv)

lemma new_session_inv:
  assumes "ValidateGroup grp = Inr ()" and "NewStateMachine st ver opts escrow cfg grp amount user = Inr sm0"
    and "NewSession sm0 escrow grp clients b = Inr s"
  shows "session_inv sm0 s"
proof -
  note n = NewStateMachine_eq [OF assms(1,2)]
  have "foldl (\<lambda>f s. f(ValidatorAddress s := f (ValidatorAddress s) @ [SlotID s])) f grp a
      = f a @ map SlotID (filter (\<lambda>s. ValidatorAddress s = a) grp)" for f a
    by (induction grp arbitrary: f) auto
  then have "foldl (\<lambda>f s. f(ValidatorAddress s := f (ValidatorAddress s) @ [SlotID s])) (\<lambda>_. []) grp = addressToSlots sm0"
    by (simp add: fun_eq_iff n(5))
  then show ?thesis
    using assms(1,3) n(2) by (auto simp: NewSession_def session_inv_def intro: advanced.base split: if_splits)
qed

section \<open>Finalization\<close>

text \<open>A diff that carries the finalization leaves the active phase.\<close>

lemma effort_finalizes:
  "applyBestEffort env (txs @ [TxFinalizeRound]) sm = (Inr applied, sm') \<Longrightarrow> Phase (state sm') \<noteq> PhaseActive"
proof (induction txs arbitrary: sm applied)
  case Nil
  then show ?case
    by (auto simp: applyFinalizeRound_def bindS_def split: if_splits)
next
  case (Cons tx txs)
  obtain x sm1 where t: "applyTx env tx sm = (x, sm1)" by fastforce
  show ?case
    using Cons.prems t by (cases x) (auto simp: bindS_def dest: Cons.IH split: if_splits prod.splits sum.splits)
qed

text \<open>The clock over accepted diffs: the finalization nonce is set once.\<close>

lemma accepted_finalize:
  assumes acc: "accepted (LatestNonce (state sm) + 1) sm sm'" and ok: "machine_ok sm" and c: "clock_ok sm"
    and "Phase (state sm) \<noteq> PhaseActive"
  shows "FinalizeNonce (state sm') = FinalizeNonce (state sm)" and "Phase (state sm') \<noteq> PhaseActive"
proof -
  obtain env sm1 root where run: "tx_run sm (Inr (), sm1)"
    and fin: "finishNonce env (LatestNonce (state sm) + 1) sm1 = (Inr root, sm')"
    and f1: "FinalizeNonce (state sm1) = FinalizeNonce (state sm)"
    using accepted_parts [OF acc ok] by blast
  have ph: "Phase (state sm1) = Phase (state sm)"
    using tx_steps_phase [of "terms_of sm" "session_of sm" "session_of sm1"] run assms(4) by (simp add: tx_run_def)
  have f: "FinalizeNonce (state sm) \<noteq> 0"
    using c assms(4) by (auto simp: clock_ok_def Let_def split: SessionPhase.splits)
  show "FinalizeNonce (state sm') = FinalizeNonce (state sm)" "Phase (state sm') \<noteq> PhaseActive"
    using finishNonce_clock [OF fin] f f1 ph assms(4) by (cases "Phase (state sm)"; simp split: if_splits)+
qed

end
