(* ===== verification/UserFinalize.thy ===== *)
theory UserFinalize
  imports UserInvariant
begin

text \<open>
  Finalization as the user drives it: one diff with the finalization and one per slot of the
  group bring the session into its settlement phase. A round that fails stops finalization where
  it is; how far it has come is the number of diffs composed.
\<close>

lemma local_finalizes:
  assumes "localBestEffortLocked env nonce (txs @ [TxFinalizeRound]) sm = (Inr (root, applied), sm')"
  shows "Phase (state sm') \<noteq> PhaseActive"
proof -
  obtain sm1 where "applyBestEffort env (txs @ [TxFinalizeRound]) sm = (Inr applied, sm1)"
    and fin: "finishNonce env nonce sm1 = (Inr root, sm')"
    using assms by (auto simp: localBestEffort_Inr)
  then have "Phase (state sm1) \<noteq> PhaseActive" by (blast dest: effort_finalizes)
  then show ?thesis
    using finishNonce_clock(3,4) [OF fin] by (cases "Phase (state sm1)") (auto split: if_splits)
qed

lemma accepted_first:
  assumes acc: "accepted (LatestNonce (state sm) + 1) sm sm'" and ok: "machine_ok sm" and c: "clock_ok sm"
    and ph: "Phase (state sm) = PhaseActive" "Phase (state sm') \<noteq> PhaseActive"
  shows "FinalizeNonce (state sm') = LatestNonce (state sm) + 1"
proof -
  obtain env sm1 root where run: "tx_run sm (Inr (), sm1)"
    and fin: "finishNonce env (LatestNonce (state sm) + 1) sm1 = (Inr root, sm')"
    and f1: "FinalizeNonce (state sm1) = FinalizeNonce (state sm)"
    using accepted_parts [OF acc ok] by blast
  have "Phase (state sm1) = PhaseActive \<or> Phase (state sm1) = PhaseFinalizing"
    using tx_steps_phase [of "terms_of sm" "session_of sm" "session_of sm1"] run ph(1) by (auto simp: tx_run_def)
  moreover have "FinalizeNonce (state sm) = 0"
    using c ph(1) by (simp add: clock_ok_def unat_eq_0)
  ultimately show ?thesis
    using finishNonce_clock(2,4) [OF fin] f1 ph(2) by auto
qed

text \<open>
  One round composes a diff or fails to. The answer of the host to a composed diff does not touch
  the log or the machine, whether the session accepts it or not.
\<close>

definition composed_round :: "user_env \<Rightarrow> DevshardTx list \<Rightarrow> Session \<Rightarrow> Session \<Rightarrow> bool" where
  "composed_round env extra s s' \<longleftrightarrow>
     (\<exists>diff h s1. composeDiffLocked env extra s = (Inr (diff, h), s1) \<and> same_core s1 s')"

lemma round_cases:
  assumes "sendDiffRound env extra s = (x, s')"
  obtains (failed) e where "x = Inl e" and "composeDiffLocked env extra s = (Inl e, s')"
  | (composed) "composed_round env extra s s'"
proof -
  obtain y s1 where c: "composeDiffLocked env extra s = (y, s1)" by fastforce
  show thesis
  proof (cases y)
    case (Inl e)
    with assms c show thesis by (intro failed) (auto simp: sendDiffRound_def)
  next
    case (Inr p)
    obtain diff h where p: "p = (diff, h)" by fastforce
    let ?req = "\<lparr>hq_Diffs = diffsForHost h s1, hq_Nonce = d_Nonce diff, hq_Payload = None\<rparr>"
    obtain a s2 where snd: "sendTo env h ?req s1 = (a, s2)" by fastforce
    have s2: "same_core s1 s2"
      using snd by (auto simp: sendTo_def same_core_def)
    have "same_core s1 s'"
    proof (cases a)
      case None
      then show ?thesis using assms c snd s2 Inr p by (simp add: sendDiffRound_def)
    next
      case (Some resp)
      then have "processR env h resp (d_Nonce diff) s2 = (x, s')"
        using assms c snd Inr p by (simp add: sendDiffRound_def)
      then have "s' = s2 \<or> processResponse env h resp (d_Nonce diff) s2 = Inr s'"
        by (auto simp: processR_def split: sum.splits)
      then show ?thesis
        using s2 same_core_trans [OF s2 processResponse_core(1)] by blast
    qed
    with c Inr p show thesis by (intro composed) (auto simp: composed_round_def)
  qed
qed

lemma round_success: "sendDiffRound env extra s = (Inr (), s') \<Longrightarrow> composed_round env extra s s'"
  by (erule round_cases) auto

lemma round_machine:
  assumes r: "composed_round env extra s s'" and inv: "session_inv sm0 s" and g0: "good S A sm0"
  obtains sma where "accepted (LatestNonce (state sma) + 1) sma (us_sm s') \<or>
      (\<exists>smb. accepted (LatestNonce (state sma) + 1) sma smb \<and> unmoved smb (us_sm s') \<and> state (us_sm s') = state smb)"
    and "state sma = state (us_sm s)" and "machine_ok sma"
    and "length (us_diffs s') = Suc (length (us_diffs s))"
    and "\<And>txs. extra = txs @ [TxFinalizeRound] \<Longrightarrow> Phase (state (us_sm s')) \<noteq> PhaseActive"
proof -
  obtain diff h s1 where c: "composeDiffLocked env extra s = (Inr (diff, h), s1)" and core: "same_core s1 s'"
    using r by (auto simp: composed_round_def)
  obtain root applied where k: "composed env (us_nonce s + 1) (sort_key txPriority (us_pendingTxs s) @ extra)
      (us_sm s) root applied (us_sm s1)" and d: "us_diffs s1 = us_diffs s @ [diff]"
    using compose_parts [OF c] by metis
  obtain sma smb where l: "localBestEffortLocked (denv env) (us_nonce s + 1)
      (sort_key txPriority (us_pendingTxs s) @ extra) sma = (Inr (root, applied), smb)"
    and u: "unmoved (us_sm s) sma" "state sma = state (us_sm s)" "unmoved smb (us_sm s1)" "state (us_sm s1) = state smb"
    and acc: "accepted (LatestNonce (state (us_sm s)) + 1) sma smb"
    using composed_accepted [OF k] by metis
  have "advanced sm0 (length (us_diffs s)) sma"
    using inv u(1) advanced.frame [OF _ _ order_refl] by (auto simp: session_inv_def)
  then have "machine_ok sma"
    using advanced_good [OF _ g0] by (auto simp: good_def)
  moreover have "Phase (state (us_sm s')) \<noteq> PhaseActive" if "extra = txs @ [TxFinalizeRound]" for txs
    using local_finalizes [of "denv env" _ "sort_key txPriority (us_pendingTxs s) @ txs" sma root applied smb] l u(4) core that
    by (simp add: same_core_def)
  moreover have "length (us_diffs s') = Suc (length (us_diffs s))"
    using d core by (simp add: same_core_def)
  moreover have "us_sm s' = us_sm s1"
    using core by (simp add: same_core_def)
  ultimately show thesis
    using acc u that [of sma] by auto
qed

text \<open>A session that starts from a fresh machine and has composed fewer than \<open>2 ^ 64\<close> diffs.\<close>

definition fresh_machine :: "nat \<Rightarrow> StateMachine \<Rightarrow> bool" where
  "fresh_machine A sm0 \<longleftrightarrow> good (static sm0) A sm0 \<and> numbered 0 sm0 \<and> clock_ok sm0"

lemma inv_clock:
  assumes "session_inv sm0 s" and "fresh_machine A sm0" and "length (us_diffs s) + 129 < 2 ^ 64"
  shows "clock_ok (us_sm s)"
  using assms advanced_clock [of sm0 "length (us_diffs s)" "us_sm s" "static sm0" A]
  by (simp add: session_inv_def fresh_machine_def)

lemma inv_nonce: "session_inv sm0 s \<Longrightarrow> length (us_diffs s) < 2 ^ 64 \<Longrightarrow> unat (LatestNonce (state (us_sm s))) = length (us_diffs s)"
proof -
  assume "session_inv sm0 s" and b: "length (us_diffs s) < 2 ^ 64"
  then have "LatestNonce (state (us_sm s)) = of_nat (length (us_diffs s))" by (auto simp: session_inv_def)
  then show ?thesis using b by (simp add: unat_of_nat)
qed

lemma inv_group:
  assumes "session_inv sm0 s" and "fresh_machine A sm0"
  shows "Group (state (us_sm s)) = us_group s" and "length (us_group s) \<le> 128" and "good (static sm0) A (us_sm s)"
proof -
  show g: "good (static sm0) A (us_sm s)"
    using assms advanced_good [of sm0 _ "us_sm s"] by (auto simp: session_inv_def fresh_machine_def)
  then have "Group (state (us_sm s)) = Group (state sm0)"
    by (intro staticD(3)) (simp add: good_def)
  then show e: "Group (state (us_sm s)) = us_group s"
    using assms(1) by (simp add: session_inv_def)
  have "machine_ok (us_sm s)"
    using g by (simp add: good_def)
  then show "length (us_group s) \<le> 128"
    using e by (auto simp: machine_ok_def session_ok_def terms_ok_def MaxGroupSize_def)
qed

lemma round_clock:
  assumes r: "composed_round env extra s s'" and inv: "session_inv sm0 s" and g0: "good S A sm0"
    and c: "clock_ok (us_sm s)"
  shows "Phase (state (us_sm s)) \<noteq> PhaseActive \<Longrightarrow>
      Phase (state (us_sm s')) \<noteq> PhaseActive \<and> FinalizeNonce (state (us_sm s')) = FinalizeNonce (state (us_sm s))"
    and "Phase (state (us_sm s)) = PhaseActive \<Longrightarrow> extra = [TxFinalizeRound] \<Longrightarrow>
      Phase (state (us_sm s')) \<noteq> PhaseActive \<and> FinalizeNonce (state (us_sm s')) = LatestNonce (state (us_sm s)) + 1"
proof -
  obtain sma smb where acc: "accepted (LatestNonce (state sma) + 1) sma smb" and st: "state (us_sm s') = state smb"
    "state sma = state (us_sm s)" and ok: "machine_ok sma"
    and act: "extra = [] @ [TxFinalizeRound] \<Longrightarrow> Phase (state (us_sm s')) \<noteq> PhaseActive"
    using round_machine [OF r inv g0] by metis
  have "clock_ok sma"
    using c st(2) by (simp add: clock_ok_def)
  then show "Phase (state (us_sm s)) \<noteq> PhaseActive \<Longrightarrow>
      Phase (state (us_sm s')) \<noteq> PhaseActive \<and> FinalizeNonce (state (us_sm s')) = FinalizeNonce (state (us_sm s))"
    and "Phase (state (us_sm s)) = PhaseActive \<Longrightarrow> extra = [TxFinalizeRound] \<Longrightarrow>
      Phase (state (us_sm s')) \<noteq> PhaseActive \<and> FinalizeNonce (state (us_sm s')) = LatestNonce (state (us_sm s)) + 1"
    using accepted_finalize [OF acc ok] accepted_first [OF acc ok] st act by simp_all
qed

lemma round_inv:
  assumes r: "composed_round env extra s s'" and ok: "signer_ok env" and inv: "session_inv sm0 s"
    and f: "fresh_machine A sm0"
  shows "session_inv sm0 s'" and "length (us_diffs s') = Suc (length (us_diffs s))"
proof -
  have g: "good (static sm0) A sm0"
    using f by (simp add: fresh_machine_def)
  obtain diff h s1 where c: "composeDiffLocked env extra s = (Inr (diff, h), s1)" and core: "same_core s1 s'"
    using r by (auto simp: composed_round_def)
  have "session_inv sm0 s1"
    by (rule compose_inv [OF c ok inv g])
  then show "session_inv sm0 s'"
    using session_inv_core [OF core] by simp
  show "length (us_diffs s') = Suc (length (us_diffs s))"
    by (rule round_machine [OF r inv g])
qed

lemma failed_round:
  assumes c: "composeDiffLocked env extra s = (Inl e, s')" and ok: "signer_ok env" and inv: "session_inv sm0 s"
    and f: "fresh_machine A sm0"
  shows "session_inv sm0 s'" and "us_diffs s' = us_diffs s"
    and "Phase (state (us_sm s')) = Phase (state (us_sm s))" and "FinalizeNonce (state (us_sm s')) = FinalizeNonce (state (us_sm s))"
proof -
  have g: "good (static sm0) A sm0"
    using f by (simp add: fresh_machine_def)
  show "session_inv sm0 s'" by (rule compose_inv [OF c ok inv g])
  have a: "advanced sm0 (length (us_diffs s)) (us_sm s)" using inv by (simp add: session_inv_def)
  note u = compose_failed [OF c ok a advanced_good [OF a g]]
  show "us_diffs s' = us_diffs s" by (rule u(3))
  show "Phase (state (us_sm s')) = Phase (state (us_sm s))" "FinalizeNonce (state (us_sm s')) = FinalizeNonce (state (us_sm s))"
    using u(1) by (simp_all add: unmoved_def clock_of_def)
qed

text \<open>Rounds after the first: they go on with finalization as far as they get.\<close>

lemma rounds_finalizing:
  assumes "diffRounds env k [] s = (x, s')" and "signer_ok env" and "session_inv sm0 s"
    and "fresh_machine A sm0" and "length (us_diffs s) + k + 129 < 2 ^ 64" and "Phase (state (us_sm s)) \<noteq> PhaseActive"
  shows "\<exists>j\<le>k. session_inv sm0 s' \<and> length (us_diffs s') = length (us_diffs s) + j \<and> (x = Inr () \<longrightarrow> j = k)
    \<and> Phase (state (us_sm s')) \<noteq> PhaseActive \<and> FinalizeNonce (state (us_sm s')) = FinalizeNonce (state (us_sm s))"
  using assms
proof (induction k arbitrary: s)
  case (Suc k)
  obtain y s1 where r: "sendDiffRound env [] s = (y, s1)" by fastforce
  from r show ?case
  proof (cases rule: round_cases)
    case (failed e)
    with Suc.prems(1) r have "x = Inl e" "s' = s1" by simp_all
    with failed_round [OF failed(2) Suc.prems(2-4)] Suc.prems(6) show ?thesis by (intro exI [of _ 0]) simp
  next
    case composed
    note i = round_inv [OF composed Suc.prems(2-4)]
    have "clock_ok (us_sm s)"
      using inv_clock [OF Suc.prems(3,4)] Suc.prems(5) by simp
    then have p: "Phase (state (us_sm s1)) \<noteq> PhaseActive" "FinalizeNonce (state (us_sm s1)) = FinalizeNonce (state (us_sm s))"
      using round_clock(1) [OF composed Suc.prems(3), of "static sm0" A] Suc.prems(4,6) by (simp_all add: fresh_machine_def)
    show ?thesis
    proof (cases y)
      case (Inl e)
      with Suc.prems(1) r have "x = Inl e" "s' = s1" by simp_all
      with i p show ?thesis by (intro exI [of _ 1]) simp
    next
      case (Inr u)
      with Suc.prems(1) r have rest: "diffRounds env k [] s1 = (x, s')" by simp
      obtain j where "j \<le> k" "session_inv sm0 s' \<and> length (us_diffs s') = length (us_diffs s1) + j \<and> (x = Inr () \<longrightarrow> j = k)
          \<and> Phase (state (us_sm s')) \<noteq> PhaseActive \<and> FinalizeNonce (state (us_sm s')) = FinalizeNonce (state (us_sm s1))"
        using Suc.IH [OF rest Suc.prems(2) i(1) Suc.prems(4) _ p(1)] i(2) Suc.prems(5) by auto
      with i(2) p(2) show ?thesis by (intro exI [of _ "Suc j"]) auto
    qed
  qed
qed simp

text \<open>The phase of a session that has composed \<open>k\<close> diffs of finalization.\<close>

definition finalize_phase :: "nat \<Rightarrow> nat \<Rightarrow> SessionPhase" where
  "finalize_phase g k = (if k = 0 then PhaseActive else if k \<le> g then PhaseFinalizing else PhaseSettlement)"

lemma finalizing_phase:
  assumes e: "session_inv sm0 s'" "length (us_diffs s') = n + Suc j" "Phase (state (us_sm s')) \<noteq> PhaseActive"
      "unat (FinalizeNonce (state (us_sm s'))) = Suc n"
    and f: "fresh_machine A sm0" and bound: "n + Suc j + 129 < 2 ^ 64" "j \<le> length (us_group s')"
  shows "Phase (state (us_sm s')) = finalize_phase (length (us_group s')) (Suc j)"
proof -
  have c: "clock_ok (us_sm s')"
    using inv_clock [OF e(1) f] e(2) bound by simp
  have n: "unat (LatestNonce (state (us_sm s'))) = n + Suc j"
    using inv_nonce [OF e(1)] e(2) bound by simp
  show ?thesis
    using c e(3,4) n inv_group(1) [OF e(1) f] bound(2)
    by (cases "Phase (state (us_sm s'))") (auto simp: clock_ok_def Let_def finalize_phase_def)
qed

lemma rounds_outcome:
  assumes run: "diffRounds env (length (us_group s) + 1) [TxFinalizeRound] s = (x, s')"
    and ok: "signer_ok env" and inv: "session_inv sm0 s" and f: "fresh_machine A sm0"
    and bound: "length (us_diffs s) + 300 < 2 ^ 64" and active: "Phase (state (us_sm s)) = PhaseActive"
  shows "\<exists>k\<le>length (us_group s) + 1. session_inv sm0 s' \<and> length (us_diffs s') = length (us_diffs s) + k
    \<and> Phase (state (us_sm s')) = finalize_phase (length (us_group s)) k \<and> (x = Inr () \<longrightarrow> k = length (us_group s) + 1)"
proof -
  let ?g = "length (us_group s)"
  have g0: "good (static sm0) A sm0" using f by (simp add: fresh_machine_def)
  note grp = inv_group(2) [OF inv f]
  obtain y s1 where r: "sendDiffRound env [TxFinalizeRound] s = (y, s1)" by fastforce
  from r show ?thesis
  proof (cases rule: round_cases)
    case (failed e)
    with run r have "x = Inl e" "s' = s1" by simp_all
    with failed_round [OF failed(2) ok inv f] active show ?thesis by (intro exI [of _ 0]) (simp add: finalize_phase_def)
  next
    case composed
    note i = round_inv [OF composed ok inv f]
    have "clock_ok (us_sm s)" using inv_clock [OF inv f] bound by simp
    then have p: "Phase (state (us_sm s1)) \<noteq> PhaseActive" "FinalizeNonce (state (us_sm s1)) = LatestNonce (state (us_sm s)) + 1"
      using round_clock(2) [OF composed inv g0 _ active] by simp_all
    have "\<exists>j\<le>?g. session_inv sm0 s' \<and> length (us_diffs s') = length (us_diffs s1) + j \<and> (x = Inr () \<longrightarrow> j = ?g)
        \<and> Phase (state (us_sm s')) \<noteq> PhaseActive \<and> FinalizeNonce (state (us_sm s')) = FinalizeNonce (state (us_sm s1))"
    proof (cases y)
      case (Inl e)
      with run r have "x = Inl e" "s' = s1" by simp_all
      with i(1) p(1) show ?thesis by (intro exI [of _ 0]) simp
    next
      case (Inr u)
      with run r have "diffRounds env ?g [] s1 = (x, s')" by simp
      from rounds_finalizing [OF this ok i(1) f _ p(1)] i(2) bound grp show ?thesis by simp
    qed
    then obtain j where j: "j \<le> ?g" "session_inv sm0 s'" "length (us_diffs s') = length (us_diffs s) + Suc j"
        "x = Inr () \<longrightarrow> j = ?g" "Phase (state (us_sm s')) \<noteq> PhaseActive" "FinalizeNonce (state (us_sm s')) = LatestNonce (state (us_sm s)) + 1"
      using i(2) p(2) by auto
    have same: "us_group s' = us_group s" using j(2) inv by (simp add: session_inv_def)
    have "unat (FinalizeNonce (state (us_sm s'))) = Suc (length (us_diffs s))"
      using j(6) inv_nonce [OF inv] bound by (simp add: unat_u64_add)
    from finalizing_phase [OF j(2,3,5) this f] j(1) same bound grp
    have "Phase (state (us_sm s')) = finalize_phase ?g (Suc j)" by simp
    with j show ?thesis by (intro exI [of _ "Suc j"]) auto
  qed
qed

end
