(* ===== verification/UserPool.thy ===== *)
theory UserPool
  imports UserFinalize
begin

text \<open>
  The signature pool of a session. Every pooled signature was verified against the validator of
  its slot, a validator that signed holds a signature for each of its slots, and so the weight
  of a nonce is the number of slots that signed it.
\<close>

section \<open>Collecting\<close>

lemma uniqueHosts_bound: "(i, a) \<in> set (uniqueHosts k as seen) \<Longrightarrow> k \<le> i \<and> i < k + length as"
  by (induction k as seen rule: uniqueHosts.induct) (auto split: if_splits)

lemma missingHosts_bound: "h \<in> set (missingHosts nonce s) \<Longrightarrow> h < length (us_group s)"
  by (auto simp: missingHosts_def uniquePhysicalHosts_def dest: uniqueHosts_bound)

lemma collectAction_steps:
  assumes "action_host a < length (us_group s)"
  shows "user_steps env s (collectAction env nonce a s) \<and> same_core s (collectAction env nonce a s)"
proof (cases a)
  case (FetchSigs h fetched)
  obtain b s1 where f: "fetchSignature env h nonce fetched s = (b, s1)" by fastforce
  then show ?thesis
    using FetchSigs assms fetch_core [OF f] user_step.fetch [OF f] by auto
next
  case (CatchUpChunk h chunk)
  let ?req = "\<lparr>hq_Diffs = chunk, hq_Nonce = d_Nonce (last chunk), hq_Payload = None\<rparr>"
  obtain r s1 where t: "sendTo env h ?req s = (r, s1)" by fastforce
  have c1: "same_core s s1"
    using t by (auto simp: sendTo_def same_core_def)
  have s1: "user_step env s s1"
    by (rule sendTo_step [OF t])
  show ?thesis
  proof (cases r)
    case None
    with CatchUpChunk t c1 s1 show ?thesis by auto
  next
    case (Some resp)
    obtain x s2 where p: "processR env h resp (d_Nonce (last chunk)) s1 = (x, s2)" by fastforce
    have "same_core s1 s2"
      using p processResponse_core(1) by (auto simp: processR_def split: sum.splits)
    moreover have "user_steps env s1 s2"
      using processR_steps [OF p] assms CatchUpChunk c1 by (simp add: same_core_def)
    ultimately show ?thesis
      using CatchUpChunk t Some p c1 s1 same_core_trans by (auto intro: converse_rtranclp_into_rtranclp)
  qed
qed

lemma collect_steps:
  assumes "CollectSignatures env schedule nonce s = (w, s')"
  shows "user_steps env s s'" and "same_core s s'"
proof -
  let ?f = "\<lambda>t a. if action_host a \<in> set (missingHosts nonce s) then collectAction env nonce a t else t"
  have step: "user_steps env t (?f t a) \<and> same_core t (?f t a)" if "same_core s t" for t a
    using collectAction_steps [of a t env nonce] missingHosts_bound [of "action_host a" nonce s] that
    by (auto simp: same_core_def)
  have "user_steps env s (foldl ?f t as) \<and> same_core s (foldl ?f t as)"
    if "user_steps env s t \<and> same_core s t" for t as
    using that
  proof (induction as arbitrary: t)
    case (Cons a as)
    have "user_steps env s (?f t a) \<and> same_core s (?f t a)"
      using step [of t a] Cons.prems same_core_trans by (meson rtranclp_trans)
    then show ?case using Cons.IH [of "?f t a"] by simp
  qed simp
  then have "user_steps env s (foldl ?f s schedule) \<and> same_core s (foldl ?f s schedule)" by simp
  then show "user_steps env s s'" "same_core s s'"
    using assms by (auto simp: CollectSignatures_def Let_def)
qed

lemma steps_group: "user_steps env s s' \<Longrightarrow> us_group s' = us_group s"
  by (induction rule: rtranclp_induct) (simp_all add: step_group)

lemma diffRounds_steps:
  "diffRounds env n extra s = (x, s') \<Longrightarrow> length (us_group s) < 2 ^ 64 \<Longrightarrow> user_steps env s s'"
proof (induction n arbitrary: extra s)
  case (Suc n)
  obtain y s1 where r: "sendDiffRound env extra s = (y, s1)" by fastforce
  note st = sendDiffRound_steps [OF r Suc.prems(2)]
  show ?case
  proof (cases y)
    case (Inl e)
    with Suc.prems(1) r st show ?thesis by auto
  next
    case (Inr v)
    then have "diffRounds env n [] s1 = (x, s')" using Suc.prems(1) r by simp
    then have "user_steps env s1 s'" using Suc.IH Suc.prems(2) steps_group [OF st] by simp
    with st show ?thesis by (rule rtranclp_trans)
  qed
qed simp

lemma Finalize_steps:
  assumes f: "Finalize env schedule s = (x, s')" and g: "length (us_group s) < 2 ^ 64"
  shows "user_steps env s s'"
proof -
  have c: "user_steps env t s'" if "(case CollectSignatures env schedule n t of
      ((weight, threshold, _), s1) \<Rightarrow> if weight < threshold then (Inl e, s1) else (Inr (), s1)) = (x, s')" for n t e
    using that collect_steps(1) [of env schedule n t] by (auto split: prod.splits if_splits)
  obtain y s1 where r: "diffRounds env (length (us_group s) + 1) [TxFinalizeRound] s = (y, s1)" by fastforce
  note st = diffRounds_steps [OF r g]
  show ?thesis
  proof (cases "Phase (state (us_sm s))")
    case PhaseActive
    show ?thesis
    proof (cases y)
      case (Inl e)
      with f r PhaseActive st show ?thesis by (simp add: Finalize_def Let_def del: diffRounds.simps)
    next
      case (Inr v)
      with f r PhaseActive have "user_steps env s1 s'"
        by (intro c) (simp add: Finalize_def Let_def del: diffRounds.simps)
      with st show ?thesis by (rule rtranclp_trans)
    qed
  next
    case PhaseSettlement
    then show ?thesis
      using f c [where n = "us_nonce s" and t = s] by (auto simp: Finalize_def Let_def split: if_splits)
  qed (use f in \<open>simp add: Finalize_def\<close>)
qed

section \<open>Roots\<close>

lemma post_root:
  assumes "session_inv sm0 s" and "length (us_diffs s) < 2 ^ 64"
  shows "postStateRootForNonce n s
    = (if 0 < unat n \<and> unat n \<le> length (us_diffs s) then Some (d_PostStateRoot (us_diffs s ! (unat n - 1))) else None)"
proof -
  let ?ds = "us_diffs s"
  have nth: "d_Nonce (?ds ! i) = of_nat (Suc i)" if "i < length ?ds" for i
    using assms(1) that by (simp add: session_inv_def) (metis (no_types, lifting) add_cancel_right_left length_map map_nth nth_map nth_upt)
  have u: "unat (d_Nonce (?ds ! i)) = Suc i" if "i < length ?ds" for i
    using nth [OF that] that assms(2) by (simp add: unat_of_nat del: of_nat_Suc)
  show ?thesis
  proof (cases "0 < unat n \<and> unat n \<le> length ?ds")
    case True
    then have i: "unat n - 1 < length ?ds" and ne: "?ds \<noteq> []" by auto
    have "d_Nonce (?ds ! 0) = 1"
      using nth [of 0] ne by simp
    moreover have "unat (n - 1) = unat n - 1"
      using True by (simp add: unat_minus_one unat_gt_0)
    moreover have "d_Nonce (?ds ! (unat n - 1)) = n"
      using u [OF i] True by (simp add: word_unat_eq_iff)
    moreover have "n \<ge> 1"
      using True by (simp add: word_le_nat_alt)
    ultimately show ?thesis
      using True i ne by (simp add: postStateRootForNonce_def Let_def)
  next
    case False
    have "unat (d_Nonce d) \<noteq> unat n" if "d \<in> set ?ds" for d
      using False that u by (auto simp: in_set_conv_nth)
    then have no: "d_Nonce d \<noteq> n" if "d \<in> set ?ds" for d
      using that by auto
    then have "find (\<lambda>d. d_Nonce d = n) ?ds = None"
      by (simp add: find_None_iff)
    moreover have "\<not> (unat (n - d_Nonce (?ds ! 0)) < length ?ds \<and> d_Nonce (?ds ! unat (n - d_Nonce (?ds ! 0))) = n)"
      using no by auto
    ultimately show ?thesis
      using False by (auto simp: postStateRootForNonce_def Let_def)
  qed
qed

section \<open>The pool\<close>

definition signed_root :: "u64 \<Rightarrow> bytes \<Rightarrow> Session \<Rightarrow> bool" where
  "signed_root n root s \<longleftrightarrow> root = [] \<or> n = 0 \<or> postStateRootForNonce n s = Some root"

definition pool_inv :: "user_env \<Rightarrow> Session \<Rightarrow> bool" where
  "pool_inv env s \<longleftrightarrow>
     (\<forall>n sigs slot sig. kv_get (us_signatures s) n = Some sigs \<longrightarrow> kv_get sigs slot = Some sig \<longrightarrow>
        (\<exists>a root. slot \<in> set (us_addrToSlots s a) \<and> signed_root n root s
           \<and> verifyStateSignature env n root sig a s = Inr ()
           \<and> (\<forall>slot'\<in>set (us_addrToSlots s a). kv_get sigs slot' \<noteq> None)))
     \<and> kv_inv (us_signatures s) \<and> (\<forall>n sigs. kv_get (us_signatures s) n = Some sigs \<longrightarrow> kv_inv sigs)"

lemma kv_get_all:
  "kv_get (foldl (\<lambda>m slot. kv_set slot sig m) m slots) x = (if x \<in> set slots then Some sig else kv_get m x)"
  by (induction slots arbitrary: m) auto

lemma kv_inv_all: "kv_inv m \<Longrightarrow> kv_inv (foldl (\<lambda>m slot. kv_set slot sig m) m slots)"
  by (induction slots arbitrary: m) auto

lemma verify_core: "same_core s s' \<Longrightarrow> verifyStateSignature env n root sig a s' = verifyStateSignature env n root sig a s"
  by (simp add: verifyStateSignature_def same_core_def)

lemma post_root_core: "same_core s s' \<Longrightarrow> postStateRootForNonce n s' = postStateRootForNonce n s"
  by (simp add: postStateRootForNonce_def same_core_def Let_def)

lemma pool_same:
  assumes "pool_inv env s" and "same_core s s'" and "us_signatures s' = us_signatures s"
  shows "pool_inv env s'"
  using assms post_root_core [OF assms(2)] verify_core [OF assms(2)]
  by (simp add: pool_inv_def signed_root_def same_core_def)

lemma pool_store:
  assumes inv: "pool_inv env s" and core: "same_core s s'"
    and sig: "us_signatures s' = us_signatures (storeSignature n a sig s)"
    and v: "verifyStateSignature env n root sig a s = Inr ()" and r: "signed_root n root s"
  shows "pool_inv env s'"
proof -
  let ?old = "case kv_get (us_signatures s) n of None \<Rightarrow> [] | Some m \<Rightarrow> m"
  let ?new = "foldl (\<lambda>m slot. kv_set slot sig m) ?old (us_addrToSlots s a)"
  have old: "kv_inv ?old"
    using inv by (auto simp: pool_inv_def split: option.splits)
  have new: "us_signatures s' = kv_set n ?new (us_signatures s)"
    using sig by (simp add: storeSignature_def Let_def)
  have slots: "us_addrToSlots s' = us_addrToSlots s"
    using core by (simp add: same_core_def)
  have "\<exists>b rt. slot \<in> set (us_addrToSlots s b) \<and> signed_root m rt s \<and> verifyStateSignature env m rt sg b s = Inr ()
      \<and> (\<forall>slot'\<in>set (us_addrToSlots s b). kv_get sigs slot' \<noteq> None)"
    if g: "kv_get (kv_set n ?new (us_signatures s)) m = Some sigs" "kv_get sigs slot = Some sg" for m sigs slot sg
  proof (cases "m = n")
    case False
    with g inv show ?thesis by (simp add: pool_inv_def)
  next
    case True
    then have sigs: "sigs = ?new" using g(1) by simp
    show ?thesis
    proof (cases "slot \<in> set (us_addrToSlots s a)")
      case True
      then show ?thesis
        using g(2) v r \<open>m = n\<close> unfolding sigs by (auto simp: kv_get_all)
    next
      case False
      then have "kv_get ?old slot = Some sg"
        using g(2) by (simp add: sigs kv_get_all)
      then obtain o1 where "kv_get (us_signatures s) n = Some o1" "kv_get o1 slot = Some sg" "?old = o1"
        by (auto split: option.splits)
      then obtain b rt where "slot \<in> set (us_addrToSlots s b)" "signed_root n rt s" "verifyStateSignature env n rt sg b s = Inr ()"
          "\<forall>slot'\<in>set (us_addrToSlots s b). kv_get ?old slot' \<noteq> None"
        using inv unfolding pool_inv_def by metis
      then show ?thesis
        unfolding sigs using \<open>m = n\<close> by (intro exI [of _ b] exI [of _ rt]) (auto simp: kv_get_all)
    qed
  qed
  moreover have "kv_inv (kv_set n ?new (us_signatures s))"
    using inv by (simp add: pool_inv_def)
  moreover have "kv_inv sigs" if "kv_get (kv_set n ?new (us_signatures s)) m = Some sigs" for m sigs
    using that inv kv_inv_all [OF old] by (auto simp: pool_inv_def split: if_splits)
  ultimately show ?thesis
    unfolding pool_inv_def new slots signed_root_def post_root_core [OF core] verify_core [OF core] by blast
qed

lemma expected_signed:
  assumes "expectedRoot env n s = Inr root" and inv: "session_inv sm0 s" and b: "length (us_diffs s) < 2 ^ 64"
  shows "signed_root n root s"
proof (cases "postStateRootForNonce n s")
  case None
  then have "n = us_nonce s"
    using assms(1) by (auto simp: expectedRoot_def split: if_splits)
  then have "unat n = length (us_diffs s)"
    using inv_nonce [OF inv b] inv by (simp add: session_inv_def)
  then have "unat n = 0"
    using None post_root [OF inv b, of n] by (auto split: if_splits)
  then show ?thesis by (simp add: signed_root_def unat_eq_0)
next
  case (Some r)
  with assms(1) show ?thesis by (simp add: expectedRoot_def signed_root_def)
qed

lemma response_root:
  assumes "processResponse env h resp n s = Inr s'" and "session_inv sm0 s" and "length (us_diffs s) < 2 ^ 64"
  shows "signed_root (hr_Nonce resp) (hr_StateHash resp) s"
proof (cases "hr_StateHash resp = []")
  case True
  then show ?thesis by (simp add: signed_root_def)
next
  case False
  then have "expectedRoot env (hr_Nonce resp) s = Inr (hr_StateHash resp)"
    using assms(1) by (auto simp: processResponse_def bindE_def split: sum.splits if_splits)
  then show ?thesis by (rule expected_signed [OF _ assms(2,3)])
qed

lemma fetchLoop_pool:
  "pool_inv env s \<Longrightarrow> signed_root n root s \<Longrightarrow> pool_inv env (snd (fetchLoop env n root a sigs s))"
proof (induction env n root a sigs s rule: fetchLoop.induct)
  case (2 env n root a slot sig sigs s)
  then show ?case
    using pool_store [of env s "storeSignature n a sig s" n a sig root]
    by (auto simp: same_core_def storeSignature_def Let_def split: sum.split)
qed simp

lemma fetch_pool:
  assumes f: "fetchSignature env h n fetched s = (c, s')" and p: "pool_inv env s" and inv: "session_inv sm0 s"
    and b: "length (us_diffs s) < 2 ^ 64"
  shows "pool_inv env s'"
proof (cases "s' = s")
  case False
  then obtain sigs root where root: "expectedRoot env n s = Inr root"
    and l: "fetchLoop env n root (ValidatorAddress (us_group s ! h)) sigs s = (c, s')"
    using f by (auto simp: fetchSignature_def split: option.splits if_splits sum.splits)
  show ?thesis
    using fetchLoop_pool [OF p expected_signed [OF root inv b], of "ValidatorAddress (us_group s ! h)" sigs]
    unfolding l by simp
qed (use p in simp)

lemma post_root_grows:
  assumes "session_inv sm0 s" and "session_inv sm0 s'" and "length (us_diffs s') < 2 ^ 64"
    and "us_diffs s' = us_diffs s @ ds" and "postStateRootForNonce n s = Some root"
  shows "postStateRootForNonce n s' = Some root"
  using post_root [OF assms(1), of n] post_root [OF assms(2,3), of n] assms(3-5)
  by (auto simp: nth_append split: if_splits)

lemma compose_pool:
  assumes c: "composeDiffLocked env extra s = (x, s')" and ok: "signer_ok env" and g: "good S A sm0"
    and inv: "session_inv sm0 s" and inv': "session_inv sm0 s'" and b: "length (us_diffs s') < 2 ^ 64"
    and p: "pool_inv env s"
  shows "pool_inv env s'"
proof -
  have e: "\<exists>ds. us_diffs s' = us_diffs s @ ds \<and> us_signatures s' = us_signatures s \<and> us_addrToSlots s' = us_addrToSlots s
      \<and> us_escrowID s' = us_escrowID s"
  proof (cases x)
    case (Inl e)
    have "advanced sm0 (length (us_diffs s)) (us_sm s)"
      using inv by (simp add: session_inv_def)
    note f = compose_failed [OF c [unfolded Inl] ok this advanced_good [OF this g]]
    show ?thesis using f(3-) by simp
  next
    case (Inr q)
    obtain diff h where q: "q = (diff, h)" by fastforce
    show ?thesis using compose_parts [OF c [unfolded Inr q]] by metis
  qed
  then obtain ds where ds: "us_diffs s' = us_diffs s @ ds" and same: "us_signatures s' = us_signatures s"
    "us_addrToSlots s' = us_addrToSlots s" "us_escrowID s' = us_escrowID s" by blast
  have root: "signed_root n root s \<Longrightarrow> signed_root n root s'" for n root
    using post_root_grows [OF inv inv' b ds] by (auto simp: signed_root_def)
  have ver: "verifyStateSignature env n root sig a s' = verifyStateSignature env n root sig a s" for n root sig a
    using same(3) by (simp add: verifyStateSignature_def)
  show ?thesis
    using p root unfolding pool_inv_def same ver by blast
qed

lemma step_pool:
  assumes st: "user_step env s s'" and ok: "signer_ok env" and g: "good S A sm0" and inv: "session_inv sm0 s"
    and b: "length (us_diffs s') < 2 ^ 64" and p: "pool_inv env s"
  shows "pool_inv env s'"
  using st
proof (cases rule: user_step.cases)
  case (compose extra x)
  then show ?thesis using compose_pool [OF _ ok g inv step_inv [OF st ok g inv] b p] by blast
next
  case (response h resp n)
  note r = processResponse_core [OF response(1)]
  have "signed_root (hr_Nonce resp) (hr_StateHash resp) s"
    using response_root [OF response(1) inv] b r(1) by (simp add: same_core_def)
  then show ?thesis
    using r(2) pool_same [OF p r(1)] pool_store [OF p r(1), of "hr_Nonce resp"] by metis
next
  case (fetch h n fetched c)
  have d: "length (us_diffs s) < 2 ^ 64"
    using fetch_core [OF fetch(1)] b by (simp add: same_core_def)
  show ?thesis by (rule fetch_pool [OF fetch(1) p inv d])
next
  case (pending tx)
  show ?thesis unfolding pending by (rule pool_same [OF p addPendingTx_frame])
next
  case (sent l)
  show ?thesis unfolding sent by (rule pool_same [OF p]) (simp_all add: same_core_def)
next
  case (outcome m)
  show ?thesis unfolding outcome by (rule pool_same [OF p]) (simp_all add: same_core_def)
qed

lemma step_length: "user_step env s s' \<Longrightarrow> length (us_diffs s) \<le> length (us_diffs s')"
proof (induction rule: user_step.induct)
  case (compose extra s x s')
  then show ?case
    by (auto simp: composeDiffLocked_def Let_def clearPendingTxs_def split: sum.splits prod.splits option.splits if_splits)
next
  case (response h resp n s s')
  then show ?case using processResponse_core(1) by (auto simp: same_core_def)
next
  case (fetch h n fetched s b s')
  then show ?case using fetch_core by (auto simp: same_core_def)
qed (simp_all add: addPendingTx_def Let_def)

lemma steps_pool:
  assumes "user_steps env s s'" and "signer_ok env" and "good S A sm0" and "session_inv sm0 s" and "pool_inv env s"
    and "length (us_diffs s') < 2 ^ 64"
  shows "pool_inv env s'"
  using assms
proof (induction rule: rtranclp_induct)
  case (step t u)
  have "length (us_diffs t) < 2 ^ 64"
    using step_length [OF step.hyps(2)] step.prems(5) by simp
  note i = steps_inv [OF step.hyps(1) step.prems(1-3)] step.IH [OF step.prems(1-4) this]
  show ?case by (rule step_pool [OF step.hyps(2) step.prems(1,2) i(1) step.prems(5) i(2)])
qed

section \<open>Weight\<close>

lemma sigWeight_sum:
  "sigWeight sm sigs counted w
     = w + (\<Sum>a \<in> (SlotAddress sm \<circ> fst) ` set sigs - set counted. addressToSlotCount sm a)"
proof (induction sm sigs counted w rule: sigWeight.induct)
  case (2 sm slot sig sigs counted w)
  let ?a = "SlotAddress sm slot" and ?A = "(SlotAddress sm \<circ> fst) ` set sigs"
  show ?case
  proof (cases "?a \<in> set counted")
    case True
    then have "insert ?a ?A - set counted = ?A - set counted" by auto
    with True 2 show ?thesis by (simp add: Let_def)
  next
    case False
    then have "insert ?a ?A - set counted = insert ?a (?A - set (?a # counted))"
      "?a \<notin> ?A - set (?a # counted)" by auto
    then have "(\<Sum>a\<in>insert ?a ?A - set counted. addressToSlotCount sm a)
        = addressToSlotCount sm ?a + (\<Sum>a\<in>?A - set (?a # counted). addressToSlotCount sm a)"
      by (simp only: sum.insert [OF finite_Diff [OF finite_imageI [OF finite_set]]] not_False_eq_True)
    with False 2(2) [OF refl False] show ?thesis by (simp add: Let_def add.assoc)
  qed
qed simp

lemma sigWeight_card:
  assumes ok: "machine_ok sm" and slots: "fst ` set sigs \<subseteq> SlotID ` set (Group (state sm))"
    and closed: "\<forall>s\<in>fst ` set sigs. set (addressToSlots sm (SlotAddress sm s)) \<subseteq> fst ` set sigs"
  shows "sigWeight sm sigs [] 0 = of_nat (card (fst ` set sigs))"
proof -
  let ?K = "fst ` set sigs" and ?A = "(SlotAddress sm \<circ> fst) ` set sigs" and ?T = "map SlotID (Group (state sm))"
  have w: "addressToSlots sm a = filter (\<lambda>s. SlotAddress sm s = a) ?T"
    "unat (addressToSlotCount sm a) = length (addressToSlots sm a)" for a
    using ok by (auto simp: machine_ok_def session_ok_def terms_ok_def)
  have "distinct ?T"
    using terms_distinct [of "terms_of sm"] ok by (auto simp: machine_ok_def session_ok_def)
  then have "unat (addressToSlotCount sm a) = card {s \<in> set ?T. SlotAddress sm s = a}" for a
    using w [of a] distinct_card [of "filter (\<lambda>s. SlotAddress sm s = a) ?T"] by simp
  then have c: "addressToSlotCount sm a = of_nat (card {s \<in> set ?T. SlotAddress sm s = a})" for a
    by (metis of_nat_unat ucast_id)
  have "(\<Sum>a\<in>?A. addressToSlotCount sm a) = of_nat (\<Sum>a\<in>?A. card {s \<in> set ?T. SlotAddress sm s = a})"
    by (simp add: c)
  also have "(\<Sum>a\<in>?A. card {s \<in> set ?T. SlotAddress sm s = a}) = card (\<Union>a\<in>?A. {s \<in> set ?T. SlotAddress sm s = a})"
    by (rule card_UN_disjoint [symmetric]) auto
  also have "(\<Union>a\<in>?A. {s \<in> set ?T. SlotAddress sm s = a}) = ?K"
    using slots closed by (force simp: w(1) image_iff)
  finally show ?thesis by (simp add: sigWeight_sum)
qed

end
