(* ===== verification/UserExample.thy ===== *)
theory UserExample
  imports UserPool
begin

text \<open>
  A concrete user session over the machine of the devshard example: two hosts that answer no
  request, no storage, and a signer for the user. Finalization runs its three rounds and collects
  one signature per host.
\<close>

section \<open>Rounds in which no host answers\<close>

lemma strict_effort: "applyTxs env txs sm = (Inr (), sm') \<Longrightarrow> applyBestEffort env txs sm = (Inr txs, sm')"
proof (induction txs arbitrary: sm)
  case (Cons tx txs)
  then show ?case by (auto simp: bindS_eq)
qed simp

lemma local_effort:
  assumes "ApplyLocal env n txs sm = (Inr root, sm')"
  shows "localBestEffortLocked env n txs sm = (Inr (root, txs), sm')"
proof -
  have "applyCore env n txs [] sm = (Inr root, sm')"
    using assms by (simp add: ApplyLocal_def)
  then obtain sm1 where "applyTxs env txs sm = (Inr (), sm1)" "finishNonce env n sm1 = (Inr root, sm')"
      "n = LatestNonce (state sm) + 1" "checkStarts n txs = Inr ()"
    by (auto simp: applyCore_def orRollback_Inr Let_def split: sum.splits if_splits)
  then show ?thesis
    by (auto simp: localBestEffort_Inr dest: strict_effort)
qed

lemma silent_round:
  assumes "us_pendingTxs s = []" and "us_store s = None" and "us_group s \<noteq> []" and "\<And>l h q. hostSend env l h q = None"
    and "ApplyLocal (denv env) (us_nonce s + 1) extra (us_sm s) = (Inr root, sm')"
    and "signDiff env (us_nonce s + 1) extra root s = Inr d"
  shows "\<exists>s'. sendDiffRound env extra s = (Inr (), s') \<and> us_sm s' = sm' \<and> us_nonce s' = us_nonce s + 1
    \<and> us_diffs s' = us_diffs s @ [d] \<and> us_pendingTxs s' = [] \<and> us_store s' = None \<and> us_group s' = us_group s
    \<and> us_escrowID s' = us_escrowID s \<and> us_signatures s' = us_signatures s \<and> us_addrToSlots s' = us_addrToSlots s"
proof -
  let ?h = "unat ((us_nonce s + 1) mod of_nat (length (us_group s)))"
  let ?s1 = "clearPendingTxs (s\<lparr>us_pendingTxs := [], us_sm := sm', us_diffs := us_diffs s @ [d], us_nonce := us_nonce s + 1\<rparr>)"
  have "composeDiffLocked env extra s = (Inr (d, ?h), ?s1)"
    using local_effort [OF assms(5)] assms(1-3,6)
    by (simp add: composeDiffLocked_def ApplyLocalBestEffort_def Let_def)
  then have "\<exists>l. sendDiffRound env extra s = (Inr (), ?s1\<lparr>us_sent := l\<rparr>)"
    using assms(4) by (simp add: sendDiffRound_def sendTo_def) blast
  then obtain l where "sendDiffRound env extra s = (Inr (), ?s1\<lparr>us_sent := l\<rparr>)" ..
  then show ?thesis
    using assms(2) by (intro exI [of _ "?s1\<lparr>us_sent := l\<rparr>"]) (simp add: clearPendingTxs_def)
qed

section \<open>The session\<close>

definition ex_keys :: devshard_env where
  "ex_keys = ex_env\<lparr>RecoverAddress := \<lambda>_ sig. if sig = [1] then Some ''a'' else if sig = [2] then Some ''b'' else Some ''u''\<rparr>"

definition ex_user :: user_env where
  "ex_user = \<lparr>denv = ex_keys, signer = \<lambda>_. Some [9], appendErr = \<lambda>_ _ _. None, hostSend = \<lambda>_ _ _. None,
     ctxDone = \<lambda>_. False, CanonicalPromptHash = \<lambda>p. Some p\<rparr>"

lemma ex_signer: "signer_ok ex_user"
  by (simp add: signer_ok_def ex_user_def ex_keys_def ex_env_def marshal_total_def)

definition ex_session :: Session where
  "ex_session = (case NewSession ex_machine ''7'' ex_group 2 False of Inr s \<Rightarrow> s | Inl _ \<Rightarrow> undefined)"

lemma ex_session_new: "NewSession ex_machine ''7'' ex_group 2 False = Inr ex_session"
  using ex_group_ok by (simp add: ex_session_def NewSession_def ex_group_def)

lemma ex_session_sel:
  "us_pendingTxs ex_session = []" "us_store ex_session = None" "us_group ex_session = ex_group" "us_nonce ex_session = 0"
  "us_sm ex_session = ex_machine" "us_diffs ex_session = []" "us_signatures ex_session = []"
  "us_addrToSlots ex_session = (\<lambda>_. [])(''a'' := [0], ''b'' := [1])" "us_hostSyncNonce ex_session = []"
  using ex_group_ok by (simp_all add: ex_session_def NewSession_def ex_group_def)

lemma ex_root: "Inferences (state sm) = [] \<Longrightarrow> \<exists>r. computeStateRootLocked ex_keys sm = Inr r"
  by (simp add: computeStateRootLocked_def computeHostStatsHash_def ComputeRestHashV2_def ComputeInferencesHashV2_def
      computeInferencesHash_def marshalE_def ex_keys_def ex_env_def Let_def split: sum.split)

definition ex_phase :: "SessionPhase \<Rightarrow> u64 \<Rightarrow> StateMachine" where
  "ex_phase p n = ex_machine\<lparr>state := (state ex_machine)\<lparr>Phase := p, LatestNonce := n, FinalizeNonce := 1\<rparr>\<rparr>"

lemmas ex_round = ApplyLocal_def applyCore_def checkStarts_def map_filter_simps Let_def orRollback_def
  finishNonce_def chargeNonceFee_def advanceNonce_def settleAtDeadline_def autoSealStep_def
  applyFinalizeRound_def drainLiveIntoSealedAccLocked_def ex_state ex_group_def ex_phase_def bindS_def

lemma ex_le: "\<not> (3 :: u64) \<le> 1"
  by (simp add: word_le_nat_alt)

lemma ex_round1: "\<exists>r. ApplyLocal ex_keys 1 [TxFinalizeRound] ex_machine = (Inr r, ex_phase PhaseFinalizing 1)"
  using ex_root [of "ex_phase PhaseFinalizing 1"] by (auto simp: ex_round ex_le)

lemma ex_round2: "\<exists>r. ApplyLocal ex_keys 2 [] (ex_phase PhaseFinalizing 1) = (Inr r, ex_phase PhaseFinalizing 2)"
  using ex_root [of "ex_phase PhaseFinalizing 2"] by (auto simp: ex_round)

lemma ex_round3: "\<exists>r. ApplyLocal ex_keys 3 [] (ex_phase PhaseFinalizing 2) = (Inr r, ex_phase PhaseSettlement 3)"
  using ex_root [of "ex_phase PhaseSettlement 3"] by (auto simp: ex_round)

section \<open>The run of finalization\<close>

definition ex_schedule :: "collect_action list" where
  "ex_schedule = [FetchSigs 0 (Some [(0, [1])]), FetchSigs 1 (Some [(1, [2])])]"

lemma ex_sign: "\<exists>d. signDiff ex_user n txs r s = Inr d \<and> d_Nonce d = n \<and> d_PostStateRoot d = r"
  by (simp add: signDiff_def marshalE_def ex_user_def ex_keys_def ex_env_def)

lemma ex_rounds:
  "\<exists>s. diffRounds ex_user (length (us_group ex_session) + 1) [TxFinalizeRound] ex_session = (Inr (), s)
     \<and> us_sm s = ex_phase PhaseSettlement 3 \<and> us_nonce s = 3 \<and> map d_Nonce (us_diffs s) = [1, 2, 3] \<and> us_group s = ex_group
     \<and> us_signatures s = [] \<and> us_addrToSlots s = us_addrToSlots ex_session"
proof -
  note s0 = ex_session_sel
  have env: "denv ex_user = ex_keys" "hostSend ex_user l h q = None" for l h q
    by (simp_all add: ex_user_def)
  obtain r1 where r1: "ApplyLocal ex_keys 1 [TxFinalizeRound] ex_machine = (Inr r1, ex_phase PhaseFinalizing 1)"
    using ex_round1 by blast
  obtain d1 where d1: "signDiff ex_user 1 [TxFinalizeRound] r1 ex_session = Inr d1" "d_Nonce d1 = 1" using ex_sign by blast
  obtain s1 where s1: "sendDiffRound ex_user [TxFinalizeRound] ex_session = (Inr (), s1)" "us_sm s1 = ex_phase PhaseFinalizing 1"
    "us_nonce s1 = 1" "us_diffs s1 = [d1]" "us_pendingTxs s1 = []" "us_store s1 = None" "us_group s1 = ex_group"
    "us_signatures s1 = []" "us_addrToSlots s1 = us_addrToSlots ex_session"
    using silent_round [of ex_session ex_user "[TxFinalizeRound]" r1 "ex_phase PhaseFinalizing 1" d1] r1 d1 s0 env by (auto simp: ex_group_def)
  obtain r2 where r2: "ApplyLocal ex_keys 2 [] (ex_phase PhaseFinalizing 1) = (Inr r2, ex_phase PhaseFinalizing 2)"
    using ex_round2 by blast
  obtain d2 where d2: "signDiff ex_user 2 [] r2 s1 = Inr d2" "d_Nonce d2 = 2" using ex_sign by blast
  obtain s2 where s2: "sendDiffRound ex_user [] s1 = (Inr (), s2)" "us_sm s2 = ex_phase PhaseFinalizing 2"
    "us_nonce s2 = 2" "us_diffs s2 = [d1, d2]" "us_pendingTxs s2 = []" "us_store s2 = None" "us_group s2 = ex_group"
    "us_signatures s2 = []" "us_addrToSlots s2 = us_addrToSlots ex_session"
    using silent_round [of s1 ex_user "[]" r2 "ex_phase PhaseFinalizing 2" d2] r2 d2 s1 env by (auto simp: ex_group_def)
  obtain r3 where r3: "ApplyLocal ex_keys 3 [] (ex_phase PhaseFinalizing 2) = (Inr r3, ex_phase PhaseSettlement 3)"
    using ex_round3 by blast
  obtain d3 where d3: "signDiff ex_user 3 [] r3 s2 = Inr d3" "d_Nonce d3 = 3" using ex_sign by blast
  obtain s3 where s3: "sendDiffRound ex_user [] s2 = (Inr (), s3)" "us_sm s3 = ex_phase PhaseSettlement 3"
    "us_nonce s3 = 3" "us_diffs s3 = [d1, d2, d3]" "us_group s3 = ex_group"
    "us_signatures s3 = []" "us_addrToSlots s3 = us_addrToSlots ex_session"
    using silent_round [of s2 ex_user "[]" r3 "ex_phase PhaseSettlement 3" d3] r3 d3 s2 env by (auto simp: ex_group_def)
  have n: "length ex_group + 1 = Suc (Suc (Suc 0))" by (simp add: ex_group_def)
  show ?thesis
    unfolding s0(3) n using s1(1) s2(1) s3 d1(2) d2(2) d3(2) by simp
qed

lemma ex_collect:
  assumes "us_sm s = ex_phase PhaseSettlement 3" and "us_nonce s = 3" and "map d_Nonce (us_diffs s) = [1, 2, 3]"
    and "us_group s = ex_group" and "us_signatures s = []" and "us_addrToSlots s = us_addrToSlots ex_session"
  shows "fst (CollectSignatures ex_user ex_schedule 3 s) = (2, 2, 2)"
proof -
  obtain d1 d2 d3 where d: "us_diffs s = [d1, d2, d3]" "d_Nonce d1 = 1" "d_Nonce d2 = 2" "d_Nonce d3 = 3"
    using assms(3) by (auto simp: map_eq_Cons_conv)
  let ?t = "\<lambda>m. s\<lparr>us_signatures := m\<rparr>"
  have sm: "SlotAddress (us_sm s) 0 = ''a''" "SlotAddress (us_sm s) 1 = ''b''" "addressToSlotCount (us_sm s) ''a'' = 1"
      "addressToSlotCount (us_sm s) ''b'' = 1" "totalSlots (us_sm s) = 2"
    using ex_fields(3,4,9) by (simp_all add: assms ex_phase_def SlotAddress_def group_map_def ex_group_def)
  have root: "expectedRoot ex_user 3 (?t m) = Inr (d_PostStateRoot d3)" for m
    by (simp add: expectedRoot_def postStateRootForNonce_def d Let_def)
  have ver: "verifyStateSignature ex_user 3 r [1] ''a'' (?t m) = Inr ()" "verifyStateSignature ex_user 3 r [2] ''b'' (?t m) = Inr ()" for m r
    by (simp_all add: verifyStateSignature_def marshalE_def ex_user_def ex_keys_def ex_env_def)
  have f0: "fetchSignature ex_user 0 3 (Some [(0, [1])]) (?t []) = (True, storeSignature 3 ''a'' [1] (?t []))"
    by (simp add: fetchSignature_def root ver sm assms(4) ex_group_def)
  have st: "storeSignature 3 ''a'' [1] (?t []) = ?t [(3, [(0, [1])])]"
      "storeSignature 3 ''b'' [2] (?t [(3, [(0, [1])])]) = ?t [(3, [(0, [1]), (1, [2])])]"
    by (simp_all add: storeSignature_def assms(6) ex_session_sel Let_def)
  have f1: "fetchSignature ex_user 1 3 (Some [(1, [2])]) (?t m) = (True, storeSignature 3 ''b'' [2] (?t m))" for m
    by (simp add: fetchSignature_def root ver sm assms(4) ex_group_def)
  have t: "?t [] = s"
    using assms(5) by simp
  have "missingHosts 3 s = [0, 1]"
    by (simp add: missingHosts_def uniquePhysicalHosts_def assms ex_group_def hasSig_def)
  moreover have "collectAction ex_user 3 (FetchSigs 0 (Some [(0, [1])])) s = ?t [(3, [(0, [1])])]"
      "collectAction ex_user 3 (FetchSigs 1 (Some [(1, [2])])) (?t [(3, [(0, [1])])]) = ?t [(3, [(0, [1]), (1, [2])])]"
    using f0 [unfolded t] f1 st [unfolded t] by simp_all
  ultimately have "snd (CollectSignatures ex_user ex_schedule 3 s) = ?t [(3, [(0, [1]), (1, [2])])]"
    by (simp add: CollectSignatures_def ex_schedule_def Let_def del: collectAction.simps)
  then show ?thesis
    using sm by (simp add: CollectSignatures_def QuorumThreshold_def Let_def)
qed

lemma ex_finalize:
  "\<exists>s. Finalize ex_user ex_schedule ex_session = (Inr (), s) \<and> us_nonce s = 3 \<and> length (us_diffs s) = 3 \<and> HasQuorumAt 3 s"
proof -
  obtain s where s: "diffRounds ex_user (length (us_group ex_session) + 1) [TxFinalizeRound] ex_session = (Inr (), s)"
      and t: "us_sm s = ex_phase PhaseSettlement 3" "us_nonce s = 3" "map d_Nonce (us_diffs s) = [1, 2, 3]" "us_group s = ex_group"
      "us_signatures s = []" "us_addrToSlots s = us_addrToSlots ex_session"
    using ex_rounds by (elim exE conjE)
  obtain s' where c: "CollectSignatures ex_user ex_schedule 3 s = ((2, 2, 2), s')"
    using ex_collect [OF t] by (cases "CollectSignatures ex_user ex_schedule 3 s") simp
  have p: "Phase (state (us_sm ex_session)) = PhaseActive"
    by (simp add: ex_session_sel(5) ex_state)
  have core: "us_sm s' = us_sm s" "us_nonce s' = 3" "length (us_diffs s') = 3"
    using collect_steps(2) [OF c] t(2) arg_cong [OF t(3), of length] by (simp_all add: same_core_def)
  have "HasQuorumAt 3 s'"
    using c core(1) by (auto simp: CollectSignatures_def HasQuorumAt_def hasQuorum_def Let_def split: option.splits)
  moreover have "Finalize ex_user ex_schedule ex_session = (Inr (), s')"
    unfolding Finalize_def Let_def p s using c by (simp add: t(2))
  ultimately show ?thesis using core(2,3) by blast
qed

end
