(* ===== verification/UserProperties.thy ===== *)
theory UserProperties
  imports UserExample
begin

text \<open>
  The properties of the user session: what finalization reaches, what a quorum stands for, that
  the store holds the log of diffs, and what the retries of the store do.
\<close>

section \<open>Sessions in use\<close>

lemma started_inv:
  assumes "ValidateGroup grp = Inr ()" and "NewStateMachine st ver opts escrow cfg grp amount user = Inr sm0"
    and "NewSession sm0 escrow grp clients stored = Inr s0"
  shows "session_inv sm0 s0" and "fresh_machine (unat amount) sm0" and "pool_inv env s0"
proof -
  show "session_inv sm0 s0" by (rule new_session_inv [OF assms])
  show "fresh_machine (unat amount) sm0"
    using new_machine_good [OF assms(1,2)] new_numbered [OF assms(1,2)] by (simp add: fresh_machine_def)
  show "pool_inv env s0"
    using assms(3) by (auto simp: NewSession_def pool_inv_def split: sum.splits if_splits)
qed

lemma used_inv:
  assumes "ValidateGroup grp = Inr ()" and "NewStateMachine st ver opts escrow cfg grp amount user = Inr sm0"
    and "NewSession sm0 escrow grp clients stored = Inr s0" and "user_steps env s0 s" and "signer_ok env"
  shows "session_inv sm0 s" and "fresh_machine (unat amount) sm0"
    and "length (us_diffs s) < 2 ^ 64 \<Longrightarrow> pool_inv env s" and "us_group s = grp" and "us_addrToSlots s = addressToSlots sm0"
proof -
  note n = started_inv [OF assms(1-3)]
  then have g: "good (static sm0) (unat amount) sm0" by (simp add: fresh_machine_def)
  show i: "session_inv sm0 s"
    by (rule steps_inv [OF assms(4,5) g n(1)])
  show "fresh_machine (unat amount) sm0" by (rule n(2))
  show "length (us_diffs s) < 2 ^ 64 \<Longrightarrow> pool_inv env s"
    using steps_pool [OF assms(4,5) g n(1) n(3)] .
  show "us_group s = grp" "us_addrToSlots s = addressToSlots sm0"
    using i NewStateMachine_eq(2) [OF assms(1,2)] by (simp_all add: session_inv_def)
qed

lemma used_quorum:
  assumes "ValidateGroup grp = Inr ()" and "NewStateMachine st ver opts escrow cfg grp amount user = Inr sm0"
    and "session_inv sm0 s"
  shows "unat (QuorumThreshold (us_sm s)) = 2 * length grp div 3 + 1" and "machine_ok (us_sm s)"
    and "Group (state (us_sm s)) = grp" and "addressToSlots (us_sm s) = addressToSlots sm0"
    and "x \<in> set grp \<Longrightarrow> SlotAddress (us_sm s) (SlotID x) = ValidatorAddress x"
proof -
  have f: "fresh_machine (unat amount) sm0"
    using new_machine_good [OF assms(1,2)] new_numbered [OF assms(1,2)] by (simp add: fresh_machine_def)
  note g = inv_group(3) [OF assms(3) f]
  then have st: "static (us_sm s) = static sm0" by (simp add: good_def)
  show "machine_ok (us_sm s)" using g by (simp add: good_def)
  show "Group (state (us_sm s)) = grp"
    using staticD(3) [OF st] NewStateMachine_eq(2) [OF assms(1,2)] by simp
  show "addressToSlots (us_sm s) = addressToSlots sm0"
    using staticD [OF st] by simp
  show "SlotAddress (us_sm s) (SlotID x) = ValidatorAddress x" if "x \<in> set grp"
    using staticD(10) [OF st] NewStateMachine_eq(3) [OF assms(1,2)] group_map_get [OF assms(1) that]
    by (simp add: SlotAddress_def)
  have "totalSlots (us_sm s) = of_nat (length grp)"
    using staticD [OF st] NewStateMachine_eq(9) [OF assms(1,2)] by simp
  then show "unat (QuorumThreshold (us_sm s)) = 2 * length grp div 3 + 1"
    using ValidateGroup_slots(3) [OF assms(1)]
    by (simp add: QuorumThreshold_def unat_word_ariths unat_div unat_of_nat)
qed

lemma response_errors: "processResponse env h resp n s \<noteq> Inl InsufficientSignatures"
  by (auto simp: processResponse_def bindE_def expectedRoot_def verifyStateSignature_def Let_def
      split: sum.splits option.splits if_splits)

lemma compose_errors: "composeDiffLocked env extra s \<noteq> (Inl InsufficientSignatures, s')"
  by (auto simp: composeDiffLocked_def signDiff_def Let_def split: sum.splits option.splits if_splits prod.splits)

lemma round_errors: "sendDiffRound env extra s \<noteq> (Inl InsufficientSignatures, s')"
  using compose_errors [of env extra s s'] response_errors
  by (auto simp: sendDiffRound_def processR_def split: sum.splits option.splits prod.splits)

lemma rounds_errors: "diffRounds env n extra s \<noteq> (Inl InsufficientSignatures, s')"
proof (induction n arbitrary: extra s)
  case (Suc n)
  then show ?case using round_errors [of env extra s s'] by (auto split: sum.splits prod.splits)
qed simp

text \<open>The end of a call of \<open>Finalize\<close> whose rounds succeeded: the collection of signatures.\<close>

lemma finalize_collects:
  assumes "ValidateGroup grp = Inr ()" and "NewStateMachine st ver opts escrow cfg grp amount user = Inr sm0"
    and active: "Phase (state (us_sm s)) = PhaseActive" and f: "Finalize env schedule s = (x, s')"
    and r: "diffRounds env (length (us_group s) + 1) [TxFinalizeRound] s = (Inr (), s1)" and inv: "session_inv sm0 s1"
  shows "x = Inr () \<or> x = Inl InsufficientSignatures" and "same_core s1 s'"
    and "x = Inr () \<Longrightarrow> HasQuorumAt (us_nonce s') s'"
proof -
  obtain weight thr tot s2 where c: "CollectSignatures env schedule (us_nonce s1) s1 = ((weight, thr, tot), s2)"
    by (metis prod_cases3 surj_pair)
  have x: "x = (if weight < thr then Inl InsufficientSignatures else Inr ())" "s' = s2"
    using active f r c by (auto simp: Finalize_def Let_def simp del: diffRounds.simps split: if_splits)
  then show "x = Inr () \<or> x = Inl InsufficientSignatures" by simp
  note core = collect_steps(2) [OF c]
  with x(2) show "same_core s1 s'" by simp
  have "unat (QuorumThreshold (us_sm s1)) \<noteq> 0"
    using used_quorum(1) [OF assms(1,2) inv] by simp
  then have q: "QuorumThreshold (us_sm s1) \<noteq> 0" by (metis unat_0)
  have e: "us_sm s2 = us_sm s1" "us_nonce s2 = us_nonce s1"
    using core by (simp_all add: same_core_def)
  show "HasQuorumAt (us_nonce s') s'" if "x = Inr ()"
    using c that q e x
    by (auto simp: CollectSignatures_def HasQuorumAt_def hasQuorum_def Let_def word_gt_0 split: option.splits if_splits)
qed

text \<open>
  C16. What a call of Finalize on an active session does, whatever the hosts answer: it composes some
  number \<open>k\<close> of diffs, at most one per slot of the group and one more, and the session is then active
  (\<open>k = 0\<close>), finalizing, or in settlement (all of them). Success and missing signatures are reported only
  after all of them, and success means that the signatures of the last nonce reach the quorum. Any
  other error ends the call after the diff it occurs at; unless that was the last one, the session
  stays in the finalizing phase, where every further call is refused and changes nothing. (Below the range
  of the nonce.)
\<close>

theorem finalize_outcome:
  assumes "ValidateGroup grp = Inr ()" and "NewStateMachine st ver opts escrow cfg grp amount user = Inr sm0"
    and "NewSession sm0 escrow grp clients stored = Inr s0" and "user_steps env s0 s" and "signer_ok env"
    and "length (us_diffs s) + 300 < 2 ^ 64" and "Phase (state (us_sm s)) = PhaseActive"
    and "Finalize env schedule s = (x, s')"
  shows "\<exists>k\<le>length grp + 1. length (us_diffs s') = length (us_diffs s) + k
    \<and> Phase (state (us_sm s')) = (if k = 0 then PhaseActive else if k \<le> length grp then PhaseFinalizing else PhaseSettlement)
    \<and> (x = Inr () \<or> x = Inl InsufficientSignatures \<longrightarrow> k = length grp + 1)
    \<and> (x = Inr () \<longrightarrow> HasQuorumAt (us_nonce s') s')
    \<and> (0 < k \<and> k \<le> length grp \<longrightarrow> (\<forall>env' schedule'. Finalize env' schedule' s' = (Inl FinalizeInProgress, s')))"
proof -
  note u = used_inv [OF assms(1-5)]
  obtain r s1 where r: "diffRounds env (length (us_group s) + 1) [TxFinalizeRound] s = (r, s1)" by fastforce
  obtain k where k: "k \<le> length (us_group s) + 1" "session_inv sm0 s1" "length (us_diffs s1) = length (us_diffs s) + k"
      "Phase (state (us_sm s1)) = finalize_phase (length (us_group s)) k" "r = Inr () \<longrightarrow> k = length (us_group s) + 1"
    using rounds_outcome [OF r assms(5) u(1,2) assms(6,7)] by blast
  have out: "same_core s1 s' \<and> (x = Inr () \<or> x = Inl InsufficientSignatures \<longrightarrow> r = Inr ()) \<and> (x = Inr () \<longrightarrow> HasQuorumAt (us_nonce s') s')"
  proof (cases r)
    case (Inl e)
    then have "x = Inl e" "s' = s1"
      using assms(7,8) r by (simp_all add: Finalize_def Let_def del: diffRounds.simps)
    moreover have "e \<noteq> InsufficientSignatures" using rounds_errors r Inl by blast
    ultimately show ?thesis by simp
  next
    case (Inr v)
    with r have "diffRounds env (length (us_group s) + 1) [TxFinalizeRound] s = (Inr (), s1)" by simp
    from finalize_collects [OF assms(1,2,7,8) this k(2)] Inr show ?thesis by simp
  qed
  then have core: "us_diffs s' = us_diffs s1" "us_sm s' = us_sm s1" by (simp_all add: same_core_def)
  have "Finalize env' schedule' s' = (Inl FinalizeInProgress, s')" if "0 < k" "k \<le> length grp" for env' schedule'
    using that k(4) core(2) u(4) by (simp add: Finalize_def Let_def finalize_phase_def)
  with k out core u(4) show ?thesis by (intro exI [of _ k]) (simp add: finalize_phase_def)
qed

theorem finalize_outcome_witness:
  "\<exists>s. Finalize ex_user ex_schedule ex_session = (Inr (), s) \<and> Phase (state (us_sm s)) = PhaseSettlement
    \<and> length (us_diffs s) = 3 \<and> HasQuorumAt (us_nonce s) s"
proof -
  obtain s where f: "Finalize ex_user ex_schedule ex_session = (Inr (), s)"
    using ex_finalize by blast
  have "Phase (state (us_sm ex_session)) = PhaseActive"
    by (simp add: ex_session_sel ex_state)
  then show ?thesis
    using finalize_outcome [OF ex_group_ok ex_machine_new ex_session_new _ ex_signer _ _ f] f
    by (auto simp: ex_session_sel ex_group_def)
qed

lemma image_restrict: "K \<subseteq> f ` A \<Longrightarrow> K = f ` {x \<in> A. f x \<in> K}"
  by blast

lemma pool_entry:
  assumes "ValidateGroup grp = Inr ()" and "NewStateMachine st ver opts escrow cfg grp amount user = Inr sm0"
    and "session_inv sm0 s" and "pool_inv env s" and "kv_get (us_signatures s) n = Some sigs" and "kv_get sigs slot = Some sig"
  shows "slot \<in> SlotID ` set grp" and "set (addressToSlots (us_sm s) (SlotAddress (us_sm s) slot)) \<subseteq> fst ` set sigs"
    and "\<exists>root. signed_root n root s \<and> verifyStateSignature env n root sig (SlotAddress (us_sm s) slot) s = Inr ()"
proof -
  note q = used_quorum [OF assms(1-3)]
  have slots: "us_addrToSlots s a = map SlotID (filter (\<lambda>x. ValidatorAddress x = a) grp)"
      "us_addrToSlots s = addressToSlots (us_sm s)" for a
    using assms(3) q(4) NewStateMachine_eq(5) [OF assms(1,2)] by (simp_all add: session_inv_def)
  obtain a root where e: "slot \<in> set (us_addrToSlots s a)" "signed_root n root s"
      "verifyStateSignature env n root sig a s = Inr ()" "\<forall>slot'\<in>set (us_addrToSlots s a). kv_get sigs slot' \<noteq> None"
    using assms(4-6) unfolding pool_inv_def by blast
  then obtain x where x: "x \<in> set grp" "ValidatorAddress x = a" "slot = SlotID x"
    by (auto simp: slots(1))
  then have a: "SlotAddress (us_sm s) slot = a" using q(5) by blast
  show "slot \<in> SlotID ` set grp" using x by blast
  show "set (addressToSlots (us_sm s) (SlotAddress (us_sm s) slot)) \<subseteq> fst ` set sigs"
    using e(4) unfolding a slots(2) by (auto simp del: not_None_eq simp: map_of_eq_None_iff)
  show "\<exists>root. signed_root n root s \<and> verifyStateSignature env n root sig (SlotAddress (us_sm s) slot) s = Inr ()"
    using e(2,3) unfolding a by blast
qed

lemma quorum_card:
  assumes "ValidateGroup grp = Inr ()" and "machine_ok sm" and sub: "fst ` set sigs \<subseteq> SlotID ` set grp"
    and "\<forall>slot\<in>fst ` set sigs. set (addressToSlots sm (SlotAddress sm slot)) \<subseteq> fst ` set sigs"
    and grp: "Group (state sm) = grp" and thr: "unat (QuorumThreshold sm) = 2 * length grp div 3 + 1"
    and w: "QuorumThreshold sm \<le> sigWeight sm sigs [] 0"
  shows "2 * length grp < 3 * card {x \<in> set grp. SlotID x \<in> fst ` set sigs}"
proof -
  let ?K = "fst ` set sigs" and ?S = "{x \<in> set grp. SlotID x \<in> fst ` set sigs}"
  have "sigWeight sm sigs [] 0 = of_nat (card ?K)"
    using assms(4) sub by (intro sigWeight_card [OF assms(2)]) (simp_all add: grp)
  moreover have "?K = SlotID ` ?S" by (rule image_restrict [OF sub])
  then have cs: "card ?K \<le> card ?S" using card_image_le [of ?S SlotID] by simp
  moreover have "card ?K \<le> length grp"
    using cs card_mono [of "set grp" ?S] card_length [of grp] by force
  ultimately have "2 * length grp div 3 + 1 \<le> card ?K"
    using w thr ValidateGroup_slots(3) [OF assms(1)] by (simp add: word_le_nat_alt unat_of_nat)
  then show ?thesis using cs by linarith
qed

text \<open>
  C17. A quorum is a quorum of verified signatures: when a session reports a quorum at a nonce,
  more than two thirds of the slots have a signature in the pool of that nonce, and it recovers to the validator of the slot (or its
  warm key) over the escrow, the nonce and a root, and that root is the one the diff of the nonce
  announced, or empty. (Below the range of the nonce.)
\<close>

theorem quorum_verified:
  assumes "ValidateGroup grp = Inr ()" and "NewStateMachine st ver opts escrow cfg grp amount user = Inr sm0"
    and "NewSession sm0 escrow grp clients stored = Inr s0" and "user_steps env s0 s" and "signer_ok env"
    and "length (us_diffs s) < 2 ^ 64" and "HasQuorumAt n s" and "n \<noteq> 0"
  shows "\<exists>S \<subseteq> set grp. \<exists>sigs. kv_get (us_signatures s) n = Some sigs \<and> 2 * length grp < 3 * card S
    \<and> (\<forall>a\<in>S. \<exists>sig root. kv_get sigs (SlotID a) = Some sig
         \<and> verifyStateSignature env n root sig (ValidatorAddress a) s = Inr ()
         \<and> (root = [] \<or> unat n \<le> length (us_diffs s) \<and> root = d_PostStateRoot (us_diffs s ! (unat n - 1))))"
proof -
  note u = used_inv [OF assms(1-5)]
  note q = used_quorum [OF assms(1,2) u(1)]
  have p: "pool_inv env s" by (rule u(3) [OF assms(6)])
  obtain sigs where sigs: "kv_get (us_signatures s) n = Some sigs"
    and w: "QuorumThreshold (us_sm s) \<le> sigWeight (us_sm s) sigs [] 0"
    using assms(7) by (auto simp: HasQuorumAt_def hasQuorum_def split: option.splits)
  let ?K = "fst ` set sigs" and ?S = "{x \<in> set grp. SlotID x \<in> fst ` set sigs}"
  have K: "\<exists>sig. kv_get sigs slot = Some sig" if "slot \<in> ?K" for slot
    using that by (metis map_of_eq_None_iff not_None_eq)
  note e = pool_entry [OF assms(1,2) u(1) p sigs]
  have c: "2 * length grp < 3 * card ?S"
  proof (rule quorum_card [OF assms(1) q(2)])
    show "fst ` set sigs \<subseteq> SlotID ` set grp" using K e(1) by blast
    show "\<forall>slot\<in>?K. set (addressToSlots (us_sm s) (SlotAddress (us_sm s) slot)) \<subseteq> ?K" using K e(2) by blast
  qed (use w q(1,3) in simp_all)
  have "\<exists>sig root. kv_get sigs (SlotID a) = Some sig \<and> verifyStateSignature env n root sig (ValidatorAddress a) s = Inr ()
         \<and> (root = [] \<or> unat n \<le> length (us_diffs s) \<and> root = d_PostStateRoot (us_diffs s ! (unat n - 1)))" if a: "a \<in> ?S" for a
  proof -
    obtain sig where sig: "kv_get sigs (SlotID a) = Some sig" using K [of "SlotID a"] a by auto
    then obtain root where "signed_root n root s" "verifyStateSignature env n root sig (ValidatorAddress a) s = Inr ()"
      using e(3) [of "SlotID a"] q(5) [of a] a by auto
    then show ?thesis
      using sig assms(8) post_root [OF u(1) assms(6), of n] by (auto simp: signed_root_def split: if_splits)
  qed
  with c sigs show ?thesis by (intro exI [of _ ?S]) auto
qed

theorem quorum_verified_witness:
  "\<exists>s. snd (Finalize ex_user ex_schedule ex_session) = s \<and>
    (\<exists>S \<subseteq> set ex_group. \<exists>sigs. kv_get (us_signatures s) 3 = Some sigs \<and> 4 < 3 * card S
      \<and> (\<forall>a\<in>S. \<exists>sig root. kv_get sigs (SlotID a) = Some sig
         \<and> verifyStateSignature ex_user 3 root sig (ValidatorAddress a) s = Inr ()
         \<and> (root = [] \<or> root = d_PostStateRoot (us_diffs s ! 2))))"
proof -
  obtain s where f: "Finalize ex_user ex_schedule ex_session = (Inr (), s)"
    and q: "length (us_diffs s) = 3" "us_nonce s = 3" "HasQuorumAt 3 s"
    using ex_finalize by blast
  have g: "length (us_group ex_session) < 2 ^ 64" by (simp add: ex_session_sel ex_group_def)
  show ?thesis
    using quorum_verified [OF ex_group_ok ex_machine_new ex_session_new Finalize_steps [OF f g] ex_signer _ q(3)] f q(1)
    by (simp add: ex_group_def)
qed

section \<open>The store\<close>

text \<open>An attempt that is tried and fails with an error that is retried, the back-off running to its end.\<close>

definition retried :: "retry_ctx \<Rightarrow> user_env \<Rightarrow> DiffRecord list \<Rightarrow> DiffRecord \<Rightarrow> nat \<Rightarrow> bool" where
  "retried ctx env stored rec k \<longleftrightarrow> \<not> ctxErr ctx k \<and> \<not> ctxWait ctx k
     \<and> (\<exists>e. storeAppend env stored k rec = Inl e \<and> e \<noteq> ErrDiffFork)"

lemma appendAttempts_Inr:
  "appendAttempts ctx env stored rec left k = Inr st \<longleftrightarrow>
     (\<exists>j<left. \<not> ctxErr ctx (k + j) \<and> storeAppend env stored (k + j) rec = Inr st
        \<and> (\<forall>i<j. retried ctx env stored rec (k + i)))"
proof (induction ctx env stored rec left k rule: appendAttempts.induct)
  case (2 ctx env stored rec left k)
  have shift: "(\<exists>j<Suc left. P j \<and> (\<forall>i<j. Q i)) \<longleftrightarrow> P 0 \<or> Q 0 \<and> (\<exists>j<left. P (Suc j) \<and> (\<forall>i<j. Q (Suc i)))"
    for P Q :: "nat \<Rightarrow> bool"
    by (auto simp: less_Suc_eq_0_disj) (metis not0_implies_Suc less_Suc_eq_0_disj)+
  let ?P = "\<lambda>j. \<not> ctxErr ctx (k + j) \<and> storeAppend env stored (k + j) rec = Inr st"
  have rhs: "(\<exists>j<Suc left. \<not> ctxErr ctx (k + j) \<and> storeAppend env stored (k + j) rec = Inr st
        \<and> (\<forall>i<j. retried ctx env stored rec (k + i)))
      \<longleftrightarrow> ?P 0 \<or> retried ctx env stored rec k \<and> (\<exists>j<left. ?P (Suc j) \<and> (\<forall>i<j. retried ctx env stored rec (k + Suc i)))"
    using shift [of ?P "\<lambda>i. retried ctx env stored rec (k + i)"] by (simp only: conj_assoc add_0_right)
  show ?case
  proof (cases "\<not> ctxErr ctx k \<and> (\<exists>e. storeAppend env stored k rec = Inl e \<and> e \<noteq> ErrDiffFork) \<and> left \<noteq> 0 \<and> \<not> ctxWait ctx k")
    case True
    then obtain e where e: "storeAppend env stored k rec = Inl e" "e \<noteq> ErrDiffFork" by blast
    with True have "retried ctx env stored rec k" by (simp add: retried_def)
    moreover have "appendAttempts ctx env stored rec (Suc left) k = appendAttempts ctx env stored rec left (k + 1)"
      using True e by simp
    moreover note 2 [OF _ e(1,2)]
    ultimately show ?thesis unfolding rhs using True e by simp
  next
    case False
    then show ?thesis unfolding rhs
      by (cases "storeAppend env stored k rec") (auto simp: retried_def)
  qed
qed simp

lemma storeAppend_Inr:
  "storeAppend env stored k rec = Inr st \<longleftrightarrow> appendErr env stored k rec = None
     \<and> (d_Nonce (dr_Diff rec) \<notin> (d_Nonce \<circ> dr_Diff) ` set stored \<and> st = stored @ [rec]
        \<or> find (\<lambda>r. d_Nonce (dr_Diff r) = d_Nonce (dr_Diff rec)) stored = Some rec \<and> st = stored)"
proof (cases "find (\<lambda>r. d_Nonce (dr_Diff r) = d_Nonce (dr_Diff rec)) stored")
  case None
  then have "d_Nonce (dr_Diff rec) \<notin> (d_Nonce \<circ> dr_Diff) ` set stored"
    by (auto simp: find_None_iff)
  with None show ?thesis by (auto simp: storeAppend_def split: option.split)
next
  case (Some r)
  then have "r \<in> set stored" "d_Nonce (dr_Diff r) = d_Nonce (dr_Diff rec)" by (auto simp: find_Some_iff)
  then have "d_Nonce (dr_Diff rec) \<in> (d_Nonce \<circ> dr_Diff) ` set stored" by (metis comp_apply image_eqI)
  with Some show ?thesis by (auto simp: storeAppend_def split: option.split)
qed

text \<open>
  C19. The retries of the store, for any context: a persist succeeds exactly when one of the first four
  attempts is started and succeeds, after attempts that all failed with an error other than a fork, none of them cut
  off by the context before it or in the back-off after it. The journal afterwards is what that attempt made of it: the
  journal with the new record when the nonce is new, the journal as it was when the record is already
  stored. Without a store it fails.
\<close>

theorem append_retry_exact:
  "AppendDiffWithRetry ctx env store rec = Inr st \<longleftrightarrow>
     (\<exists>stored j. store = Some stored \<and> j < 4 \<and> \<not> ctxErr ctx (1 + j) \<and> appendErr env stored (1 + j) rec = None
        \<and> (d_Nonce (dr_Diff rec) \<notin> (d_Nonce \<circ> dr_Diff) ` set stored \<and> st = stored @ [rec]
           \<or> find (\<lambda>r. d_Nonce (dr_Diff r) = d_Nonce (dr_Diff rec)) stored = Some rec \<and> st = stored)
        \<and> (\<forall>i<j. retried ctx env stored rec (1 + i)))"
  by (cases store)
    (auto simp: AppendDiffWithRetry_def appendAttempts_Inr DefaultPersistMaxAttempts_def storeAppend_Inr)

text \<open>Two attempts fail, the third succeeds.\<close>

theorem append_retry_exact_witness:
  "AppendDiffWithRetry Background (ex_user\<lparr>appendErr := \<lambda>_ k _. if k < 3 then Some ErrAppend else None\<rparr>) (Some [])
     \<lparr>dr_Diff = \<lparr>d_Nonce = 1, d_Txs = [], d_UserSig = [], d_PostStateRoot = []\<rparr>, dr_StateHash = [], dr_WarmKeyDelta = []\<rparr>
   = Inr [\<lparr>dr_Diff = \<lparr>d_Nonce = 1, d_Txs = [], d_UserSig = [], d_PostStateRoot = []\<rparr>, dr_StateHash = [], dr_WarmKeyDelta = []\<rparr>]"
  unfolding append_retry_exact
  by (intro exI [of _ "[]"] exI [of _ 2]) (simp add: Background_def retried_def storeAppend_def numeral_2_eq_2)

lemma persist_fresh:
  assumes "persistDiffRetryLocked env rec s = Inr st" and "us_store s = Some stored"
    and "d_Nonce (dr_Diff rec) \<notin> d_Nonce ` set (map dr_Diff stored)"
  shows "st = stored @ [rec]"
  using assms unfolding persistDiffRetryLocked_def AppendDiffWithRetry_def
  by (auto simp: appendAttempts_Inr storeAppend_Inr find_Some_iff image_iff)

definition durable :: "Session \<Rightarrow> bool" where
  "durable s \<longleftrightarrow> (case us_store s of None \<Rightarrow> True
     | Some rs \<Rightarrow> map dr_Diff rs = us_diffs s \<and> list_all (\<lambda>r. dr_StateHash r = d_PostStateRoot (dr_Diff r)) rs)"

lemma preview_nonce:
  assumes "PreviewLocalBestEffort env n txs sm = (Inr vd, sm1)"
  shows "vd_nonce vd = n" and "LatestNonce (state sm1) = LatestNonce (state sm)"
  using assms by (auto simp: PreviewLocalBestEffort_def trialApply_def Let_def restoreMutable_def snapshotMutable_def
      split: sum.splits prod.splits)

lemma persist_frame [simp]:
  "persistDiffRetryLocked env rec (s\<lparr>us_pendingTxs := txs\<rparr>) = persistDiffRetryLocked env rec s"
  "persistDiffRetryLocked env rec (s\<lparr>us_sm := sm\<rparr>) = persistDiffRetryLocked env rec s"
  by (simp_all add: persistDiffRetryLocked_def)

lemma fresh_nonce:
  assumes "session_inv sm0 s" and "Suc (length (us_diffs s)) < 2 ^ 64"
  shows "us_nonce s + 1 \<notin> d_Nonce ` set (us_diffs s)"
proof
  assume "us_nonce s + 1 \<in> d_Nonce ` set (us_diffs s)"
  then have "us_nonce s + 1 \<in> set (map d_Nonce (us_diffs s))" by simp
  moreover have "map d_Nonce (us_diffs s) = map (\<lambda>i. of_nat (Suc i)) [0..<length (us_diffs s)]"
      "us_nonce s + 1 = of_nat (Suc (length (us_diffs s)))"
    using assms(1) by (auto simp: session_inv_def)
  ultimately obtain i where i: "i < length (us_diffs s)" "(of_nat (Suc (length (us_diffs s))) :: u64) = of_nat (Suc i)" by auto
  then have "Suc (length (us_diffs s)) mod 2 ^ 64 = Suc i mod 2 ^ 64"
    using arg_cong [OF i(2), of unat] unfolding unat_of_nat by simp
  with i(1) assms(2) show False by simp
qed

lemma compose_durable:
  assumes c: "composeDiffLocked env extra s = (x, s')" and inv: "session_inv sm0 s" and d: "durable s"
    and b: "length (us_diffs s') < 2 ^ 64"
  shows "durable s'"
proof (cases "us_store s")
  case None
  then have "us_store s' = None"
    using c by (auto simp: composeDiffLocked_def Let_def clearPendingTxs_def split: sum.splits prod.splits option.splits if_splits)
  then show ?thesis by (simp add: durable_def)
next
  case (Some stored)
  let ?cands = "sort_key txPriority (us_pendingTxs s) @ extra"
  obtain r sm1 where p: "PreviewLocalBestEffort (denv env) (us_nonce s + 1) ?cands (us_sm s) = (r, sm1)" by fastforce
  show ?thesis
  proof (cases "us_diffs s' = us_diffs s \<and> us_store s' = us_store s")
    case True
    with d Some show ?thesis by (simp add: durable_def)
  next
    case False
    then obtain vd where r: "r = Inr vd"
      using c Some p by (cases r) (auto simp: composeDiffLocked_def Let_def split: if_splits)
    have nn: "vd_nonce vd = LatestNonce (state sm1) + 1"
      using preview_nonce [of "denv env" "us_nonce s + 1" ?cands "us_sm s" vd sm1] p r inv by (auto simp: session_inv_def)
    note compose = composeDiffLocked_def Let_def
    obtain diff where sg: "signDiff env (us_nonce s + 1) (vd_Applied vd) (vd_Root vd) s = Inr diff"
      using c Some p r False
      by (cases "signDiff env (us_nonce s + 1) (vd_Applied vd) (vd_Root vd) s") (auto simp: compose split: if_splits)
    define rec where "rec = \<lparr>dr_Diff = diff, dr_StateHash = vd_Root vd,
      dr_WarmKeyDelta = ComputeWarmKeyDelta (WarmKeys (state (us_sm s))) (vd_WarmAfter vd)\<rparr>"
    obtain st1 where st1: "persistDiffRetryLocked env rec s = Inr st1"
      using c Some p r False sg
      by (cases "persistDiffRetryLocked env rec s") (auto simp: compose rec_def split: if_splits)
    have rec: "d_Nonce (dr_Diff rec) = us_nonce s + 1" "dr_StateHash rec = d_PostStateRoot (dr_Diff rec)"
      using sg by (auto simp: rec_def signDiff_def split: sum.splits option.splits)
    have s': "us_diffs s' = us_diffs s @ [dr_Diff rec]" "us_store s' = Some st1"
      using c Some p r nn False sg st1
      by (auto simp: compose rec_def CommitValidated_def clearPendingTxs_def split: if_splits)
    have "d_Nonce (dr_Diff rec) \<notin> d_Nonce ` set (map dr_Diff stored)"
      using fresh_nonce [OF inv] b d Some s'(1) rec(1) by (simp add: durable_def)
    from persist_fresh [OF st1 Some this] s' rec(2) d Some show ?thesis by (simp add: durable_def)
  qed
qed

lemma durable_core: "same_core s s' \<Longrightarrow> durable s' = durable s"
  by (simp add: durable_def same_core_def split: option.split)

lemma step_durable:
  assumes "user_step env s s'" and "session_inv sm0 s" and "durable s" and "length (us_diffs s') < 2 ^ 64"
  shows "durable s'"
  using assms(1)
proof (cases rule: user_step.cases)
  case (compose extra x)
  then show ?thesis using compose_durable [OF _ assms(2-4)] by blast
next
  case (response h resp n)
  then show ?thesis using durable_core [OF processResponse_core(1) [OF response(1)]] assms(3) by simp
next
  case (fetch h n fetched b)
  then show ?thesis using durable_core [OF fetch_core [OF fetch(1)]] assms(3) by simp
next
  case (pending tx)
  then show ?thesis using durable_core [OF addPendingTx_frame(1)] assms(3) by simp
qed (use assms(3) in \<open>simp_all add: durable_def split: option.splits\<close>)

lemma step_store: "user_step env s s' \<Longrightarrow> (us_store s' = None) = (us_store s = None)"
proof (induction rule: user_step.induct)
  case (compose extra s x s')
  then show ?case
    by (cases "us_store s")
      (auto simp: composeDiffLocked_def Let_def clearPendingTxs_def split: sum.splits prod.splits option.splits if_splits)
next
  case (response h resp n s s')
  then show ?case using processResponse_core(1) by (auto simp: same_core_def)
next
  case (fetch h n fetched s b s')
  then show ?case using fetch_core by (auto simp: same_core_def)
qed (simp_all add: addPendingTx_def Let_def)

lemma steps_durable:
  assumes "user_steps env s s'" and "signer_ok env" and "good S A sm0" and "session_inv sm0 s" and "durable s"
    and "length (us_diffs s') < 2 ^ 64"
  shows "durable s'"
  using assms
proof (induction rule: rtranclp_induct)
  case (step t u)
  have "length (us_diffs t) < 2 ^ 64"
    using step_length [OF step.hyps(2)] step.prems(5) by simp
  note i = steps_inv [OF step.hyps(1) step.prems(1-3)] step.IH [OF step.prems(1-4) this]
  show ?case by (rule step_durable [OF step.hyps(2) i step.prems(5)])
qed

text \<open>
  C18. The store holds the log: after any sequence of session operations, the records of the
  store are the diffs of the log, in order, each with the root its diff announced, and the diffs
  are numbered from one without a gap. The session never gets ahead of its store. (Below the
  range of the nonce: a nonce that wraps around is not new to the store.)
\<close>

theorem log_durable:
  assumes "ValidateGroup grp = Inr ()" and "NewStateMachine st ver opts escrow cfg grp amount user = Inr sm0"
    and "NewSession sm0 escrow grp clients True = Inr s0" and "user_steps env s0 s" and "signer_ok env"
    and "length (us_diffs s) < 2 ^ 64"
  shows "\<exists>rs. us_store s = Some rs \<and> map dr_Diff rs = us_diffs s
    \<and> map dr_StateHash rs = map d_PostStateRoot (us_diffs s)
    \<and> map d_Nonce (us_diffs s) = map (\<lambda>i. of_nat (Suc i)) [0..<length (us_diffs s)]
    \<and> LatestNonce (state (us_sm s)) = of_nat (length (us_diffs s))"
proof -
  note n = started_inv [OF assms(1-3)]
  note u = used_inv [OF assms(1-5)]
  have st: "us_store s0 = Some []" "us_diffs s0 = []"
    using assms(3) by (auto simp: NewSession_def split: sum.splits if_splits)
  have g: "good (static sm0) (unat amount) sm0" using n(2) by (simp add: fresh_machine_def)
  have d: "durable s"
    by (rule steps_durable [OF assms(4,5) g n(1) _ assms(6)]) (simp add: durable_def st)
  have "us_store s \<noteq> None"
    using assms(4) st(1)
  proof (induction rule: rtranclp_induct)
    case (step t u)
    then show ?case using step_store [OF step.hyps(2)] by simp
  qed simp
  then obtain rs where "us_store s = Some rs" by blast
  moreover from this d have "map dr_Diff rs = us_diffs s" "list_all (\<lambda>r. dr_StateHash r = d_PostStateRoot (dr_Diff r)) rs"
    by (simp_all add: durable_def)
  moreover from this have "map dr_StateHash rs = map d_PostStateRoot (us_diffs s)"
    by (auto simp: list_all_iff dest: sym)
  ultimately show ?thesis
    using u(1) by (auto simp: session_inv_def)
qed

definition ex_stored :: Session where
  "ex_stored = (case NewSession ex_machine ''7'' ex_group 2 True of Inr s \<Rightarrow> s | Inl _ \<Rightarrow> undefined)"

lemma ex_stored_new: "NewSession ex_machine ''7'' ex_group 2 True = Inr ex_stored"
  using ex_group_ok by (simp add: ex_stored_def NewSession_def ex_group_def)

lemma ex_stored_diffs: "us_diffs ex_stored = []"
  using ex_group_ok by (simp add: ex_stored_def NewSession_def ex_group_def)

theorem log_durable_witness:
  "\<exists>s rs. composeDiffLocked ex_user [TxFinalizeRound] ex_stored = s \<and> us_store (snd s) = Some rs
     \<and> map dr_Diff rs = us_diffs (snd s)"
proof -
  obtain x s where c: "composeDiffLocked ex_user [TxFinalizeRound] ex_stored = (x, s)" by fastforce
  then have run: "user_steps ex_user ex_stored s"
    using user_step.compose by blast
  have "length (us_diffs s) \<le> 1"
    using c by (auto simp: composeDiffLocked_def Let_def clearPendingTxs_def ex_stored_diffs
        split: sum.splits prod.splits option.splits if_splits)
  then have "length (us_diffs s) < 2 ^ 64" by simp
  from log_durable [OF ex_group_ok ex_machine_new ex_stored_new run ex_signer this] c show ?thesis by auto
qed

section \<open>What a host can put into a session\<close>

text \<open>A pending start message that is not for the next nonce.\<close>

definition blocked :: "Session \<Rightarrow> bool" where
  "blocked s \<longleftrightarrow> (\<exists>m. TxStartInference m \<in> set (us_pendingTxs s) \<and> si_InferenceId m \<noteq> us_nonce s + 1)"

lemma blocked_starts:
  assumes "TxStartInference m \<in> set txs" and "si_InferenceId m \<noteq> n"
  shows "checkStarts n txs = Inl ErrInvalidInferenceID"
proof -
  have "si_InferenceId m \<in> set (List.map_filter start_id txs)"
    using assms(1) by (force simp: List.map_filter_def)
  then show ?thesis
    using assms(2) by (auto simp: checkStarts_def list_ex_iff Let_def)
qed

lemma blocked_compose:
  assumes "blocked s" and inv: "session_inv sm0 s" and g: "us_group s \<noteq> []" and c: "composeDiffLocked env extra s = (x, s')"
  shows "x = Inl (LocalApply ErrInvalidInferenceID)" and "blocked s'" and "us_diffs s' = us_diffs s"
proof -
  let ?c = "sort_key txPriority (us_pendingTxs s) @ extra" and ?n = "us_nonce s + 1"
  obtain m where m: "TxStartInference m \<in> set (us_pendingTxs s)" "si_InferenceId m \<noteq> ?n"
    using assms(1) by (auto simp: blocked_def)
  then have ch: "checkStarts ?n ?c = Inl ErrInvalidInferenceID"
    by (intro blocked_starts [of m]) auto
  have n: "?n = LatestNonce (state (us_sm s)) + 1"
    using inv by (simp add: session_inv_def)
  have l: "localBestEffortLocked (denv env) ?n ?c sm = (Inl ErrInvalidInferenceID, sm)"
    if "LatestNonce (state sm) = LatestNonce (state (us_sm s))" for sm
    using ch that n by (simp add: localBestEffortLocked_def Let_def)
  have p: "PreviewLocalBestEffort (denv env) ?n ?c (us_sm s) = (Inl ErrInvalidInferenceID, (us_sm s)\<lparr>obsDeferred := None\<rparr>)"
    using l [of "(us_sm s)\<lparr>obsDeferred := Some []\<rparr>"] by (simp add: PreviewLocalBestEffort_def trialApply_def Let_def)
  have "x = Inl (LocalApply ErrInvalidInferenceID) \<and> us_pendingTxs s' = sort_key txPriority (us_pendingTxs s)
      \<and> us_nonce s' = us_nonce s \<and> us_diffs s' = us_diffs s"
    using c g l [of "us_sm s"] p
    by (auto simp: composeDiffLocked_def ApplyLocalBestEffort_def Let_def split: option.splits)
  then show "x = Inl (LocalApply ErrInvalidInferenceID)" "blocked s'" "us_diffs s' = us_diffs s"
    using m by (auto simp: blocked_def)
qed

lemma addPendingTx_pending:
  "set (us_pendingTxs s) \<subseteq> set (us_pendingTxs (addPendingTx tx s))"
  "start_id tx \<noteq> None \<Longrightarrow> tx \<in> set (us_pendingTxs (addPendingTx tx s))"
  "us_nonce (addPendingTx tx s) = us_nonce s"
  by (cases tx; auto simp: addPendingTx_def Let_def)+

lemma addAll_pending:
  "set (us_pendingTxs s) \<subseteq> set (us_pendingTxs (foldl (\<lambda>s tx. addPendingTx tx s) s txs))"
  "tx \<in> set txs \<Longrightarrow> start_id tx \<noteq> None \<Longrightarrow> tx \<in> set (us_pendingTxs (foldl (\<lambda>s tx. addPendingTx tx s) s txs))"
proof (induction txs arbitrary: s)
  case (Cons t txs)
  { case 1 show ?case using addPendingTx_pending(1) [of s t] Cons.IH(1) [of "addPendingTx t s"] by auto }
  { case 2 then show ?case
      using addPendingTx_pending(2) [of t s] Cons.IH(1,2) [of "addPendingTx t s"] by auto }
qed auto

lemma noteOutcome_pending [simp]: "us_pendingTxs (noteOutcome n resp s) = us_pendingTxs s"
  by (simp add: noteOutcome_def Let_def split: option.split)

lemma response_pending:
  assumes "processResponse env h resp n s = Inr s'"
  shows "set (us_pendingTxs s) \<subseteq> set (us_pendingTxs s')"
    and "tx \<in> set (hr_Mempool resp) \<Longrightarrow> start_id tx \<noteq> None \<Longrightarrow> tx \<in> set (us_pendingTxs s')"
proof -
  let ?sync = "\<lambda>s. if hr_Nonce resp > (case kv_get (us_hostSyncNonce s) h of None \<Rightarrow> 0 | Some n \<Rightarrow> n)
    then s\<lparr>us_hostSyncNonce := kv_set h (hr_Nonce resp) (us_hostSyncNonce s)\<rparr> else s"
  let ?receipt = "\<lambda>s. case hr_Receipt resp of None \<Rightarrow> s | Some receipt \<Rightarrow> addPendingTx (TxConfirmStart
      \<lparr>cs_InferenceId = n, cs_ExecutorSig = receipt, cs_ConfirmedAt = hr_ConfirmedAt resp\<rparr>) s"
  obtain s0 where r: "(case hr_StateSig resp of None \<Rightarrow> Inr s | Some sig \<Rightarrow>
        bindE (verifyStateSignature env (hr_Nonce resp) (hr_StateHash resp) sig (ValidatorAddress (us_group s ! h)) s)
          (\<lambda>_. Inr (storeSignature (hr_Nonce resp) (ValidatorAddress (us_group s ! h)) sig s))) = Inr s0"
    and s': "s' = noteOutcome n resp (foldl (\<lambda>s tx. addPendingTx tx s) (?receipt (?sync s0)) (hr_Mempool resp))"
    using assms unfolding processResponse_def Let_def bindE_Inr_iff by (elim exE conjE) (simp only: sum.inject)
  define s1 where "s1 = ?receipt (?sync s0)"
  have "us_pendingTxs s0 = us_pendingTxs s"
    using r by (cases "hr_StateSig resp") (auto simp: bindE_Inr_iff storeSignature_def Let_def)
  then have "us_pendingTxs (?sync s0) = us_pendingTxs s" by simp
  then have sub: "set (us_pendingTxs s) \<subseteq> set (us_pendingTxs s1)"
    using addPendingTx_pending(1) [of "?sync s0"] unfolding s1_def
    by (cases "hr_Receipt resp") (simp_all only: option.case order_refl)
  note s' = s' [folded s1_def]
  show "set (us_pendingTxs s) \<subseteq> set (us_pendingTxs s')"
    using sub addAll_pending(1) [of s1 "hr_Mempool resp"] s' by simp
  show "tx \<in> set (hr_Mempool resp) \<Longrightarrow> start_id tx \<noteq> None \<Longrightarrow> tx \<in> set (us_pendingTxs s')"
    using addAll_pending(2) [of tx "hr_Mempool resp" s1] s' by simp
qed

lemma step_blocked:
  assumes "user_step env s s'" and "session_inv sm0 s" and "us_group s \<noteq> []" and "blocked s"
  shows "blocked s' \<and> us_diffs s' = us_diffs s"
  using assms(1)
proof (cases rule: user_step.cases)
  case (compose extra x)
  then show ?thesis using blocked_compose [OF assms(4,2,3)] by blast
next
  case (response h resp n)
  then show ?thesis
    using response_pending(1) [OF response(1)] processResponse_core(1) [OF response(1)] assms(4)
    by (auto simp: blocked_def same_core_def)
next
  case (fetch h n fetched b)
  have "us_pendingTxs (snd (fetchLoop env n root a sigs s)) = us_pendingTxs s" for root a sigs
    by (induction env n root a sigs s rule: fetchLoop.induct) (auto simp: storeSignature_def Let_def split: sum.split)
  then have "us_pendingTxs s' = us_pendingTxs s"
    using fetch(1) by (auto simp: fetchSignature_def split: option.splits if_splits sum.splits) (metis snd_conv)+
  then show ?thesis
    using fetch_core [OF fetch(1)] assms(4) by (auto simp: blocked_def same_core_def)
next
  case (pending tx)
  then show ?thesis
    using addPendingTx_pending(1) [of s tx] addPendingTx_pending(3) [of tx s] addPendingTx_frame(1) [of s tx] assms(4) by (auto simp: blocked_def same_core_def)
qed (use assms(4) in \<open>auto simp: blocked_def\<close>)

text \<open>
  C21. One response can end a session: when a host puts a start message for another nonce
  than the next into the mempool of its response, the session composes no diff from then on,
  whatever it and the other hosts do, so it can neither start an inference nor finalize.
\<close>

theorem mempool_start_blocks_session:
  assumes "ValidateGroup grp = Inr ()" and "NewStateMachine st ver opts escrow cfg grp amount user = Inr sm0"
    and "NewSession sm0 escrow grp clients stored = Inr s0" and "user_steps env s0 s" and "signer_ok env"
    and "h < length grp" and "processResponse env h resp n s = Inr s1" and "TxStartInference m \<in> set (hr_Mempool resp)"
    and "si_InferenceId m \<noteq> us_nonce s + 1" and "user_steps env s1 s2"
  shows "us_diffs s2 = us_diffs s \<and> fst (composeDiffLocked env extra s2) = Inl (LocalApply ErrInvalidInferenceID)"
proof -
  note u = used_inv [OF assms(1-5)]
  have g0: "good (static sm0) (unat amount) sm0" using u(2) by (simp add: fresh_machine_def)
  have grp: "us_group s \<noteq> []" using u(4) ValidateGroup_slots(2) [OF assms(1)] by simp
  note core = processResponse_core(1) [OF assms(7)]
  have b1: "blocked s1"
    using response_pending(2) [OF assms(7,8)] core assms(9) by (auto simp: blocked_def same_core_def)
  have "blocked s2 \<and> us_diffs s2 = us_diffs s1 \<and> session_inv sm0 s2 \<and> us_group s2 = us_group s1"
    using assms(10)
  proof (induction rule: rtranclp_induct)
    case base
    then show ?case using u(1) b1 session_inv_core [OF core] by simp
  next
    case (step t v)
    have "us_group t \<noteq> []" using step.IH grp core by (simp add: same_core_def)
    then show ?case
      using step_blocked [OF step.hyps(2)] step_inv [OF step.hyps(2) assms(5) g0] step_group [OF step.hyps(2)] step.IH
      by auto
  qed
  moreover from this have "us_group s2 \<noteq> []" using grp core by (simp add: same_core_def)
  ultimately show ?thesis
    using blocked_compose(1) [of s2 sm0 env extra] core by (auto simp: same_core_def prod_eq_iff)
qed

definition ex_bad_response :: HostResponse where
  "ex_bad_response = \<lparr>hr_StateSig = None, hr_StateHash = [], hr_Nonce = 0, hr_Receipt = None, hr_ConfirmedAt = 0,
     hr_Mempool = [TxStartInference \<lparr>si_InferenceId = 5, si_PromptHash = [], si_Model = ''m'', si_InputLength = 1,
       si_MaxTokens = 1, si_StartedAt = 0\<rparr>]\<rparr>"

theorem mempool_start_blocks_session_witness:
  "\<exists>s. processResponse ex_user 0 ex_bad_response 1 ex_session = Inr s
     \<and> fst (composeDiffLocked ex_user [TxFinalizeRound] s) = Inl (LocalApply ErrInvalidInferenceID)"
proof -
  have "\<exists>s. processResponse ex_user 0 ex_bad_response 1 ex_session = Inr s"
    by (simp add: processResponse_def ex_bad_response_def Let_def)
  then obtain s where p: "processResponse ex_user 0 ex_bad_response 1 ex_session = Inr s" ..
  then show ?thesis
    using mempool_start_blocks_session [OF ex_group_ok ex_machine_new ex_session_new rtranclp.rtrancl_refl ex_signer _ p _ _ rtranclp.rtrancl_refl]
    by (simp add: ex_bad_response_def ex_session_sel ex_group_def)
qed

text \<open>
  C22. A response without a state hash is not compared with any root: its signature is verified
  over the empty root and pooled for the nonce the host names, for every slot of the host, whether or not
  the session knows a diff of that nonce.
\<close>

theorem empty_hash_signature_pooled:
  assumes "hr_StateHash resp = []" and "hr_StateSig resp = Some sig"
    and "verifyStateSignature env (hr_Nonce resp) [] sig (ValidatorAddress (us_group s ! h)) s = Inr ()"
    and "slot \<in> set (us_addrToSlots s (ValidatorAddress (us_group s ! h)))"
  shows "\<exists>s' sigs. processResponse env h resp n s = Inr s'
    \<and> kv_get (us_signatures s') (hr_Nonce resp) = Some sigs \<and> kv_get sigs slot = Some sig"
proof -
  have "\<exists>s'. processResponse env h resp n s = Inr s'"
    using assms(1-3) by (simp add: processResponse_def Let_def)
  then obtain s' where p: "processResponse env h resp n s = Inr s'" ..
  then have "us_signatures s' = us_signatures (storeSignature (hr_Nonce resp) (ValidatorAddress (us_group s ! h)) sig s)"
    using processResponse_core(2) [OF p] assms(2) by simp
  then show ?thesis
    using p assms(4) by (simp add: storeSignature_def Let_def kv_get_all)
qed

theorem empty_hash_signature_pooled_witness:
  "\<exists>s' sigs. processResponse ex_user 0 (ex_bad_response\<lparr>hr_StateSig := Some [1], hr_Nonce := 7\<rparr>) 1 ex_session = Inr s'
     \<and> kv_get (us_signatures s') 7 = Some sigs \<and> kv_get sigs 0 = Some [1]"
  using empty_hash_signature_pooled [of "ex_bad_response\<lparr>hr_StateSig := Some [1], hr_Nonce := 7\<rparr>" "[1]" ex_user ex_session 0 0 1]
  by (simp add: ex_bad_response_def ex_session_sel ex_group_def verifyStateSignature_def marshalE_def ex_user_def ex_keys_def ex_env_def)

section \<open>Catch-up\<close>

lemma addPendingTx_sent [simp]: "us_sent (addPendingTx tx s) = us_sent s"
  by (simp add: addPendingTx_def Let_def)

lemma addPendingTxs_sent [simp]: "us_sent (foldl (\<lambda>s tx. addPendingTx tx s) s txs) = us_sent s"
  by (induction txs arbitrary: s) simp_all

lemma noteOutcome_sent [simp]: "us_sent (noteOutcome n resp s) = us_sent s"
  by (simp add: noteOutcome_def Let_def split: option.split)

lemma storeSignature_sent [simp]: "us_sent (storeSignature n a sig s) = us_sent s"
  by (simp add: storeSignature_def Let_def)

lemma processResponse_sent:
  assumes "processResponse env h resp n s = Inr s'"
  shows "us_sent s' = us_sent s"
proof -
  let ?a = "ValidatorAddress (us_group s ! h)"
  let ?sync = "\<lambda>s. if hr_Nonce resp > (case kv_get (us_hostSyncNonce s) h of None \<Rightarrow> 0 | Some n \<Rightarrow> n)
    then s\<lparr>us_hostSyncNonce := kv_set h (hr_Nonce resp) (us_hostSyncNonce s)\<rparr> else s"
  let ?receipt = "\<lambda>s. case hr_Receipt resp of None \<Rightarrow> s | Some receipt \<Rightarrow> addPendingTx (TxConfirmStart
      \<lparr>cs_InferenceId = n, cs_ExecutorSig = receipt, cs_ConfirmedAt = hr_ConfirmedAt resp\<rparr>) s"
  obtain s1 where r: "(case hr_StateSig resp of None \<Rightarrow> Inr s | Some sig \<Rightarrow>
        bindE (verifyStateSignature env (hr_Nonce resp) (hr_StateHash resp) sig ?a s)
          (\<lambda>_. Inr (storeSignature (hr_Nonce resp) ?a sig s))) = Inr s1"
    and s': "s' = noteOutcome n resp (foldl (\<lambda>s tx. addPendingTx tx s) (?receipt (?sync s1)) (hr_Mempool resp))"
    using assms unfolding processResponse_def Let_def bindE_Inr_iff by (elim exE conjE) (simp only: sum.inject)
  have "us_sent s1 = us_sent s"
    using r by (cases "hr_StateSig resp") (auto simp: bindE_Inr_iff)
  then show ?thesis
    unfolding s' by (cases "hr_Receipt resp") simp_all
qed

lemma processR_sent [simp]: "us_sent (snd (processR env h resp n s)) = us_sent s"
  by (auto simp: processR_def processResponse_sent split: sum.split)

text \<open>One turn of the loop: it stops, or sends the next chunk and stops or goes on at least one chunk further.\<close>

lemma catchUpLoop_turn:
  assumes "k < length c"
  obtains "catchUpLoop env h c k s = (Inr (), s)"
  | q s1 where "hq_Diffs q = take catchUpChunkSize (drop k c)" and "us_sent s1 = us_sent s @ [(h, q)]"
      and "snd (catchUpLoop env h c k s) = s1"
  | q n s1 where "hq_Diffs q = take catchUpChunkSize (drop k c)" and "us_sent s1 = us_sent s @ [(h, q)]"
      and "k + catchUpChunkSize \<le> n" and "catchUpLoop env h c k s = catchUpLoop env h c n s1"
proof (cases "ctxDone env (us_sent s)")
  case True
  then show thesis using that(1) by (simp add: catchUpLoop.simps [of env h c k s])
next
  case False
  let ?chunk = "take catchUpChunkSize (drop k c)"
  let ?req = "\<lparr>hq_Diffs = ?chunk, hq_Nonce = d_Nonce (last ?chunk), hq_Payload = None\<rparr>"
  let ?s1 = "s\<lparr>us_sent := us_sent s @ [(h, ?req)]\<rparr>"
  note loop = catchUpLoop.simps [of env h c k s] sendTo_def Let_def
  show thesis
  proof (cases "hostSend env (us_sent s) h ?req")
    case None
    with False assms show thesis by (intro that(2) [of ?req ?s1]) (simp_all add: loop)
  next
    case (Some resp)
    obtain x s2 where p: "processR env h resp (d_Nonce (last ?chunk)) ?s1 = (x, s2)" by fastforce
    then have s2: "us_sent s2 = us_sent s @ [(h, ?req)]"
      using processR_sent [of env h resp "d_Nonce (last ?chunk)" ?s1] by simp
    show thesis
    proof (cases x)
      case (Inl e)
      with False assms Some p s2 show thesis by (intro that(2) [of ?req s2]) (simp_all add: loop)
    next
      case (Inr u)
      with False assms Some p s2 show thesis
        by (intro that(3) [of ?req s2 "if hr_Nonce resp > d_Nonce (last ?chunk) \<and> skipTo (hr_Nonce resp) c > k + catchUpChunkSize
          then skipTo (hr_Nonce resp) c else k + catchUpChunkSize"]) (simp_all add: loop)
    qed
  qed
qed

definition catch_up_requests :: "nat \<Rightarrow> Diff list \<Rightarrow> nat \<Rightarrow> Session \<Rightarrow> Session \<Rightarrow> bool" where
  "catch_up_requests h c k s s' \<longleftrightarrow> (\<exists>reqs. us_sent s' = us_sent s @ map (Pair h) reqs
     \<and> catchUpChunkSize * length reqs < length c - k + catchUpChunkSize
     \<and> list_all (\<lambda>q. hq_Diffs q \<noteq> [] \<and> (\<exists>a. hq_Diffs q = take catchUpChunkSize (drop a c))) reqs)"

lemma catchUpLoop_requests: "catch_up_requests h c k s (snd (catchUpLoop env h c k s))"
proof (induction "length c - k" arbitrary: k s rule: less_induct)
  case less
  show ?case
  proof (cases "k < length c")
    case False
    then show ?thesis
      by (auto simp: catchUpLoop.simps [of env h c k s] catch_up_requests_def catchUpChunkSize_def)
  next
    case True
    then have ne: "take catchUpChunkSize (drop k c) \<noteq> []" by (simp add: catchUpChunkSize_def)
    from True show ?thesis
    proof (cases rule: catchUpLoop_turn [of k c env h s])
      case 1
      then show ?thesis by (auto simp: catch_up_requests_def catchUpChunkSize_def)
    next
      case (2 q s1)
      with True ne show ?thesis unfolding catch_up_requests_def by (intro exI [of _ "[q]"]) auto
    next
      case (3 q n s1)
      have "length c - n < length c - k" using True 3(3) by (simp add: catchUpChunkSize_def)
      from less.hyps [OF this, of s1] obtain reqs where r: "us_sent (snd (catchUpLoop env h c n s1)) = us_sent s1 @ map (Pair h) reqs"
          "catchUpChunkSize * length reqs < length c - n + catchUpChunkSize"
          "list_all (\<lambda>q. hq_Diffs q \<noteq> [] \<and> (\<exists>a. hq_Diffs q = take catchUpChunkSize (drop a c))) reqs"
        unfolding catch_up_requests_def by blast
      have "catchUpChunkSize * length (q # reqs) < length c - k + catchUpChunkSize"
        using True 3(3) r(2) by (cases "n < length c") (auto simp: catchUpChunkSize_def)
      with ne 3(1,2,4) r(1,3) show ?thesis unfolding catch_up_requests_def
        by (intro exI [of _ "q # reqs"]) (simp, blast)
    qed
  qed
qed

text \<open>
  C20. The catch-up of a host ends whatever the host answers: it sends at most one request for
  every started chunk of the diffs the host is missing, each request holds a chunk of consecutive missing
  diffs and none is empty. Nothing else is sent.
\<close>

theorem catch_up_terminates:
  "\<exists>reqs. us_sent (snd (sendCatchUpWith env h s)) = us_sent s @ map (Pair h) reqs
     \<and> catchUpChunkSize * length reqs < length (diffsForHost h s) + catchUpChunkSize
     \<and> list_all (\<lambda>q. hq_Diffs q \<noteq> [] \<and> (\<exists>a. hq_Diffs q = take catchUpChunkSize (drop a (diffsForHost h s)))) reqs"
  using catchUpLoop_requests [of h "diffsForHost h s" 0 s env] by (simp add: catch_up_requests_def sendCatchUpWith_def)

end
