(* ===== verification/DevshardStorage.thy ===== *)
theory DevshardStorage
  imports UserSession
begin

text \<open>
  The in-memory storage of a devshard node (\<open>devshard/storage/memory.go\<close>), the leases on
  validation work (\<open>leases.go\<close>), the identity of replayed diffs (\<open>diff_identity.go\<close>), and the
  rebuild of the validation counters from the journal (\<open>validation_obs_rebuild.go\<close>). Go maps are
  ordered association lists, so a listing that iterates over a map comes in key order; where the
  code returns a copy the model returns the value.
\<close>

section \<open>Data\<close>

text \<open>
  The sentinel errors of the package, and the plain errors (\<open>fmt.Errorf\<close> with no sentinel) of a
  missing session or diff and of an empty escrow id.
\<close>

datatype storage_error =
    ErrSessionNotFound | ErrSessionEpochConflict | ErrSessionVersionConflict | ErrSessionVersionRequired
  | DiffFork | ErrSnapshotNotFound | ErrEscrowCacheNotFound | ErrLeaseNotOwned
  | SessionMissing | DiffMissing | EmptyEscrowID

text \<open>A stored diff: the record with the signatures collected for it.\<close>

record SignedRecord = DiffRecord +
  dr_Signatures :: "(u32, bytes) kv"

record SlotValidationObs =
  so_SlotID :: u32
  so_Required :: u32
  so_Completed :: u32

type_synonym obs_map = "(u64, (u32, SlotValidationObs) kv) kv"

record sessionData =
  sd_escrowID :: string
  sd_epochID :: u64
  sd_version :: string
  sd_creatorAddr :: string
  sd_config :: SessionConfig
  sd_group :: "SlotAssignment list"
  sd_balance :: u64
  sd_diffs :: "SignedRecord list"
  sd_nonceToIndex :: "(u64, nat) kv"
  sd_lastFinalized :: u64
  sd_status :: string
  sd_snapshot :: "(u64 \<times> bytes) option"
  sd_inferences :: "(u64, InferenceRow) kv"
  sd_liveObs :: obs_map
  sd_sealedObs :: obs_map

datatype LeaseStatus = LeaseStatusPending | LeaseStatusSubmitted | LeaseStatusSkipped

text \<open>A lease with the time it was claimed, in nanoseconds.\<close>

record memoryLease =
  ml_epochID :: u64
  ml_instanceAddr :: string
  ml_claimedAt :: int
  ml_status :: LeaseStatus

record EscrowCacheInfo =
  ec_EscrowID :: string
  ec_Amount :: u64
  ec_CreatorAddress :: string
  ec_AppHash :: bytes
  ec_Slots :: "string list"
  ec_TokenPrice :: u64
  ec_CreateDevshardFee :: u64
  ec_FeePerNonce :: u64
  ec_InferenceSealGraceNonces :: u32
  ec_InferenceSealGraceSeconds :: u32
  ec_AutoSealEveryNNonces :: u32
  ec_ValidationRate :: u32
  ec_VoteThresholdFactor :: u32
  ec_EpochID :: u64

record Memory =
  mm_sessions :: "(string, sessionData) kv"
  mm_leases :: "(string, (u64, memoryLease) kv) kv"
  mm_escrowCache :: "(string, EscrowCacheInfo) kv"

type_synonym 'a st_res = "(storage_error + 'a) \<times> Memory"

definition NewMemory :: Memory where
  "NewMemory = \<lparr>mm_sessions = [], mm_leases = [], mm_escrowCache = []\<rparr>"

record CreateSessionParams =
  cp_EscrowID :: string
  cp_EpochID :: u64
  cp_Version :: string
  cp_CreatorAddr :: string
  cp_Config :: SessionConfig
  cp_Group :: "SlotAssignment list"
  cp_InitialBalance :: u64

section \<open>Sessions\<close>

definition requireSessionVersion :: "string \<Rightarrow> storage_error + string" where
  "requireSessionVersion version = (if TrimSpace version = [] then Inl ErrSessionVersionRequired else Inr version)"

definition Memory_CreateSession :: "CreateSessionParams \<Rightarrow> Memory \<Rightarrow> unit st_res" where
  "Memory_CreateSession params m =
     (let config = NormalizeSessionConfig (cp_Config params) (length (cp_Group params)) in
      case requireSessionVersion (cp_Version params) of
        Inl e \<Rightarrow> (Inl e, m)
      | Inr requested \<Rightarrow>
         (case kv_get (mm_sessions m) (cp_EscrowID params) of
            Some existing \<Rightarrow>
              if sd_epochID existing \<noteq> cp_EpochID params then (Inl ErrSessionEpochConflict, m)
              else if sd_version existing \<noteq> requested then (Inl ErrSessionVersionConflict, m)
              else (Inr (), m)
          | None \<Rightarrow>
              (Inr (), m\<lparr>mm_sessions := kv_set (cp_EscrowID params)
                 \<lparr>sd_escrowID = cp_EscrowID params, sd_epochID = cp_EpochID params, sd_version = requested, sd_creatorAddr = cp_CreatorAddr params,
                  sd_config = config, sd_group = cp_Group params, sd_balance = cp_InitialBalance params,
                  sd_diffs = [], sd_nonceToIndex = [], sd_lastFinalized = 0, sd_status = ''active'',
                  sd_snapshot = None, sd_inferences = [], sd_liveObs = [], sd_sealedObs = []\<rparr> (mm_sessions m)\<rparr>)))"

text \<open>The lookup every operation on a session starts with, and the update of the session found.\<close>

definition onSession ::
  "string \<Rightarrow> (sessionData \<Rightarrow> (storage_error + 'a) \<times> sessionData) \<Rightarrow> Memory \<Rightarrow> 'a st_res" where
  "onSession escrowID f m =
     (case kv_get (mm_sessions m) escrowID of
        None \<Rightarrow> (Inl SessionMissing, m)
      | Some s \<Rightarrow> (case f s of (r, s') \<Rightarrow> (r, m\<lparr>mm_sessions := kv_set escrowID s' (mm_sessions m)\<rparr>)))"

definition Memory_MarkSettled :: "string \<Rightarrow> Memory \<Rightarrow> unit st_res" where
  "Memory_MarkSettled escrowID = onSession escrowID (\<lambda>s. (Inr (), s\<lparr>sd_status := ''settled''\<rparr>))"

definition Memory_ListActiveSessions :: "Memory \<Rightarrow> (string \<times> u64) list" where
  "Memory_ListActiveSessions m =
     map (\<lambda>(i, s). (i, sd_epochID s)) (filter (\<lambda>(i, s). sd_status s = ''active'') (mm_sessions m))"

definition equalWarmKeyDelta :: "(u32, string) kv \<Rightarrow> (u32, string) kv \<Rightarrow> bool" where
  "equalWarmKeyDelta a b \<longleftrightarrow>
     length a = length b \<and> list_all (\<lambda>(k, av). (case kv_get b k of None \<Rightarrow> [] | Some v \<Rightarrow> v) = av) a"

text \<open>\<open>proto.Equal\<close> is not code of the repository: it is the parameter \<open>protoEqual\<close>.\<close>

definition equalTxs :: "(DevshardTx \<Rightarrow> DevshardTx \<Rightarrow> bool) \<Rightarrow> DevshardTx list \<Rightarrow> DevshardTx list \<Rightarrow> bool" where
  "equalTxs protoEqual a b \<longleftrightarrow> list_all2 protoEqual a b"

definition checkDiffReplayIdentity ::
  "(DevshardTx \<Rightarrow> DevshardTx \<Rightarrow> bool) \<Rightarrow> 'z DiffRecord_scheme \<Rightarrow> 'y DiffRecord_scheme \<Rightarrow> storage_error + unit" where
  "checkDiffReplayIdentity protoEqual want have1 =
     (if d_Nonce (dr_Diff want) \<noteq> d_Nonce (dr_Diff have1)
         \<or> d_UserSig (dr_Diff want) \<noteq> d_UserSig (dr_Diff have1)
         \<or> d_PostStateRoot (dr_Diff want) \<noteq> d_PostStateRoot (dr_Diff have1)
         \<or> dr_StateHash want \<noteq> dr_StateHash have1
         \<or> \<not> equalWarmKeyDelta (dr_WarmKeyDelta want) (dr_WarmKeyDelta have1)
         \<or> \<not> equalTxs protoEqual (d_Txs (dr_Diff want)) (d_Txs (dr_Diff have1))
      then Inl DiffFork else Inr ())"

definition Memory_AppendDiff ::
  "(DevshardTx \<Rightarrow> DevshardTx \<Rightarrow> bool) \<Rightarrow> string \<Rightarrow> SignedRecord \<Rightarrow> Memory \<Rightarrow> unit st_res" where
  "Memory_AppendDiff protoEqual escrowID rec =
     onSession escrowID (\<lambda>s.
       case kv_get (sd_nonceToIndex s) (d_Nonce (dr_Diff rec)) of
         Some idx \<Rightarrow>
           let existing = sd_diffs s ! idx
           in (case checkDiffReplayIdentity protoEqual rec existing of
                 Inl e \<Rightarrow> (Inl e, s)
               | Inr _ \<Rightarrow>
                  (Inr (), s\<lparr>sd_diffs := (sd_diffs s)[idx := existing\<lparr>dr_Signatures :=
                     foldl (\<lambda>sigs (slotID, sig). kv_set slotID sig sigs) (dr_Signatures existing) (dr_Signatures rec)\<rparr>]\<rparr>))
       | None \<Rightarrow>
           (Inr (), s\<lparr>sd_diffs := sd_diffs s @ [rec],
                      sd_nonceToIndex := kv_set (d_Nonce (dr_Diff rec)) (length (sd_diffs s)) (sd_nonceToIndex s)\<rparr>))"

fun Memory_AppendDiffs ::
  "(DevshardTx \<Rightarrow> DevshardTx \<Rightarrow> bool) \<Rightarrow> string \<Rightarrow> SignedRecord list \<Rightarrow> Memory \<Rightarrow> unit st_res" where
  "Memory_AppendDiffs protoEqual escrowID [] m = (Inr (), m)"
| "Memory_AppendDiffs protoEqual escrowID (rec # recs) m =
     (case Memory_AppendDiff protoEqual escrowID rec m of
        (Inl e, m1) \<Rightarrow> (Inl e, m1)
      | (Inr _, m1) \<Rightarrow> Memory_AppendDiffs protoEqual escrowID recs m1)"

definition Memory_GetDiffs :: "string \<Rightarrow> u64 \<Rightarrow> u64 \<Rightarrow> Memory \<Rightarrow> storage_error + SignedRecord list" where
  "Memory_GetDiffs escrowID fromNonce toNonce m =
     (case kv_get (mm_sessions m) escrowID of
        None \<Rightarrow> Inl SessionMissing
      | Some s \<Rightarrow>
         Inr (filter (\<lambda>d. \<not> (d_Nonce (dr_Diff d) < fromNonce \<or> d_Nonce (dr_Diff d) > toNonce)) (sd_diffs s)))"

record SessionMeta =
  me_EscrowID :: string
  me_EpochID :: u64
  me_Version :: string
  me_CreatorAddr :: string
  me_Config :: SessionConfig
  me_Group :: "SlotAssignment list"
  me_InitialBalance :: u64
  me_LatestNonce :: u64
  me_LastFinalized :: u64
  me_Status :: string

definition finalizeSessionMeta :: "SessionMeta \<Rightarrow> storage_error + unit" where
  "finalizeSessionMeta meta = (if TrimSpace (me_Version meta) = [] then Inl ErrSessionVersionRequired else Inr ())"

definition Memory_GetSessionMeta :: "string \<Rightarrow> Memory \<Rightarrow> storage_error + SessionMeta" where
  "Memory_GetSessionMeta escrowID m =
     (case kv_get (mm_sessions m) escrowID of
        None \<Rightarrow> Inl ErrSessionNotFound
      | Some s \<Rightarrow>
         let meta = \<lparr>me_EscrowID = sd_escrowID s, me_EpochID = sd_epochID s, me_Version = sd_version s,
                me_CreatorAddr = sd_creatorAddr s, me_Config = sd_config s, me_Group = sd_group s,
                me_InitialBalance = sd_balance s,
                me_LatestNonce = (if sd_diffs s = [] then 0 else d_Nonce (dr_Diff (last (sd_diffs s)))),
                me_LastFinalized = sd_lastFinalized s, me_Status = sd_status s\<rparr>
         in bindE (finalizeSessionMeta meta) (\<lambda>_. Inr meta))"

section \<open>Signatures and finality\<close>

definition Memory_AddSignature :: "string \<Rightarrow> u64 \<Rightarrow> u32 \<Rightarrow> bytes \<Rightarrow> Memory \<Rightarrow> unit st_res" where
  "Memory_AddSignature escrowID nonce slotID sig =
     onSession escrowID (\<lambda>s.
       case kv_get (sd_nonceToIndex s) nonce of
         None \<Rightarrow> (Inl DiffMissing, s)
       | Some idx \<Rightarrow>
           let d = sd_diffs s ! idx
           in (Inr (), s\<lparr>sd_diffs := (sd_diffs s)[idx := d\<lparr>dr_Signatures := kv_set slotID sig (dr_Signatures d)\<rparr>]\<rparr>))"

definition Memory_GetSignatures :: "string \<Rightarrow> u64 \<Rightarrow> Memory \<Rightarrow> storage_error + (u32, bytes) kv" where
  "Memory_GetSignatures escrowID nonce m =
     (case kv_get (mm_sessions m) escrowID of
        None \<Rightarrow> Inl SessionMissing
      | Some s \<Rightarrow>
         (case kv_get (sd_nonceToIndex s) nonce of
            None \<Rightarrow> Inl DiffMissing
          | Some idx \<Rightarrow> Inr (dr_Signatures (sd_diffs s ! idx))))"

definition Memory_MarkFinalized :: "string \<Rightarrow> u64 \<Rightarrow> Memory \<Rightarrow> unit st_res" where
  "Memory_MarkFinalized escrowID nonce =
     onSession escrowID (\<lambda>s. (Inr (), if nonce > sd_lastFinalized s then s\<lparr>sd_lastFinalized := nonce\<rparr> else s))"

definition Memory_LastFinalized :: "string \<Rightarrow> Memory \<Rightarrow> storage_error + u64" where
  "Memory_LastFinalized escrowID m =
     (case kv_get (mm_sessions m) escrowID of None \<Rightarrow> Inl SessionMissing | Some s \<Rightarrow> Inr (sd_lastFinalized s))"

definition Memory_SaveSnapshot :: "string \<Rightarrow> u64 \<Rightarrow> bytes \<Rightarrow> Memory \<Rightarrow> unit st_res" where
  "Memory_SaveSnapshot escrowID nonce data =
     onSession escrowID (\<lambda>s. (Inr (),
       case sd_snapshot s of
         Some (n, _) \<Rightarrow> if nonce < n then s else s\<lparr>sd_snapshot := Some (nonce, data)\<rparr>
       | None \<Rightarrow> s\<lparr>sd_snapshot := Some (nonce, data)\<rparr>))"

definition Memory_LoadSnapshot :: "string \<Rightarrow> Memory \<Rightarrow> storage_error + u64 \<times> bytes" where
  "Memory_LoadSnapshot escrowID m =
     (case kv_get (mm_sessions m) escrowID of
        None \<Rightarrow> Inl ErrSnapshotNotFound
      | Some s \<Rightarrow> (case sd_snapshot s of None \<Rightarrow> Inl ErrSnapshotNotFound | Some p \<Rightarrow> Inr p))"

section \<open>Sealed inferences and validation counters\<close>

definition Memory_InsertSealedInference :: "string \<Rightarrow> InferenceRow \<Rightarrow> Memory \<Rightarrow> unit st_res" where
  "Memory_InsertSealedInference escrowID row =
     onSession escrowID (\<lambda>s. (Inr (), s\<lparr>sd_inferences := kv_set (row_InferenceID row) row (sd_inferences s)\<rparr>))"

definition Memory_GetSealedInference :: "string \<Rightarrow> u64 \<Rightarrow> Memory \<Rightarrow> storage_error + InferenceRow option" where
  "Memory_GetSealedInference escrowID inferenceID m =
     (case kv_get (mm_sessions m) escrowID of
        None \<Rightarrow> Inl SessionMissing
      | Some s \<Rightarrow> Inr (kv_get (sd_inferences s) inferenceID))"

definition Memory_DeleteSealedInferences :: "string \<Rightarrow> Memory \<Rightarrow> unit st_res" where
  "Memory_DeleteSealedInferences escrowID = onSession escrowID (\<lambda>s. (Inr (), s\<lparr>sd_inferences := []\<rparr>))"

definition Memory_ClearValidationObs :: "string \<Rightarrow> Memory \<Rightarrow> unit st_res" where
  "Memory_ClearValidationObs escrowID =
     onSession escrowID (\<lambda>s. (Inr (), s\<lparr>sd_liveObs := [], sd_sealedObs := []\<rparr>))"

definition obs_row :: "obs_map \<Rightarrow> u64 \<Rightarrow> (u32, SlotValidationObs) kv" where
  "obs_row obs i = (case kv_get obs i of None \<Rightarrow> [] | Some r \<Rightarrow> r)"

definition recordValidationAppliedOnceLockedSession :: "u64 \<Rightarrow> u32 \<Rightarrow> sessionData \<Rightarrow> sessionData" where
  "recordValidationAppliedOnceLockedSession inferenceID slotID s =
     (let bySlot = obs_row (sd_liveObs s) inferenceID
      in s\<lparr>sd_liveObs := kv_set inferenceID
            (if kv_get bySlot slotID \<noteq> None then bySlot
             else kv_set slotID \<lparr>so_SlotID = slotID, so_Required = 1, so_Completed = 1\<rparr> bySlot) (sd_liveObs s)\<rparr>)"

definition Memory_RecordValidationsAppliedOnce :: "string \<Rightarrow> (u64 \<times> u32) list \<Rightarrow> Memory \<Rightarrow> unit st_res" where
  "Memory_RecordValidationsAppliedOnce escrowID entries m =
     (if entries = [] then (Inr (), m)
      else onSession escrowID
        (\<lambda>s. (Inr (), foldl (\<lambda>s (i, slot). recordValidationAppliedOnceLockedSession i slot s) s entries)) m)"

text \<open>Adding a row to the counters of its slot, as the drain and the aggregation do (\<open>uint32\<close> sums wrap).\<close>

definition addObs :: "(u32, SlotValidationObs) kv \<Rightarrow> u32 \<Rightarrow> SlotValidationObs \<Rightarrow> (u32, SlotValidationObs) kv" where
  "addObs bySlot slotID obs =
     (let cur = (case kv_get bySlot slotID of
                   None \<Rightarrow> \<lparr>so_SlotID = 0, so_Required = 0, so_Completed = 0\<rparr>
                 | Some cur \<Rightarrow> cur)
      in kv_set slotID \<lparr>so_SlotID = slotID, so_Required = so_Required cur + so_Required obs,
           so_Completed = so_Completed cur + so_Completed obs\<rparr> bySlot)"

definition Memory_DrainInferenceValidationObs :: "string \<Rightarrow> u64 \<Rightarrow> Memory \<Rightarrow> unit st_res" where
  "Memory_DrainInferenceValidationObs escrowID inferenceID =
     onSession escrowID (\<lambda>s.
       let bySlot = obs_row (sd_liveObs s) inferenceID
       in (Inr (),
           if bySlot = [] then s
           else s\<lparr>sd_sealedObs := kv_set inferenceID 
                    (foldl (\<lambda>sealed (slotID, obs). addObs sealed slotID obs) (obs_row (sd_sealedObs s) inferenceID) bySlot)

                    (sd_sealedObs s),
                  sd_liveObs := kv_del inferenceID (sd_liveObs s)\<rparr>))"

definition flattenInferenceValidationObs :: "obs_map \<Rightarrow> SlotValidationObs list" where
  "flattenInferenceValidationObs src = concat (map (\<lambda>(_, bySlot). map snd bySlot) src)"

definition mergeValidationObsBySlot :: "SlotValidationObs list list \<Rightarrow> SlotValidationObs list" where
  "mergeValidationObsBySlot rowLists =
     map snd (foldl (\<lambda>bySlot row. addObs bySlot (so_SlotID row) row) [] (concat rowLists))"

definition Memory_GetValidationObservability :: "string \<Rightarrow> Memory \<Rightarrow> storage_error + SlotValidationObs list" where
  "Memory_GetValidationObservability escrowID m =
     (case kv_get (mm_sessions m) escrowID of
        None \<Rightarrow> Inl SessionMissing
      | Some s \<Rightarrow> Inr (mergeValidationObsBySlot
          [flattenInferenceValidationObs (sd_liveObs s), flattenInferenceValidationObs (sd_sealedObs s)]))"

record ValidationObsRow =
  vr_InferenceID :: u64
  vr_SlotID :: u32
  vr_Required :: u32
  vr_Completed :: u32

definition putObsRows :: "ValidationObsRow list \<Rightarrow> obs_map" where
  "putObsRows rows =
     foldl (\<lambda>dst r. kv_set (vr_InferenceID r)
        (kv_set (vr_SlotID r) \<lparr>so_SlotID = vr_SlotID r, so_Required = vr_Required r, so_Completed = vr_Completed r\<rparr>
           (obs_row dst (vr_InferenceID r))) dst) [] rows"

definition Memory_ImportValidationObs ::
  "string \<Rightarrow> ValidationObsRow list \<Rightarrow> ValidationObsRow list \<Rightarrow> Memory \<Rightarrow> unit st_res" where
  "Memory_ImportValidationObs escrowID live sealed =
     onSession escrowID (\<lambda>s. (Inr (), s\<lparr>sd_liveObs := putObsRows live, sd_sealedObs := putObsRows sealed\<rparr>))"

fun obs_entry :: "DevshardTx \<Rightarrow> (u64 \<times> u32) option" where
  "obs_entry (TxValidation m) = Some (va_InferenceId m, va_ValidatorSlot m)"
| "obs_entry (TxValidationVote m) = Some (vv_InferenceId m, vv_VoterSlot m)"
| "obs_entry _ = None"

definition ValidationObsEntriesFromTxs :: "DevshardTx list \<Rightarrow> (u64 \<times> u32) list" where
  "ValidationObsEntriesFromTxs txs =
     rev (foldl (\<lambda>entries tx. case obs_entry tx of
            None \<Rightarrow> entries
          | Some e \<Rightarrow> if e \<in> set entries then entries else e # entries) [] txs)"

fun recordAll :: "string \<Rightarrow> 'z DiffRecord_scheme list \<Rightarrow> Memory \<Rightarrow> unit st_res" where
  "recordAll escrowID [] m = (Inr (), m)"
| "recordAll escrowID (rec # recs) m =
     (let entries = ValidationObsEntriesFromTxs (d_Txs (dr_Diff rec)) in
      if entries = [] then recordAll escrowID recs m
      else case Memory_RecordValidationsAppliedOnce escrowID entries m of
             (Inl e, m1) \<Rightarrow> (Inl e, m1)
           | (Inr _, m1) \<Rightarrow> recordAll escrowID recs m1)"

fun drainAll :: "string \<Rightarrow> u64 list \<Rightarrow> Memory \<Rightarrow> unit st_res" where
  "drainAll escrowID [] m = (Inr (), m)"
| "drainAll escrowID (i # ids) m =
     (case Memory_DrainInferenceValidationObs escrowID i m of
        (Inl e, m1) \<Rightarrow> (Inl e, m1)
      | (Inr _, m1) \<Rightarrow> drainAll escrowID ids m1)"

definition SealedInferenceIDsSorted :: "(u64, u64) kv \<Rightarrow> u64 list" where
  "SealedInferenceIDsSorted bySeal = sort (map fst bySeal)"

definition RebuildValidationObsFromDiffs ::
  "string \<Rightarrow> 'z DiffRecord_scheme list \<Rightarrow> u64 list \<Rightarrow> Memory \<Rightarrow> unit st_res" where
  "RebuildValidationObsFromDiffs escrowID records sealedIDs m =
     (case Memory_ClearValidationObs escrowID m of
        (Inl e, m1) \<Rightarrow> (Inl e, m1)
      | (Inr _, m1) \<Rightarrow>
         (case recordAll escrowID records m1 of
            (Inl e, m2) \<Rightarrow> (Inl e, m2)
          | (Inr _, m2) \<Rightarrow> drainAll escrowID (sort sealedIDs) m2))"

section \<open>Leases\<close>

definition leases_of :: "Memory \<Rightarrow> string \<Rightarrow> (u64, memoryLease) kv" where
  "leases_of m escrowID = (case kv_get (mm_leases m) escrowID of None \<Rightarrow> [] | Some l \<Rightarrow> l)"

definition Memory_Acquire :: "int \<Rightarrow> string \<Rightarrow> u64 \<Rightarrow> u64 \<Rightarrow> string \<Rightarrow> Memory \<Rightarrow> bool \<times> Memory" where
  "Memory_Acquire now escrowID inferenceID epochID instanceAddr m =
     (let byInference = leases_of m escrowID in
      if kv_get byInference inferenceID \<noteq> None
      then (False, m\<lparr>mm_leases := kv_set escrowID byInference (mm_leases m)\<rparr>)
      else (True, m\<lparr>mm_leases := kv_set escrowID
             (kv_set inferenceID \<lparr>ml_epochID = epochID, ml_instanceAddr = instanceAddr, ml_claimedAt = now,
                ml_status = LeaseStatusPending\<rparr> byInference) (mm_leases m)\<rparr>))"

text \<open>
  The scan of a Go map stops at the first stale lease; \<open>order\<close> is the order of the scan. The clock
  is read twice, for the cutoff (\<open>now\<close>) and for the new claim (\<open>now'\<close>).
\<close>

definition Memory_AcquireOneStale ::
  "(u64 list \<Rightarrow> u64 list) \<Rightarrow> int \<Rightarrow> int \<Rightarrow> string \<Rightarrow> string \<Rightarrow> int \<Rightarrow> Memory \<Rightarrow> (u64 \<times> u64) \<times> Memory" where
  "Memory_AcquireOneStale order now now' escrowID instanceAddr ttl m =
     (let byInference = leases_of m escrowID;
          stale = (\<lambda>i. case kv_get byInference i of
             None \<Rightarrow> False
           | Some l \<Rightarrow> ml_status l = LeaseStatusPending \<and> ml_claimedAt l < now - ttl)
      in case find stale (order (map fst byInference)) of
           None \<Rightarrow> ((0, 0), m)
         | Some i \<Rightarrow>
            (case kv_get byInference i of
               None \<Rightarrow> ((0, 0), m)
             | Some l \<Rightarrow>
                ((i, ml_epochID l),
                 m\<lparr>mm_leases := kv_set escrowID
                     (kv_set i (l\<lparr>ml_instanceAddr := instanceAddr, ml_claimedAt := now'\<rparr>) byInference) (mm_leases m)\<rparr>)))"

definition Memory_SetResult :: "string \<Rightarrow> u64 \<Rightarrow> LeaseStatus \<Rightarrow> string \<Rightarrow> Memory \<Rightarrow> unit st_res" where
  "Memory_SetResult escrowID inferenceID status instanceAddr m =
     (case kv_get (mm_leases m) escrowID of
        None \<Rightarrow> (Inl ErrLeaseNotOwned, m)
      | Some byInference \<Rightarrow>
         (case kv_get byInference inferenceID of
            None \<Rightarrow> (Inl ErrLeaseNotOwned, m)
          | Some l \<Rightarrow>
             if ml_status l \<noteq> LeaseStatusPending \<or> ml_instanceAddr l \<noteq> instanceAddr then (Inl ErrLeaseNotOwned, m)
             else (Inr (), m\<lparr>mm_leases := kv_set escrowID (kv_set inferenceID (l\<lparr>ml_status := status\<rparr>) byInference)
                              (mm_leases m)\<rparr>)))"

definition Memory_OwnsPendingLease :: "string \<Rightarrow> u64 \<Rightarrow> string \<Rightarrow> Memory \<Rightarrow> bool" where
  "Memory_OwnsPendingLease escrowID inferenceID instanceAddr m =
     (case kv_get (leases_of m escrowID) inferenceID of
        None \<Rightarrow> False
      | Some l \<Rightarrow> ml_status l = LeaseStatusPending \<and> ml_instanceAddr l = instanceAddr)"

definition pruneValidationLeasesBefore :: "u64 \<Rightarrow> Memory \<Rightarrow> Memory" where
  "pruneValidationLeasesBefore cutoff m =
     m\<lparr>mm_leases := filter (\<lambda>(_, l). l \<noteq> []) (map (\<lambda>(i, l). (i, filter (\<lambda>(_, x). \<not> ml_epochID x < cutoff) l)) (mm_leases m))\<rparr>"

section \<open>Pruning and the escrow cache\<close>

definition Memory_PruneEpoch :: "u64 \<Rightarrow> Memory \<Rightarrow> Memory" where
  "Memory_PruneEpoch epochID m =
     (let m1 = pruneValidationLeasesBefore (epochID + 1)
                 (m\<lparr>mm_sessions := filter (\<lambda>(_, s). sd_epochID s \<noteq> epochID) (mm_sessions m)\<rparr>)
      in m1\<lparr>mm_escrowCache := filter (\<lambda>(_, info). ec_EpochID info \<noteq> epochID) (mm_escrowCache m1)\<rparr>)"

definition Memory_pruneBefore :: "u64 \<Rightarrow> Memory \<Rightarrow> Memory" where
  "Memory_pruneBefore cutoff m =
     (let m1 = pruneValidationLeasesBefore cutoff
                 (m\<lparr>mm_sessions := filter (\<lambda>(_, s). \<not> sd_epochID s < cutoff) (mm_sessions m)\<rparr>)
      in m1\<lparr>mm_escrowCache := filter (\<lambda>(_, info). \<not> ec_EpochID info < cutoff) (mm_escrowCache m1)\<rparr>)"

definition Memory_PutEscrowCache :: "EscrowCacheInfo \<Rightarrow> Memory \<Rightarrow> unit st_res" where
  "Memory_PutEscrowCache info m =
     (if ec_EscrowID info = [] then (Inl EmptyEscrowID, m)
      else (Inr (), m\<lparr>mm_escrowCache := kv_set (ec_EscrowID info) info (mm_escrowCache m)\<rparr>))"

definition Memory_GetEscrowCache :: "string \<Rightarrow> Memory \<Rightarrow> storage_error + EscrowCacheInfo" where
  "Memory_GetEscrowCache escrowID m =
     (case kv_get (mm_escrowCache m) escrowID of None \<Rightarrow> Inl ErrEscrowCacheNotFound | Some i \<Rightarrow> Inr i)"

definition Memory_DeleteEscrowCache :: "string \<Rightarrow> Memory \<Rightarrow> Memory" where
  "Memory_DeleteEscrowCache escrowID m = m\<lparr>mm_escrowCache := kv_del escrowID (mm_escrowCache m)\<rparr>"

end
