(* ===== verification/StorageInvariant.thy ===== *)
theory StorageInvariant
  imports DevshardStorage
begin

text \<open>
  The well-formedness of the in-memory storage: the nonce index of a session is exact, map keys
  agree with the rows they hold, and every operation keeps this.
\<close>

abbreviation rec_nonce :: "'z DiffRecord_scheme \<Rightarrow> u64" where
  "rec_nonce r \<equiv> d_Nonce (dr_Diff r)"

section \<open>The invariant\<close>

definition obs_row_ok :: "(u32, SlotValidationObs) kv \<Rightarrow> bool" where
  "obs_row_ok r \<longleftrightarrow> kv_inv r \<and> (\<forall>k ob. kv_get r k = Some ob \<longrightarrow> so_SlotID ob = k)"

definition obs_ok :: "obs_map \<Rightarrow> bool" where
  "obs_ok obs \<longleftrightarrow> kv_inv obs \<and> (\<forall>i r. kv_get obs i = Some r \<longrightarrow> obs_row_ok r)"

definition index_ok :: "sessionData \<Rightarrow> bool" where
  "index_ok s \<longleftrightarrow> kv_inv (sd_nonceToIndex s)
     \<and> (\<forall>n i. kv_get (sd_nonceToIndex s) n = Some i \<longleftrightarrow> i < length (sd_diffs s) \<and> rec_nonce (sd_diffs s ! i) = n)"

definition stored_ok :: "string \<Rightarrow> sessionData \<Rightarrow> bool" where
  "stored_ok e s \<longleftrightarrow> sd_escrowID s = e \<and> TrimSpace (sd_version s) \<noteq> [] \<and> index_ok s
     \<and> kv_inv (sd_inferences s) \<and> (\<forall>i row. kv_get (sd_inferences s) i = Some row \<longrightarrow> row_InferenceID row = i)
     \<and> obs_ok (sd_liveObs s) \<and> obs_ok (sd_sealedObs s)"

definition memory_ok :: "Memory \<Rightarrow> bool" where
  "memory_ok m \<longleftrightarrow> kv_inv (mm_sessions m) \<and> (\<forall>e s. kv_get (mm_sessions m) e = Some s \<longrightarrow> stored_ok e s)
     \<and> kv_inv (mm_leases m) \<and> (\<forall>e l. kv_get (mm_leases m) e = Some l \<longrightarrow> kv_inv l)
     \<and> kv_inv (mm_escrowCache m) \<and> (\<forall>e c. kv_get (mm_escrowCache m) e = Some c \<longrightarrow> ec_EscrowID c = e)"

lemma memory_ok_stored: "memory_ok m \<Longrightarrow> kv_get (mm_sessions m) e = Some s \<Longrightarrow> stored_ok e s"
  by (simp add: memory_ok_def)

lemma index_distinct: "index_ok s \<Longrightarrow> distinct (map rec_nonce (sd_diffs s))"
  unfolding index_ok_def distinct_conv_nth by (metis length_map nth_map option.inject)

lemma index_None: "index_ok s \<Longrightarrow> kv_get (sd_nonceToIndex s) n = None \<longleftrightarrow> n \<notin> rec_nonce ` set (sd_diffs s)"
proof -
  assume s: "index_ok s"
  have "(\<exists>i. kv_get (sd_nonceToIndex s) n = Some i) \<longleftrightarrow> (\<exists>i < length (sd_diffs s). rec_nonce (sd_diffs s ! i) = n)"
    using s unfolding index_ok_def by blast
  also have "\<dots> \<longleftrightarrow> n \<in> rec_nonce ` set (sd_diffs s)"
    by (simp add: set_conv_nth image_Collect) blast
  finally show ?thesis by (cases "kv_get (sd_nonceToIndex s) n") auto
qed

lemma kv_inv_filter: "kv_inv m \<Longrightarrow> kv_inv (filter P m)"
  unfolding kv_inv_def by (induction m) auto

lemma kv_get_filter: "kv_inv m \<Longrightarrow> kv_get (filter P m) k = Some v \<longleftrightarrow> kv_get m k = Some v \<and> P (k, v)"
  by (simp add: kv_get_in kv_inv_filter)

lemma kv_inv_map: "kv_inv m \<Longrightarrow> kv_inv (map (\<lambda>(k, v). (k, f v)) m)"
proof -
  have "map fst (map (\<lambda>(k, v). (k, f v)) m) = map fst m" by (induction m) auto
  then show "kv_inv m \<Longrightarrow> ?thesis" by (simp only: kv_inv_def)
qed

lemma kv_get_map: "kv_get (map (\<lambda>(k, v). (k, f v)) m) k = map_option f (kv_get m k)"
  by (induction m) auto

lemma obs_row_ok_Nil [simp]: "obs_row_ok []"
  by (simp add: obs_row_ok_def)

lemma obs_row_ok_set: "obs_row_ok r \<Longrightarrow> so_SlotID ob = k \<Longrightarrow> obs_row_ok (kv_set k ob r)"
  by (auto simp: obs_row_ok_def)

lemma obs_row_ok_add: "obs_row_ok r \<Longrightarrow> obs_row_ok (addObs r k ob)"
  by (simp add: addObs_def Let_def obs_row_ok_set)

lemma obs_row_ok_adds: "obs_row_ok r \<Longrightarrow> obs_row_ok (foldl (\<lambda>r (k, ob). addObs r k ob) r rows)"
  by (induction rows arbitrary: r) (auto simp: obs_row_ok_add)

lemma obs_ok_Nil [simp]: "obs_ok []"
  by (simp add: obs_ok_def)

lemma obs_ok_row: "obs_ok obs \<Longrightarrow> obs_row_ok (obs_row obs i)"
  by (auto simp: obs_ok_def obs_row_def split: option.split)

lemma obs_ok_set: "obs_ok obs \<Longrightarrow> obs_row_ok r \<Longrightarrow> obs_ok (kv_set i r obs)"
  by (auto simp: obs_ok_def)

lemma obs_ok_del: "obs_ok obs \<Longrightarrow> obs_ok (kv_del i obs)"
  by (auto simp: obs_ok_def split: if_splits)

lemma obs_ok_put: "obs_ok (putObsRows rows)"
proof -
  have "obs_ok obs \<Longrightarrow> obs_ok (foldl (\<lambda>dst r. kv_set (vr_InferenceID r)
        (kv_set (vr_SlotID r) \<lparr>so_SlotID = vr_SlotID r, so_Required = vr_Required r, so_Completed = vr_Completed r\<rparr>
           (obs_row dst (vr_InferenceID r))) dst) obs rows)" for obs
    by (induction rows arbitrary: obs) (simp_all add: obs_ok_set obs_row_ok_set obs_ok_row)
  then show ?thesis by (simp add: putObsRows_def)
qed

lemmas obs_intros = obs_ok_set obs_ok_del obs_ok_row obs_row_ok_set obs_row_ok_adds obs_ok_put

section \<open>Operations on one session\<close>

lemma onSession_ok:
  assumes m: "memory_ok m" and f: "\<And>s. stored_ok e s \<Longrightarrow> stored_ok e (snd (f s))"
  shows "memory_ok (snd (onSession e f m))"
proof (cases "kv_get (mm_sessions m) e")
  case None
  with m show ?thesis by (simp add: onSession_def)
next
  case (Some s)
  obtain r s' where fs: "f s = (r, s')" by (cases "f s")
  have "stored_ok e s'" using f [OF memory_ok_stored [OF m Some]] fs by simp
  with m Some fs show ?thesis by (auto simp: onSession_def memory_ok_def)
qed

lemma index_ok_update:
  assumes "index_ok s" and "rec_nonce d = rec_nonce (sd_diffs s ! i)"
  shows "index_ok (s\<lparr>sd_diffs := (sd_diffs s)[i := d]\<rparr>)"
proof -
  have "rec_nonce ((sd_diffs s)[i := d] ! j) = rec_nonce (sd_diffs s ! j)" if "j < length (sd_diffs s)" for j
    using that assms(2) by (cases "i = j") simp_all
  with assms(1) show ?thesis by (auto simp: index_ok_def)
qed

lemma index_ok_append:
  assumes "index_ok s" and "kv_get (sd_nonceToIndex s) (rec_nonce d) = None"
  shows "index_ok (s\<lparr>sd_diffs := sd_diffs s @ [d],
     sd_nonceToIndex := kv_set (rec_nonce d) (length (sd_diffs s)) (sd_nonceToIndex s)\<rparr>)"
proof -
  have "rec_nonce (sd_diffs s ! i) \<noteq> rec_nonce d" if "i < length (sd_diffs s)" for i
    using that index_None [OF assms(1)] assms(2) by (metis image_eqI nth_mem)
  with assms show ?thesis by (auto simp: index_ok_def nth_append less_Suc_eq split: if_splits)
qed

lemma stored_ok_diffs:
  assumes "stored_ok e s" and "index_ok (s\<lparr>sd_diffs := ds, sd_nonceToIndex := ix\<rparr>)"
  shows "stored_ok e (s\<lparr>sd_diffs := ds, sd_nonceToIndex := ix\<rparr>)"
  using assms by (simp add: stored_ok_def)

lemma stored_ok_update:
  assumes "stored_ok e s" and "rec_nonce d = rec_nonce (sd_diffs s ! i)"
  shows "stored_ok e (s\<lparr>sd_diffs := (sd_diffs s)[i := d]\<rparr>)"
  using assms index_ok_update [of s d i] by (simp add: stored_ok_def)

lemma AppendDiff_ok: "memory_ok m \<Longrightarrow> memory_ok (snd (Memory_AppendDiff eq e rec m))"
  unfolding Memory_AppendDiff_def
proof (erule onSession_ok, goal_cases)
  case (1 s)
  show ?case
  proof (cases "kv_get (sd_nonceToIndex s) (rec_nonce rec)")
    case None
    with 1 index_ok_append [OF _ None] show ?thesis by (simp add: stored_ok_def)
  next
    case (Some i)
    with 1 show ?thesis by (simp add: Let_def stored_ok_update split: sum.split)
  qed
qed

lemma AddSignature_ok: "memory_ok m \<Longrightarrow> memory_ok (snd (Memory_AddSignature e n k sig m))"
  unfolding Memory_AddSignature_def
  by (erule onSession_ok) (simp add: Let_def stored_ok_update split: option.split)

lemma simple_ok:
  assumes "memory_ok m"
  shows "memory_ok (snd (Memory_MarkSettled e m))" and "memory_ok (snd (Memory_MarkFinalized e n m))"
    and "memory_ok (snd (Memory_SaveSnapshot e n data m))" and "memory_ok (snd (Memory_InsertSealedInference e row m))"
    and "memory_ok (snd (Memory_DeleteSealedInferences e m))" and "memory_ok (snd (Memory_ClearValidationObs e m))"
    and "memory_ok (snd (Memory_ImportValidationObs e live sealed m))"
  unfolding Memory_MarkSettled_def Memory_MarkFinalized_def Memory_SaveSnapshot_def
    Memory_InsertSealedInference_def Memory_DeleteSealedInferences_def Memory_ClearValidationObs_def
    Memory_ImportValidationObs_def
  by (rule onSession_ok [OF assms], simp add: stored_ok_def index_ok_def obs_ok_put split: option.split)+

lemma recordOne_ok: "stored_ok e s \<Longrightarrow> stored_ok e (recordValidationAppliedOnceLockedSession i k s)"
  by (simp add: recordValidationAppliedOnceLockedSession_def Let_def stored_ok_def index_ok_def obs_intros)

lemma Record_ok: "memory_ok m \<Longrightarrow> memory_ok (snd (Memory_RecordValidationsAppliedOnce e entries m))"
proof -
  have "stored_ok e s \<Longrightarrow>
    stored_ok e (foldl (\<lambda>s (i, k). recordValidationAppliedOnceLockedSession i k s) s entries)" for s
    by (induction entries arbitrary: s) (auto simp: recordOne_ok)
  then show "memory_ok m \<Longrightarrow> ?thesis"
    by (simp add: Memory_RecordValidationsAppliedOnce_def onSession_ok)
qed

lemma Drain_ok: "memory_ok m \<Longrightarrow> memory_ok (snd (Memory_DrainInferenceValidationObs e i m))"
  unfolding Memory_DrainInferenceValidationObs_def
  by (erule onSession_ok) (simp add: Let_def stored_ok_def index_ok_def obs_intros)

lemma CreateSession_ok: "memory_ok m \<Longrightarrow> memory_ok (snd (Memory_CreateSession params m))"
  by (auto simp: Memory_CreateSession_def Let_def requireSessionVersion_def memory_ok_def stored_ok_def
      index_ok_def split: option.split)

section \<open>Leases, pruning and the cache\<close>

lemma leases_of_ok: "memory_ok m \<Longrightarrow> kv_inv (leases_of m e)"
  by (auto simp: memory_ok_def leases_of_def split: option.split)

lemma leases_set_ok: "memory_ok m \<Longrightarrow> kv_inv l \<Longrightarrow> memory_ok (m\<lparr>mm_leases := kv_set e l (mm_leases m)\<rparr>)"
  by (auto simp: memory_ok_def)

lemma leases_ok:
  assumes "memory_ok m"
  shows "memory_ok (snd (Memory_Acquire now e i ep a m))"
    and "memory_ok (snd (Memory_AcquireOneStale order now now' e a ttl m))"
    and "memory_ok (snd (Memory_SetResult e i st a m))"
proof -
  show "memory_ok (snd (Memory_Acquire now e i ep a m))"
    using assms leases_of_ok [OF assms] by (simp add: Memory_Acquire_def Let_def leases_set_ok)
  show "memory_ok (snd (Memory_AcquireOneStale order now now' e a ttl m))"
    using assms leases_of_ok [OF assms]
    by (simp add: Memory_AcquireOneStale_def Let_def leases_set_ok split: option.split)
  show "memory_ok (snd (Memory_SetResult e i st a m))"
    using assms by (auto simp: Memory_SetResult_def leases_set_ok memory_ok_def split: option.split)
qed

lemma pruneLeases_ok: "memory_ok m \<Longrightarrow> memory_ok (pruneValidationLeasesBefore c m)"
  by (auto simp: memory_ok_def pruneValidationLeasesBefore_def kv_inv_filter kv_inv_map kv_get_filter kv_get_map)

lemma prune_ok:
  assumes "memory_ok m"
  shows "memory_ok (Memory_PruneEpoch ep m)" and "memory_ok (Memory_pruneBefore c m)"
proof -
  have s: "memory_ok (m\<lparr>mm_sessions := filter P (mm_sessions m)\<rparr>)" for P
    using assms by (auto simp: memory_ok_def kv_inv_filter kv_get_filter)
  have c: "memory_ok (m1\<lparr>mm_escrowCache := filter P (mm_escrowCache m1)\<rparr>)" if "memory_ok m1" for m1 P
    using that by (auto simp: memory_ok_def kv_inv_filter kv_get_filter)
  show "memory_ok (Memory_PruneEpoch ep m)" "memory_ok (Memory_pruneBefore c m)"
    unfolding Memory_PruneEpoch_def Memory_pruneBefore_def Let_def by (intro c pruneLeases_ok s)+
qed

lemma cache_ok:
  assumes "memory_ok m"
  shows "memory_ok (snd (Memory_PutEscrowCache info m))" and "memory_ok (Memory_DeleteEscrowCache e m)"
  using assms by (auto simp: Memory_PutEscrowCache_def Memory_DeleteEscrowCache_def memory_ok_def)

section \<open>Runs\<close>

text \<open>One operation on the store: \<open>use\<close> keeps every session, \<open>prune\<close> may drop some.\<close>

inductive use_step :: "(DevshardTx \<Rightarrow> DevshardTx \<Rightarrow> bool) \<Rightarrow> Memory \<Rightarrow> Memory \<Rightarrow> bool" for eq where
  create: "use_step eq m (snd (Memory_CreateSession params m))"
| settled: "use_step eq m (snd (Memory_MarkSettled e m))"
| append: "use_step eq m (snd (Memory_AppendDiff eq e rec m))"
| signature: "use_step eq m (snd (Memory_AddSignature e n k sig m))"
| finalized: "use_step eq m (snd (Memory_MarkFinalized e n m))"
| snapshot: "use_step eq m (snd (Memory_SaveSnapshot e n data m))"
| seal: "use_step eq m (snd (Memory_InsertSealedInference e row m))"
| unseal: "use_step eq m (snd (Memory_DeleteSealedInferences e m))"
| clear: "use_step eq m (snd (Memory_ClearValidationObs e m))"
| import_obs: "use_step eq m (snd (Memory_ImportValidationObs e live sealed m))"
| record_obs: "use_step eq m (snd (Memory_RecordValidationsAppliedOnce e entries m))"
| drain: "use_step eq m (snd (Memory_DrainInferenceValidationObs e i m))"
| acquire: "use_step eq m (snd (Memory_Acquire now e i ep a m))"
| stale: "use_step eq m (snd (Memory_AcquireOneStale order now now' e a ttl m))"
| result: "use_step eq m (snd (Memory_SetResult e i st a m))"
| put_cache: "use_step eq m (snd (Memory_PutEscrowCache info m))"
| delete_cache: "use_step eq m (Memory_DeleteEscrowCache e m)"

inductive storage_step :: "(DevshardTx \<Rightarrow> DevshardTx \<Rightarrow> bool) \<Rightarrow> Memory \<Rightarrow> Memory \<Rightarrow> bool" for eq where
  use: "use_step eq m m' \<Longrightarrow> storage_step eq m m'"
| prune_epoch: "storage_step eq m (Memory_PruneEpoch ep m)"
| prune_before: "storage_step eq m (Memory_pruneBefore c m)"

lemma use_step_ok: "use_step eq m m' \<Longrightarrow> memory_ok m \<Longrightarrow> memory_ok m'"
  by (induction rule: use_step.induct)
    (simp_all add: CreateSession_ok simple_ok AppendDiff_ok AddSignature_ok Record_ok Drain_ok leases_ok cache_ok)

lemma storage_step_ok: "storage_step eq m m' \<Longrightarrow> memory_ok m \<Longrightarrow> memory_ok m'"
  by (induction rule: storage_step.induct) (auto simp: use_step_ok prune_ok)

lemma NewMemory_ok: "memory_ok NewMemory"
  by (simp add: NewMemory_def memory_ok_def)

lemma storage_run_ok: "(storage_step eq)\<^sup>*\<^sup>* NewMemory m \<Longrightarrow> memory_ok m"
  by (induction rule: rtranclp_induct) (auto simp: NewMemory_ok storage_step_ok)

end
