(* ===== verification/StorageProperties.thy ===== *)
theory StorageProperties
  imports StorageInvariant
begin

text \<open>
  What the storage promises the node: the journal is read back as it was written and only grows,
  a replayed diff is accepted exactly when it is the stored one, and a validation lease is
  completed once. The locale \<^verbatim>\<open>journal\<close> is the interface of the diff log.
\<close>

section \<open>The journal\<close>

locale journal =
  fixes ok :: "'m \<Rightarrow> bool"
    and entries :: "'m \<Rightarrow> 'r list"
    and nonce :: "'r \<Rightarrow> 'n"
    and append :: "'r \<Rightarrow> 'm \<Rightarrow> ('e + unit) \<times> 'm"
    and appendAll :: "'r list \<Rightarrow> 'm \<Rightarrow> ('e + unit) \<times> 'm"
  assumes append_fresh: "ok m \<Longrightarrow> nonce r \<notin> nonce ` set (entries m) \<Longrightarrow>
      \<exists>m'. append r m = (Inr (), m') \<and> ok m' \<and> entries m' = entries m @ [r]"
    and appendAll_Nil: "appendAll [] m = (Inr (), m)"
    and appendAll_Cons: "append r m = (Inr (), m') \<Longrightarrow> appendAll (r # rs) m = appendAll rs m'"
begin

lemma appendAll_entries:
  assumes "ok m" and "distinct (map nonce rs)" and "nonce ` set (entries m) \<inter> nonce ` set rs = {}"
  shows "\<exists>m'. appendAll rs m = (Inr (), m') \<and> ok m' \<and> entries m' = entries m @ rs"
  using assms
proof (induction rs arbitrary: m)
  case Nil
  then show ?case by (simp add: appendAll_Nil)
next
  case (Cons r rs)
  obtain m1 where m1: "append r m = (Inr (), m1)" "ok m1" "entries m1 = entries m @ [r]"
    using append_fresh [of m r] Cons.prems by auto
  have "\<exists>m'. appendAll rs m1 = (Inr (), m') \<and> ok m' \<and> entries m' = entries m1 @ rs"
    by (rule Cons.IH [OF m1(2)]) (use Cons.prems m1(3) in auto)
  then show ?case using m1 by (simp add: appendAll_Cons)
qed

end

definition holds_session :: "string \<Rightarrow> Memory \<Rightarrow> bool" where
  "holds_session e m \<longleftrightarrow> memory_ok m \<and> kv_get (mm_sessions m) e \<noteq> None"

definition journal_of :: "string \<Rightarrow> Memory \<Rightarrow> SignedRecord list" where
  "journal_of e m = (case kv_get (mm_sessions m) e of None \<Rightarrow> [] | Some s \<Rightarrow> sd_diffs s)"

lemma append_fresh_session:
  assumes "memory_ok m" and s: "kv_get (mm_sessions m) e = Some s" and "rec_nonce r \<notin> rec_nonce ` set (sd_diffs s)"
  shows "Memory_AppendDiff eq e r m = (Inr (), m\<lparr>mm_sessions := kv_set e (s\<lparr>sd_diffs := sd_diffs s @ [r],
    sd_nonceToIndex := kv_set (rec_nonce r) (length (sd_diffs s)) (sd_nonceToIndex s)\<rparr>) (mm_sessions m)\<rparr>)"
proof -
  have "index_ok s" using memory_ok_stored [OF assms(1) s] by (simp add: stored_ok_def)
  then have "kv_get (sd_nonceToIndex s) (rec_nonce r) = None" using assms(3) by (simp add: index_None)
  with s show ?thesis by (simp add: Memory_AppendDiff_def onSession_def)
qed

interpretation mem: journal "holds_session e" "journal_of e" rec_nonce "Memory_AppendDiff eq e" "Memory_AppendDiffs eq e"
  for e eq
proof unfold_locales
  fix m :: Memory and r :: SignedRecord
  assume h: "holds_session e m" and f: "rec_nonce r \<notin> rec_nonce ` set (journal_of e m)"
  obtain s where s: "kv_get (mm_sessions m) e = Some s" using h by (auto simp: holds_session_def)
  have a: "Memory_AppendDiff eq e r m = (Inr (), m\<lparr>mm_sessions := kv_set e (s\<lparr>sd_diffs := sd_diffs s @ [r],
      sd_nonceToIndex := kv_set (rec_nonce r) (length (sd_diffs s)) (sd_nonceToIndex s)\<rparr>) (mm_sessions m)\<rparr>)"
    by (rule append_fresh_session) (use h f s in \<open>simp_all add: holds_session_def journal_of_def\<close>)
  have "memory_ok (snd (Memory_AppendDiff eq e r m))"
    using h by (simp add: holds_session_def AppendDiff_ok)
  with a s show "\<exists>m'. Memory_AppendDiff eq e r m = (Inr (), m') \<and> holds_session e m' \<and> journal_of e m' = journal_of e m @ [r]"
    by (simp add: holds_session_def journal_of_def)
qed simp_all

lemma GetDiffs_journal:
  "kv_get (mm_sessions m) e \<noteq> None \<Longrightarrow>
   Memory_GetDiffs e a b m = Inr (filter (\<lambda>r. a \<le> rec_nonce r \<and> rec_nonce r \<le> b) (journal_of e m))"
  by (auto simp: Memory_GetDiffs_def journal_of_def not_less intro!: filter_cong)

lemma filter_key: "distinct (map f xs) \<Longrightarrow> x \<in> set xs \<Longrightarrow> filter (\<lambda>y. f y = f x) xs = [x]"
proof (induction xs)
  case (Cons y ys)
  show ?case
  proof (cases "y = x")
    case True
    have "filter (\<lambda>z. f z = f x) ys = []"
      using Cons.prems True by (auto simp: filter_empty_conv image_iff)
    with True show ?thesis by simp
  next
    case False
    with Cons.prems have "x \<in> set ys" "f y \<noteq> f x" by (auto simp: image_iff)
    with Cons show ?thesis by simp
  qed
qed simp

lemma GetDiffs_one:
  assumes "memory_ok m" and "kv_get (mm_sessions m) e = Some s" and "r \<in> set (sd_diffs s)"
  shows "Memory_GetDiffs e (rec_nonce r) (rec_nonce r) m = Inr [r]"
proof -
  have "distinct (map rec_nonce (sd_diffs s))"
    using memory_ok_stored [OF assms(1,2)] by (simp add: stored_ok_def index_distinct)
  moreover have "(\<lambda>x. rec_nonce r \<le> rec_nonce x \<and> rec_nonce x \<le> rec_nonce r) = (\<lambda>x :: SignedRecord. rec_nonce x = rec_nonce r)"
    by (auto simp: fun_eq_iff)
  ultimately show ?thesis
    using filter_key [of rec_nonce "sd_diffs s" r] assms by (simp add: GetDiffs_journal journal_of_def)
qed

lemma GetSignatures_one:
  assumes "memory_ok m" and "kv_get (mm_sessions m) e = Some s" and "r \<in> set (sd_diffs s)"
  shows "Memory_GetSignatures e (rec_nonce r) m = Inr (dr_Signatures r)"
proof -
  have ix: "index_ok s" using memory_ok_stored [OF assms(1,2)] by (simp add: stored_ok_def)
  obtain i where i: "i < length (sd_diffs s)" "sd_diffs s ! i = r"
    using assms(3) by (auto simp: in_set_conv_nth)
  then have "kv_get (sd_nonceToIndex s) (rec_nonce r) = Some i" using ix by (auto simp: index_ok_def)
  with i assms(2) show ?thesis by (simp add: Memory_GetSignatures_def)
qed

lemma onSession_frame: "e' \<noteq> e \<Longrightarrow> kv_get (mm_sessions (snd (onSession e f m))) e' = kv_get (mm_sessions m) e'"
  by (simp add: onSession_def split: option.split prod.split)

lemma AppendDiff_frame:
  "e' \<noteq> e \<Longrightarrow> kv_get (mm_sessions (snd (Memory_AppendDiff eq e rec m))) e' = kv_get (mm_sessions m) e'"
  unfolding Memory_AppendDiff_def by (rule onSession_frame)

lemma AppendDiffs_frame:
  "Memory_AppendDiffs eq e recs m = (r, m') \<Longrightarrow> e' \<noteq> e \<Longrightarrow> kv_get (mm_sessions m') e' = kv_get (mm_sessions m) e'"
proof (induction recs arbitrary: m)
  case (Cons rec recs)
  obtain r1 m1 where m1: "Memory_AppendDiff eq e rec m = (r1, m1)" by fastforce
  have "kv_get (mm_sessions m1) e' = kv_get (mm_sessions m) e'"
    using AppendDiff_frame [OF Cons.prems(2), of eq rec m] m1 by simp
  with Cons.prems Cons.IH [of m1] m1 show ?case by (cases r1) auto
qed simp

text \<open>
  C23. In every store built by the operations of the package, a session answers consistently:
  its metadata can be read and carries its own escrow id, the stored nonces are distinct, and
  every stored diff is found by its nonce, alone, with its own signatures.
\<close>

theorem storage_well_formed:
  assumes "(storage_step eq)\<^sup>*\<^sup>* NewMemory m" and "kv_get (mm_sessions m) e = Some s"
  shows "(\<exists>meta. Memory_GetSessionMeta e m = Inr meta \<and> me_EscrowID meta = e)
    \<and> distinct (map rec_nonce (sd_diffs s))
    \<and> (\<forall>r\<in>set (sd_diffs s). Memory_GetDiffs e (rec_nonce r) (rec_nonce r) m = Inr [r]
         \<and> Memory_GetSignatures e (rec_nonce r) m = Inr (dr_Signatures r))"
proof -
  have ok: "memory_ok m" by (rule storage_run_ok [OF assms(1)])
  have s: "stored_ok e s" by (rule memory_ok_stored [OF ok assms(2)])
  have "\<exists>meta. Memory_GetSessionMeta e m = Inr meta \<and> me_EscrowID meta = e"
    using s assms(2) by (simp add: Memory_GetSessionMeta_def finalizeSessionMeta_def stored_ok_def Let_def)
  then show ?thesis
    using s GetDiffs_one [OF ok assms(2)] GetSignatures_one [OF ok assms(2)]
    by (simp add: stored_ok_def index_distinct)
qed

text \<open>A store with one session and one diff, for the examples.\<close>

definition ex_params :: CreateSessionParams where
  "ex_params = \<lparr>cp_EscrowID = ''7'', cp_EpochID = 3, cp_Version = ''v2'', cp_CreatorAddr = ''user'',
     cp_Config = \<lparr>RefusalTimeout = 60, ExecutionTimeout = 1200, TokenPrice = 1, CreateDevshardFee = 0, FeePerNonce = 0,
       VoteThreshold = 1, ValidationRate = 0, InferenceSealGraceNonces = 1, InferenceSealGraceSeconds = 1,
       AutoSealEveryNNonces = 1\<rparr>,
     cp_Group = [\<lparr>SlotID = 0, ValidatorAddress = ''host''\<rparr>], cp_InitialBalance = 100\<rparr>"

definition ex_record :: "u64 \<Rightarrow> bytes \<Rightarrow> SignedRecord" where
  "ex_record n sig = \<lparr>dr_Diff = \<lparr>d_Nonce = n, d_Txs = [], d_UserSig = sig, d_PostStateRoot = [1]\<rparr>, dr_StateHash = [1],
     dr_WarmKeyDelta = [], dr_Signatures = [(0, [5])]\<rparr>"

definition ex_session_data :: "SignedRecord list \<Rightarrow> (u64, nat) kv \<Rightarrow> sessionData" where
  "ex_session_data ds ix = \<lparr>sd_escrowID = ''7'', sd_epochID = 3, sd_version = ''v2'', sd_creatorAddr = ''user'',
     sd_config = NormalizeSessionConfig (cp_Config ex_params) 1, sd_group = cp_Group ex_params, sd_balance = 100,
     sd_diffs = ds, sd_nonceToIndex = ix, sd_lastFinalized = 0, sd_status = ''active'', sd_snapshot = None,
     sd_inferences = [], sd_liveObs = [], sd_sealedObs = []\<rparr>"

definition ex_store :: Memory where
  "ex_store = \<lparr>mm_sessions = [(''7'', ex_session_data [ex_record 1 [9]] [(1, 0)])], mm_leases = [], mm_escrowCache = []\<rparr>"

lemma ex_store_created:
  "Memory_CreateSession ex_params NewMemory =
   (Inr (), \<lparr>mm_sessions = [(''7'', ex_session_data [] [])], mm_leases = [], mm_escrowCache = []\<rparr>)"
proof -
  have "TrimSpace ''v2'' = ''v2''" by code_simp
  then show ?thesis
    by (simp add: Memory_CreateSession_def requireSessionVersion_def NewMemory_def ex_session_data_def ex_params_def)
qed

lemma ex_store_run: "(storage_step (=))\<^sup>*\<^sup>* NewMemory ex_store"
proof -
  let ?m = "\<lparr>mm_sessions = [(''7'', ex_session_data [] [])], mm_leases = [], mm_escrowCache = []\<rparr>"
  have "storage_step (=) NewMemory ?m"
    using storage_step.use [OF use_step.create [of "(=)" NewMemory ex_params]] by (simp add: ex_store_created)
  moreover have "Memory_AppendDiff (=) ''7'' (ex_record 1 [9]) ?m = (Inr (), ex_store)"
    by (simp add: Memory_AppendDiff_def onSession_def ex_session_data_def ex_record_def ex_store_def)
  then have "storage_step (=) ?m ex_store"
    using storage_step.use [OF use_step.append [of "(=)" ?m "''7''" "ex_record 1 [9]"]] by simp
  ultimately show ?thesis by (meson converse_rtranclp_into_rtranclp rtranclp.rtrancl_refl)
qed

lemma ex_store_session: "kv_get (mm_sessions ex_store) ''7'' = Some (ex_session_data [ex_record 1 [9]] [(1, 0)])"
  by (simp add: ex_store_def)

theorem storage_well_formed_witness:
  "Memory_GetDiffs ''7'' 1 1 ex_store = Inr [ex_record 1 [9]] \<and> Memory_GetSignatures ''7'' 1 ex_store = Inr [(0, [5])]"
  using storage_well_formed [OF ex_store_run ex_store_session] by (simp add: ex_session_data_def ex_record_def)

text \<open>
  C24. Diffs appended in a batch are read back as they were written: when their nonces are new
  and distinct, the batch succeeds, the journal read over the whole nonce range is the old one
  followed by the batch, and no other session changes.
\<close>

theorem append_get_roundtrip:
  assumes "(storage_step eq)\<^sup>*\<^sup>* NewMemory m" and "kv_get (mm_sessions m) e = Some s"
    and "distinct (map rec_nonce recs)" and "rec_nonce ` set (sd_diffs s) \<inter> rec_nonce ` set recs = {}"
  shows "\<exists>m'. Memory_AppendDiffs eq e recs m = (Inr (), m')
    \<and> Memory_GetDiffs e 0 (- 1) m' = Inr (sd_diffs s @ recs)
    \<and> (\<forall>r\<in>set recs. Memory_GetSignatures e (rec_nonce r) m' = Inr (dr_Signatures r))
    \<and> (\<forall>e'. e' \<noteq> e \<longrightarrow> kv_get (mm_sessions m') e' = kv_get (mm_sessions m) e')"
proof -
  have h: "holds_session e m" using storage_run_ok [OF assms(1)] assms(2) by (simp add: holds_session_def)
  have j: "journal_of e m = sd_diffs s" using assms(2) by (simp add: journal_of_def)
  obtain m' where m': "Memory_AppendDiffs eq e recs m = (Inr (), m')" "holds_session e m'"
      "journal_of e m' = sd_diffs s @ recs"
    using mem.appendAll_entries [OF h assms(3), of eq] assms(4) j by auto
  then obtain s' where s': "kv_get (mm_sessions m') e = Some s'" by (auto simp: holds_session_def)
  have "Memory_GetDiffs e 0 (- 1) m' = Inr (sd_diffs s @ recs)"
    using m' s' by (simp add: GetDiffs_journal)
  moreover have "\<forall>r\<in>set recs. Memory_GetSignatures e (rec_nonce r) m' = Inr (dr_Signatures r)"
    using GetSignatures_one [OF _ s'] m'(2,3) s' by (simp add: holds_session_def journal_of_def)
  ultimately show ?thesis using m'(1) AppendDiffs_frame [OF m'(1)] by blast
qed

theorem append_get_roundtrip_witness:
  "\<exists>m'. Memory_AppendDiffs (=) ''7'' [ex_record 3 [8], ex_record 2 [7]] ex_store = (Inr (), m')
    \<and> Memory_GetDiffs ''7'' 0 (- 1) m' = Inr [ex_record 1 [9], ex_record 3 [8], ex_record 2 [7]]"
  using append_get_roundtrip [OF ex_store_run ex_store_session, of "[ex_record 3 [8], ex_record 2 [7]]"]
  by (auto simp: ex_session_data_def ex_record_def)

section \<open>Replayed diffs\<close>

text \<open>The documented behaviour of \<open>proto.Equal\<close>: messages are equal when their fields are.\<close>

definition proto_equal :: "(DevshardTx \<Rightarrow> DevshardTx \<Rightarrow> bool) \<Rightarrow> bool" where
  "proto_equal eq \<longleftrightarrow> (\<forall>a b. eq a b \<longleftrightarrow> a = b)"

lemma equalTxs_eq: "proto_equal eq \<Longrightarrow> equalTxs eq a b \<longleftrightarrow> a = b"
proof -
  assume "proto_equal eq"
  then have "eq = (=)" by (simp add: proto_equal_def fun_eq_iff)
  then show ?thesis by (simp add: equalTxs_def list.rel_eq)
qed

lemma equalWarmKeyDelta_eq:
  assumes a: "kv_inv a" and b: "kv_inv b" and ne: "[] \<notin> snd ` set a"
  shows "equalWarmKeyDelta a b \<longleftrightarrow> a = b"
proof
  assume eq: "equalWarmKeyDelta a b"
  have "(k, v) \<in> set b" if "(k, v) \<in> set a" for k v
  proof -
    from that ne have "v \<noteq> []" by force
    with eq that have "kv_get b k = Some v"
      by (auto simp: equalWarmKeyDelta_def list_all_iff split: option.splits)
    with b show ?thesis by (simp add: kv_get_in)
  qed
  then have sub: "set a \<subseteq> set b" by auto
  have d: "distinct a" "distinct b" using kv_inv_distinct [OF a] kv_inv_distinct [OF b] by (auto simp: distinct_map)
  have "card (set a) = card (set b)" using eq d by (simp add: equalWarmKeyDelta_def distinct_card)
  with sub have "set a = set b" by (simp add: card_subset_eq)
  then show "a = b" using a b
    by (intro map_sorted_distinct_set_unique [of fst])
      (auto simp: kv_inv_def strict_sorted_iff distinct_map intro: inj_on_subset)
next
  assume "a = b"
  with b show "equalWarmKeyDelta a b"
    by (auto simp: equalWarmKeyDelta_def list_all_iff kv_inv_distinct)
qed

lemma append_stored:
  assumes ok: "memory_ok m" and s: "kv_get (mm_sessions m) e = Some s"
    and i: "i < length (sd_diffs s)" "rec_nonce r = rec_nonce (sd_diffs s ! i)"
  shows "Memory_AppendDiff eq e r m =
    (case checkDiffReplayIdentity eq r (sd_diffs s ! i) of
       Inl x \<Rightarrow> (Inl x, m)
     | Inr _ \<Rightarrow> (Inr (), m\<lparr>mm_sessions := kv_set e (s\<lparr>sd_diffs := (sd_diffs s)[i := (sd_diffs s ! i)\<lparr>dr_Signatures :=
          foldl (\<lambda>sigs (k, sig). kv_set k sig sigs) (dr_Signatures (sd_diffs s ! i)) (dr_Signatures r)\<rparr>]\<rparr>)
          (mm_sessions m)\<rparr>))"
proof -
  have "index_ok s" using memory_ok_stored [OF ok s] by (simp add: stored_ok_def)
  with i have "kv_get (sd_nonceToIndex s) (rec_nonce r) = Some i" by (simp add: index_ok_def)
  moreover have "kv_set e s (mm_sessions m) = mm_sessions m"
    using ok s by (simp add: memory_ok_def kv_set_same)
  ultimately show ?thesis
    using s by (simp add: Memory_AppendDiff_def onSession_def Let_def split: sum.split)
qed

text \<open>
  When two records at a nonce are the same diff to the store: diff and state hash agree, the deltas have
  the same number of entries, and each entry of the new delta is one of the stored delta, or is
  empty and has a key that the stored delta lacks.
\<close>

definition same_payload :: "'z DiffRecord_scheme \<Rightarrow> 'y DiffRecord_scheme \<Rightarrow> bool" where
  "same_payload r r0 \<longleftrightarrow> dr_Diff r = dr_Diff r0 \<and> dr_StateHash r = dr_StateHash r0
     \<and> length (dr_WarmKeyDelta r) = length (dr_WarmKeyDelta r0)
     \<and> (\<forall>(k, v)\<in>set (dr_WarmKeyDelta r). kv_get (dr_WarmKeyDelta r0) k = Some v
          \<or> v = [] \<and> kv_get (dr_WarmKeyDelta r0) k = None)"

lemma identity_same_payload:
  assumes "proto_equal eq"
  shows "checkDiffReplayIdentity eq r r0 = (if same_payload r r0 then Inr () else Inl DiffFork)"
proof -
  have "equalWarmKeyDelta (dr_WarmKeyDelta r) (dr_WarmKeyDelta r0) \<longleftrightarrow>
      length (dr_WarmKeyDelta r) = length (dr_WarmKeyDelta r0)
      \<and> (\<forall>(k, v)\<in>set (dr_WarmKeyDelta r). kv_get (dr_WarmKeyDelta r0) k = Some v
          \<or> v = [] \<and> kv_get (dr_WarmKeyDelta r0) k = None)"
    by (auto simp: equalWarmKeyDelta_def list_all_iff split: option.split)
      (metis (mono_tags, lifting) case_prodD option.case_eq_if option.collapse)+
  moreover have "dr_Diff r = dr_Diff r0 \<longleftrightarrow> d_Nonce (dr_Diff r) = d_Nonce (dr_Diff r0) \<and> d_Txs (dr_Diff r) = d_Txs (dr_Diff r0)
      \<and> d_UserSig (dr_Diff r) = d_UserSig (dr_Diff r0) \<and> d_PostStateRoot (dr_Diff r) = d_PostStateRoot (dr_Diff r0)"
    by (auto intro: Diff.equality)
  ultimately show ?thesis
    using equalTxs_eq [OF assms] by (auto simp: checkDiffReplayIdentity_def same_payload_def)
qed

lemma same_payload_exact:
  assumes "kv_inv (dr_WarmKeyDelta r)" and "kv_inv (dr_WarmKeyDelta r0)"
  shows "DiffRecord.truncate r = DiffRecord.truncate r0 \<Longrightarrow> same_payload r r0"
    and "[] \<notin> snd ` set (dr_WarmKeyDelta r) \<Longrightarrow> same_payload r r0 \<Longrightarrow> DiffRecord.truncate r = DiffRecord.truncate r0"
proof -
  show "DiffRecord.truncate r = DiffRecord.truncate r0 \<Longrightarrow> same_payload r r0"
    using kv_get_in [OF assms(2)] by (auto simp: same_payload_def DiffRecord.truncate_def)
  assume ne: "[] \<notin> snd ` set (dr_WarmKeyDelta r)" and same: "same_payload r r0"
  have "equalWarmKeyDelta (dr_WarmKeyDelta r) (dr_WarmKeyDelta r0)"
    using same ne by (fastforce simp: same_payload_def equalWarmKeyDelta_def list_all_iff)
  with equalWarmKeyDelta_eq [OF assms ne] same show "DiffRecord.truncate r = DiffRecord.truncate r0"
    by (simp add: same_payload_def DiffRecord.truncate_def)
qed

text \<open>
  C25. A diff appended at a nonce that is already stored is compared with the stored one. What the
  comparison takes for the same diff is accepted: the stored diff keeps its payload and its signatures are
  updated with the new ones. Anything else is refused as a fork and the store does not change. The stored
  payload itself always compares as the same, and it is the only one that does if no value of the
  new warm-key delta is empty; an empty value also matches a key that the stored delta lacks.
\<close>

theorem append_replay:
  assumes "(storage_step eq)\<^sup>*\<^sup>* NewMemory m" and "kv_get (mm_sessions m) e = Some s"
    and "r0 \<in> set (sd_diffs s)" and "rec_nonce r = rec_nonce r0" and "proto_equal eq"
    and "kv_inv (dr_WarmKeyDelta r)" and "kv_inv (dr_WarmKeyDelta r0)"
  shows "(if same_payload r r0
      then \<exists>m'. Memory_AppendDiff eq e r m = (Inr (), m') \<and> Memory_GetDiffs e (rec_nonce r) (rec_nonce r) m' =
        Inr [r0\<lparr>dr_Signatures := foldl (\<lambda>sigs (k, sig). kv_set k sig sigs) (dr_Signatures r0) (dr_Signatures r)\<rparr>]
      else Memory_AppendDiff eq e r m = (Inl DiffFork, m))
    \<and> (DiffRecord.truncate r = DiffRecord.truncate r0 \<longrightarrow> same_payload r r0)
    \<and> ([] \<notin> snd ` set (dr_WarmKeyDelta r) \<longrightarrow> same_payload r r0 \<longrightarrow> DiffRecord.truncate r = DiffRecord.truncate r0)"
proof -
  have ok: "memory_ok m" by (rule storage_run_ok [OF assms(1)])
  obtain i where i: "i < length (sd_diffs s)" "sd_diffs s ! i = r0"
    using assms(3) by (auto simp: in_set_conv_nth)
  let ?r1 = "r0\<lparr>dr_Signatures := foldl (\<lambda>sigs (k, sig). kv_set k sig sigs) (dr_Signatures r0) (dr_Signatures r)\<rparr>"
  note a = append_stored [OF ok assms(2) i(1), of r eq, unfolded i(2) identity_same_payload [OF assms(5)], OF assms(4)]
  have accepted: "\<exists>m'. Memory_AppendDiff eq e r m = (Inr (), m') \<and> Memory_GetDiffs e (rec_nonce r) (rec_nonce r) m' = Inr [?r1]"
    if "same_payload r r0"
  proof -
    let ?s1 = "s\<lparr>sd_diffs := (sd_diffs s)[i := ?r1]\<rparr>"
    let ?m1 = "m\<lparr>mm_sessions := kv_set e ?s1 (mm_sessions m)\<rparr>"
    have m1: "Memory_AppendDiff eq e r m = (Inr (), ?m1)" using a that by simp
    have "memory_ok ?m1" using AppendDiff_ok [OF ok, of eq e r] m1 by simp
    then have "Memory_GetDiffs e (rec_nonce ?r1) (rec_nonce ?r1) ?m1 = Inr [?r1]"
      by (rule GetDiffs_one [where s = ?s1]) (use i(1) in \<open>simp_all add: set_update_memI\<close>)
    with m1 assms(4) show ?thesis by simp
  qed
  have "Memory_AppendDiff eq e r m = (Inl DiffFork, m)" if "\<not> same_payload r r0" using a that by simp
  with accepted same_payload_exact [OF assms(6,7)] show ?thesis by presburger
qed

theorem append_replay_witness:
  "(\<exists>m'. Memory_AppendDiff (=) ''7'' (ex_record 1 [9]) ex_store = (Inr (), m')) \<and>
   Memory_AppendDiff (=) ''7'' (ex_record 1 [8]) ex_store = (Inl DiffFork, ex_store)"
  using append_replay [OF ex_store_run ex_store_session, of "ex_record 1 [9]" "ex_record 1 [9]"]
    append_replay [OF ex_store_run ex_store_session, of "ex_record 1 [9]" "ex_record 1 [8]"]
  by (auto simp: ex_session_data_def ex_record_def proto_equal_def same_payload_def)

text \<open>
  The comparison of warm key deltas reads a missing key as the empty string: two different
  deltas with the same number of entries are equal to it when the values of the first are empty.
\<close>

lemma warm_delta_missing_key: "equalWarmKeyDelta [(1, [])] [(2, ''key'')]"
  by (simp add: equalWarmKeyDelta_def)

section \<open>The journal only grows\<close>

definition snapshot_le :: "(u64 \<times> bytes) option \<Rightarrow> (u64 \<times> bytes) option \<Rightarrow> bool" where
  "snapshot_le x y \<longleftrightarrow>
     (case x of None \<Rightarrow> True | Some (n, _) \<Rightarrow> (case y of None \<Rightarrow> False | Some (n', _) \<Rightarrow> n \<le> n'))"

lemma snapshot_le_refl [simp]: "snapshot_le x x"
  by (simp add: snapshot_le_def split: option.split)

lemma snapshot_le_trans: "snapshot_le x y \<Longrightarrow> snapshot_le y z \<Longrightarrow> snapshot_le x z"
  by (auto simp: snapshot_le_def split: option.splits)

definition extends :: "sessionData \<Rightarrow> sessionData \<Rightarrow> bool" where
  "extends s s' \<longleftrightarrow> sd_epochID s' = sd_epochID s \<and> sd_version s' = sd_version s \<and> sd_creatorAddr s' = sd_creatorAddr s
     \<and> sd_config s' = sd_config s \<and> sd_group s' = sd_group s \<and> sd_balance s' = sd_balance s
     \<and> (\<exists>more. map DiffRecord.truncate (sd_diffs s') = map DiffRecord.truncate (sd_diffs s) @ more)
     \<and> sd_lastFinalized s \<le> sd_lastFinalized s'
     \<and> snapshot_le (sd_snapshot s) (sd_snapshot s')"

lemma extends_refl [simp]: "extends s s"
  by (simp add: extends_def)

lemma extends_trans: "extends s t \<Longrightarrow> extends t u \<Longrightarrow> extends s u"
  unfolding extends_def by (auto intro: order_trans snapshot_le_trans)

definition grows :: "Memory \<Rightarrow> Memory \<Rightarrow> bool" where
  "grows m m' \<longleftrightarrow> (\<forall>e s. kv_get (mm_sessions m) e = Some s \<longrightarrow> (\<exists>s'. kv_get (mm_sessions m') e = Some s' \<and> extends s s'))"

lemma grows_same: "mm_sessions m' = mm_sessions m \<Longrightarrow> grows m m'"
  by (simp add: grows_def)

lemma grows_onSession: "(\<And>s. extends s (snd (f s))) \<Longrightarrow> grows m (snd (onSession e f m))"
proof -
  assume f: "\<And>s. extends s (snd (f s))"
  show ?thesis
  proof (cases "kv_get (mm_sessions m) e")
    case None
    then show ?thesis by (simp add: onSession_def grows_def)
  next
    case (Some s)
    with f [of s] show ?thesis
      by (cases "f s") (auto simp: onSession_def grows_def)
  qed
qed

lemma truncate_signatures: "map DiffRecord.truncate (ds[i := (ds ! i)\<lparr>dr_Signatures := x\<rparr>]) = map DiffRecord.truncate ds"
  by (cases "i < length ds") (simp_all add: map_update list_update_same_conv list_update_beyond DiffRecord.truncate_def)

lemma extends_recordOne: "extends s (recordValidationAppliedOnceLockedSession i k s)"
  by (simp add: recordValidationAppliedOnceLockedSession_def Let_def extends_def)

lemma extends_recordMany:
  "extends s (foldl (\<lambda>s (i, k). recordValidationAppliedOnceLockedSession i k s) s entries)"
proof (induction entries arbitrary: s)
  case (Cons p entries)
  show ?case
    using extends_trans [OF extends_recordOne Cons.IH] by (cases p) simp
qed simp

lemma use_step_grows: "use_step eq m m' \<Longrightarrow> grows m m'"
proof (induction rule: use_step.induct)
  case (create m params)
  then show ?case
    by (simp add: Memory_CreateSession_def Let_def grows_def split: sum.split option.split)
next
  case (append m e rec)
  show ?case
    unfolding Memory_AppendDiff_def
    by (rule grows_onSession)
      (simp add: Let_def extends_def truncate_signatures split: option.split sum.split)
next
  case (signature m e n k sig)
  show ?case
    unfolding Memory_AddSignature_def
    by (rule grows_onSession) (simp add: Let_def extends_def truncate_signatures split: option.split)
next
  case (finalized m e n)
  show ?case
    unfolding Memory_MarkFinalized_def by (rule grows_onSession) (simp add: extends_def less_imp_le)
next
  case (snapshot m e n data)
  show ?case
    unfolding Memory_SaveSnapshot_def
    by (rule grows_onSession) (auto simp: extends_def snapshot_le_def split: option.split)
next
  case (record_obs m e entries)
  show ?case
    by (simp add: Memory_RecordValidationsAppliedOnce_def grows_same grows_onSession extends_recordMany)
next
  case (acquire m now e i ep a)
  show ?case by (simp add: Memory_Acquire_def Let_def grows_same)
next
  case (stale m order now now' e a ttl)
  show ?case by (simp add: Memory_AcquireOneStale_def Let_def grows_same split: option.split)
next
  case (result m e i st a)
  show ?case by (simp add: Memory_SetResult_def grows_same split: option.split)
next
  case (put_cache m info)
  show ?case by (simp add: Memory_PutEscrowCache_def grows_same)
next
  case (delete_cache m e)
  show ?case by (simp add: Memory_DeleteEscrowCache_def grows_same)
qed (simp_all add: Memory_MarkSettled_def
    Memory_InsertSealedInference_def Memory_DeleteSealedInferences_def Memory_ClearValidationObs_def
    Memory_ImportValidationObs_def Memory_DrainInferenceValidationObs_def Let_def extends_def
    grows_onSession split: option.split)

text \<open>
  C26. As long as nothing is pruned, a session stays and its journal only grows: its
  parameters never change, every diff keeps its place and its payload, and the finalized nonce and
  the nonce of the snapshot never go back.
\<close>

theorem journal_append_only:
  assumes "(use_step eq)\<^sup>*\<^sup>* m m'" and "kv_get (mm_sessions m) e = Some s"
  shows "\<exists>s'. kv_get (mm_sessions m') e = Some s' \<and> extends s s'"
  using assms(1)
proof (induction rule: rtranclp_induct)
  case base
  then show ?case using assms(2) by auto
next
  case (step y z)
  then obtain s1 where s1: "kv_get (mm_sessions y) e = Some s1" "extends s s1" by blast
  then obtain s2 where "kv_get (mm_sessions z) e = Some s2" "extends s1 s2"
    using use_step_grows [OF step.hyps(2)] unfolding grows_def by blast
  with s1 show ?case using extends_trans by blast
qed

theorem journal_append_only_witness:
  "\<exists>s'. kv_get (mm_sessions (snd (Memory_MarkFinalized ''7'' 1 ex_store))) ''7'' = Some s'
     \<and> extends (ex_session_data [ex_record 1 [9]] [(1, 0)]) s'"
  using journal_append_only [OF r_into_rtranclp [of "use_step (=)", OF use_step.finalized] ex_store_session] .

section \<open>Leases\<close>

definition lease_at :: "Memory \<Rightarrow> string \<Rightarrow> u64 \<Rightarrow> memoryLease option" where
  "lease_at m e i = kv_get (leases_of m e) i"

text \<open>
  A run of the operations on leases, with the leases completed, in order: a \<open>SetResult\<close> that succeeds
  with a result other than pending. Pruning removes leases, and with them their completions.
  Operations that do not touch the leases may come in between.
\<close>

inductive lease_run :: "Memory \<Rightarrow> (string \<times> u64) list \<Rightarrow> Memory \<Rightarrow> bool" for m0 where
  start: "lease_run m0 [] m0"
| acquire: "lease_run m0 evs m \<Longrightarrow> lease_run m0 evs (snd (Memory_Acquire now e i ep a m))"
| stale: "lease_run m0 evs m \<Longrightarrow> lease_run m0 evs (snd (Memory_AcquireOneStale order now now' e a ttl m))"
| complete: "lease_run m0 evs m \<Longrightarrow> Memory_SetResult e i st a m = (Inr (), m') \<Longrightarrow> st \<noteq> LeaseStatusPending \<Longrightarrow>
    lease_run m0 (evs @ [(e, i)]) m'"
| refused: "lease_run m0 evs m \<Longrightarrow> Memory_SetResult e i st a m = (Inl x, m') \<Longrightarrow> lease_run m0 evs m'"
| rewritten: "lease_run m0 evs m \<Longrightarrow> Memory_SetResult e i LeaseStatusPending a m = (Inr (), m') \<Longrightarrow> lease_run m0 evs m'"
| prune: "lease_run m0 evs m \<Longrightarrow> memory_ok m \<Longrightarrow> m' = pruneValidationLeasesBefore c m \<Longrightarrow>
    lease_run m0 (filter (\<lambda>(e, i). lease_at m' e i \<noteq> None) evs) m'"
| other: "lease_run m0 evs m \<Longrightarrow> mm_leases m' = mm_leases m \<Longrightarrow> lease_run m0 evs m'"

definition completed :: "Memory \<Rightarrow> string \<times> u64 \<Rightarrow> bool" where
  "completed m k = (case lease_at m (fst k) (snd k) of None \<Rightarrow> False | Some l \<Rightarrow> ml_status l \<noteq> LeaseStatusPending)"

lemma lease_at_set:
  "lease_at (m\<lparr>mm_leases := kv_set e l (mm_leases m)\<rparr>) e' i = (if e' = e then kv_get l i else lease_at m e' i)"
  by (simp add: lease_at_def leases_of_def)

lemma lease_at_SetResult:
  "Memory_SetResult e i st a m = (Inr (), m') \<Longrightarrow>
   \<exists>l. lease_at m e i = Some l \<and> ml_status l = LeaseStatusPending \<and> ml_instanceAddr l = a
     \<and> (\<forall>e' i'. lease_at m' e' i' = (if e' = e \<and> i' = i then Some (l\<lparr>ml_status := st\<rparr>) else lease_at m e' i'))"
  by (auto simp: Memory_SetResult_def lease_at_set lease_at_def leases_of_def split: option.splits if_splits)

lemma completed_Acquire: "completed m k \<Longrightarrow> completed (snd (Memory_Acquire now e i ep a m)) k"
  by (auto simp: completed_def Memory_Acquire_def Let_def lease_at_set split: option.splits)
    (simp_all add: lease_at_def)

lemma stale_cases:
  obtains "snd (Memory_AcquireOneStale order now now' e a ttl m) = m"
  | i l where "lease_at m e i = Some l" and "ml_status l = LeaseStatusPending"
      and "snd (Memory_AcquireOneStale order now now' e a ttl m) = m\<lparr>mm_leases := kv_set e
        (kv_set i (l\<lparr>ml_instanceAddr := a, ml_claimedAt := now'\<rparr>) (leases_of m e)) (mm_leases m)\<rparr>"
proof -
  let ?P = "\<lambda>i. case kv_get (leases_of m e) i of None \<Rightarrow> False
    | Some l \<Rightarrow> ml_status l = LeaseStatusPending \<and> ml_claimedAt l < now - ttl"
  show thesis
  proof (cases "find ?P (order (map fst (leases_of m e)))")
    case None
    then show thesis by (intro that(1)) (simp add: Memory_AcquireOneStale_def Let_def)
  next
    case (Some i)
    then have "?P i" by (auto simp: find_Some_iff)
    then obtain l where "kv_get (leases_of m e) i = Some l" "ml_status l = LeaseStatusPending"
      by (auto split: option.splits)
    with Some show thesis by (intro that(2)) (simp_all add: Memory_AcquireOneStale_def Let_def lease_at_def)
  qed
qed

lemma completed_stale: "completed m k \<Longrightarrow> completed (snd (Memory_AcquireOneStale order now now' e a ttl m)) k"
proof (cases rule: stale_cases [of order now now' e a ttl m])
  case (2 i l)
  assume c: "completed m k"
  with 2(1,2) have "k \<noteq> (e, i)" by (auto simp: completed_def)
  then have "lease_at (snd (Memory_AcquireOneStale order now now' e a ttl m)) (fst k) (snd k) = lease_at m (fst k) (snd k)"
    by (auto simp: 2(3) lease_at_set prod_eq_iff) (simp_all add: lease_at_def)
  with c show ?thesis by (simp add: completed_def)
qed simp

lemma completed_leases: "mm_leases m' = mm_leases m \<Longrightarrow> completed m' k = completed m k"
  by (simp add: completed_def lease_at_def leases_of_def)

lemma completed_SetResult:
  assumes "Memory_SetResult e i st a m = (Inr (), m')"
  shows "\<not> completed m (e, i)" and "completed m' k \<longleftrightarrow> (if k = (e, i) then st \<noteq> LeaseStatusPending else completed m k)"
  using lease_at_SetResult [OF assms] by (auto simp: completed_def prod_eq_iff)

text \<open>A lease that survives pruning is as it was.\<close>

lemma prune_lease:
  assumes ok: "memory_ok m" and l: "lease_at (pruneValidationLeasesBefore c m) e i = Some l"
  shows "lease_at m e i = Some l"
proof -
  let ?f = "filter (\<lambda>(_, x). \<not> ml_epochID x < c)"
  have inv: "kv_inv (map (\<lambda>(i, l). (i, ?f l)) (mm_leases m))" using ok by (simp add: memory_ok_def kv_inv_map)
  have "kv_get (mm_leases (pruneValidationLeasesBefore c m)) e \<noteq> None"
    using l by (auto simp: lease_at_def leases_of_def split: option.splits)
  then obtain x where x: "kv_get (mm_leases (pruneValidationLeasesBefore c m)) e = Some x" by blast
  then obtain y where y: "kv_get (mm_leases m) e = Some y" "x = ?f y"
    by (auto simp: pruneValidationLeasesBefore_def kv_get_filter [OF inv] kv_get_map)
  then have "kv_inv y" using ok by (simp add: memory_ok_def)
  with l x y show ?thesis by (simp add: lease_at_def leases_of_def kv_get_filter)
qed

lemma refused_SetResult: "Memory_SetResult e i st a m = (Inl x, m') \<Longrightarrow> m' = m"
  by (auto simp: Memory_SetResult_def split: option.splits if_splits)

lemma lease_run_completed:
  "lease_run m0 evs m \<Longrightarrow> distinct evs \<and> (\<forall>k\<in>set evs. completed m k)"
proof (induction rule: lease_run.induct)
  case (complete evs m e i st a m')
  then show ?case using completed_SetResult [OF complete.hyps(2)] by auto
next
  case (rewritten evs m e i a m')
  then show ?case using completed_SetResult [OF rewritten.hyps(2)] by auto
next
  case (refused evs m e i st a x m')
  then show ?case using refused_SetResult [OF refused.hyps(2)] by simp
next
  case (prune evs m m' c)
  have "completed m' (e, i)" if "completed m (e, i)" "lease_at m' e i \<noteq> None" for e i
    using that prune_lease [OF prune.hyps(2), of c e i] prune.hyps(3) by (auto simp: completed_def)
  with prune.IH show ?case by auto
next
  case (other evs m m')
  then show ?case using completed_leases [OF other.hyps(2)] by simp
qed (simp_all add: completed_Acquire completed_stale)

text \<open>
  C27. A validation lease is completed at most once until it is pruned, whatever the instances do and in
  whatever order stale leases are taken over: in any run of lease operations, pruning included, no lease that
  still exists has been completed twice, and a completed lease is owned by nobody and cannot be
  acquired again.
\<close>

theorem lease_completed_once:
  assumes "lease_run m0 evs m"
  shows "distinct evs \<and> (\<forall>e i. (e, i) \<in> set evs \<longrightarrow>
    (\<forall>a. \<not> Memory_OwnsPendingLease e i a m) \<and> (\<forall>now ep a. fst (Memory_Acquire now e i ep a m) = False))"
  using lease_run_completed [OF assms]
  by (auto simp: completed_def lease_at_def Memory_OwnsPendingLease_def Memory_Acquire_def Let_def split: option.splits)

theorem lease_completed_once_witness:
  "\<exists>m. lease_run NewMemory [(''7'', 4)] m \<and> \<not> Memory_OwnsPendingLease ''7'' 4 ''b'' m"
proof -
  let ?m1 = "snd (Memory_Acquire 0 ''7'' 4 3 ''a'' NewMemory)"
  let ?m2 = "snd (Memory_AcquireOneStale id 100 100 ''7'' ''b'' 10 ?m1)"
  have "Memory_SetResult ''7'' 4 LeaseStatusSubmitted ''b'' ?m2 =
      (Inr (), snd (Memory_SetResult ''7'' 4 LeaseStatusSubmitted ''b'' ?m2))"
    by code_simp
  then have "lease_run NewMemory ([] @ [(''7'', 4)]) (snd (Memory_SetResult ''7'' 4 LeaseStatusSubmitted ''b'' ?m2))"
    by (rule lease_run.complete [OF lease_run.stale [OF lease_run.acquire [OF lease_run.start]]]) simp
  from this lease_completed_once [OF this] show ?thesis by auto
qed

end
