(* ===== verification/StorageCounters.thy ===== *)
theory StorageCounters
  imports StorageProperties
begin

text \<open>
  The validation counters: what \<open>RebuildValidationObsFromDiffs\<close> computes from a journal, and what
  recording a validation after the drain of its inference does.
\<close>

section \<open>Rows\<close>

definition unit_row :: "u32 \<Rightarrow> SlotValidationObs" where
  "unit_row k = \<lparr>so_SlotID = k, so_Required = 1, so_Completed = 1\<rparr>"

definition count_row :: "u32 \<Rightarrow> nat \<Rightarrow> SlotValidationObs" where
  "count_row k c = \<lparr>so_SlotID = k, so_Required = of_nat c, so_Completed = of_nat c\<rparr>"

text \<open>The pairs of inference and slot that the validations and votes of a journal name.\<close>

definition obs_pairs :: "'z DiffRecord_scheme list \<Rightarrow> (u64 \<times> u32) set" where
  "obs_pairs records = set (concat (map (\<lambda>r. List.map_filter obs_entry (d_Txs (dr_Diff r))) records))"

lemma entries_set: "set (ValidationObsEntriesFromTxs txs) = set (List.map_filter obs_entry txs)"
proof -
  have "set (foldl (\<lambda>entries tx. case obs_entry tx of
            None \<Rightarrow> entries
          | Some e \<Rightarrow> if e \<in> set entries then entries else e # entries) acc txs)
        = set acc \<union> set (List.map_filter obs_entry txs)" for acc
    by (induction txs arbitrary: acc) (auto simp: List.map_filter_simps split: option.split)
  then show ?thesis by (simp add: ValidationObsEntriesFromTxs_def)
qed

definition tracks :: "(u64 \<times> u32) set \<Rightarrow> obs_map \<Rightarrow> bool" where
  "tracks E obs \<longleftrightarrow> obs_ok obs \<and> (\<forall>i k. kv_get (obs_row obs i) k = (if (i, k) \<in> E then Some (unit_row k) else None))"

lemma tracks_Nil [simp]: "tracks E [] \<longleftrightarrow> E = {}"
  by (auto simp: tracks_def obs_row_def)

lemma obs_row_set: "obs_row (kv_set i r obs) j = (if j = i then r else obs_row obs j)"
  by (simp add: obs_row_def)

lemma obs_row_del: "obs_row (kv_del i obs) j = (if j = i then [] else obs_row obs j)"
  by (simp add: obs_row_def)

lemma recordOne_tracks:
  assumes "tracks E (sd_liveObs s)"
  shows "tracks (insert (i, k) E) (sd_liveObs (recordValidationAppliedOnceLockedSession i k s))"
proof -
  have "obs_ok (sd_liveObs (recordValidationAppliedOnceLockedSession i k s))"
    using assms by (simp add: tracks_def recordValidationAppliedOnceLockedSession_def Let_def obs_intros)
  with assms show ?thesis
    by (auto simp: tracks_def recordValidationAppliedOnceLockedSession_def Let_def obs_row_set unit_row_def)
qed

lemma recordMany_tracks:
  assumes "tracks E (sd_liveObs s)"
  shows "tracks (E \<union> set entries)
      (sd_liveObs (foldl (\<lambda>s (i, k). recordValidationAppliedOnceLockedSession i k s) s entries))
    \<and> sd_sealedObs (foldl (\<lambda>s (i, k). recordValidationAppliedOnceLockedSession i k s) s entries) = sd_sealedObs s"
  using assms
proof (induction entries arbitrary: s E)
  case (Cons p entries)
  obtain i k where p: "p = (i, k)" by (cases p)
  show ?case
    using Cons.IH [OF recordOne_tracks [OF Cons.prems, of i k]]
    by (simp add: p recordValidationAppliedOnceLockedSession_def Let_def)
qed simp

lemma recordAll_tracks:
  assumes "kv_get (mm_sessions m) e = Some s" and "tracks E (sd_liveObs s)"
  shows "\<exists>m' s'. recordAll e records m = (Inr (), m') \<and> kv_get (mm_sessions m') e = Some s'
    \<and> tracks (E \<union> obs_pairs records) (sd_liveObs s') \<and> sd_sealedObs s' = sd_sealedObs s"
  using assms
proof (induction records arbitrary: m s E)
  case Nil
  then show ?case by (simp add: obs_pairs_def)
next
  case (Cons rec records)
  let ?es = "ValidationObsEntriesFromTxs (d_Txs (dr_Diff rec))"
  have pairs: "obs_pairs (rec # records) = set ?es \<union> obs_pairs records"
    by (simp add: obs_pairs_def entries_set)
  show ?case
  proof (cases "?es = []")
    case True
    then show ?thesis using Cons pairs by simp
  next
    case False
    let ?s = "foldl (\<lambda>s (i, k). recordValidationAppliedOnceLockedSession i k s) s ?es"
    let ?m = "m\<lparr>mm_sessions := kv_set e ?s (mm_sessions m)\<rparr>"
    have "Memory_RecordValidationsAppliedOnce e ?es m = (Inr (), ?m)"
      using False Cons.prems(1) by (simp add: Memory_RecordValidationsAppliedOnce_def onSession_def)
    moreover have "tracks (E \<union> set ?es) (sd_liveObs ?s)" "sd_sealedObs ?s = sd_sealedObs s"
      using recordMany_tracks [OF Cons.prems(2)] by simp_all
    ultimately show ?thesis
      using False Cons.IH [of ?m ?s "E \<union> set ?es"] by (simp add: pairs Un_assoc Let_def)
  qed
qed

lemma kv_empty: "(\<And>k. kv_get m k = None) \<Longrightarrow> m = []"
  by (metis ext map_of_eq_empty_iff)

lemma add_units:
  assumes "distinct (map fst rows)" and "\<forall>(k, ob)\<in>set rows. ob = unit_row k \<and> kv_get r k = None"
  shows "kv_get (foldl (\<lambda>r (k, ob). addObs r k ob) r rows) k = (case kv_get rows k of None \<Rightarrow> kv_get r k | Some ob \<Rightarrow> Some ob)"
  using assms
proof (induction rows arbitrary: r)
  case (Cons p rows)
  obtain k0 where p: "p = (k0, unit_row k0)" "kv_get r k0 = None" using Cons.prems(2) by (cases p) auto
  have add: "addObs r k0 (unit_row k0) = kv_set k0 (unit_row k0) r"
    using p(2) by (simp add: addObs_def unit_row_def)
  have "kv_get rows k0 = None" using Cons.prems(1) p(1) by (simp add: map_of_eq_None_iff)
  moreover have "\<forall>(k, ob)\<in>set rows. ob = unit_row k \<and> kv_get (kv_set k0 (unit_row k0) r) k = None"
  proof (clarify, intro conjI)
    fix k' ob assume in_rows: "(k', ob) \<in> set rows"
    then have "k' \<noteq> k0" using Cons.prems(1) p(1) by force
    with in_rows Cons.prems(2) show "ob = unit_row k'" "kv_get (kv_set k0 (unit_row k0) r) k' = None" by auto
  qed
  ultimately show ?case
    using Cons.IH [of "kv_set k0 (unit_row k0) r"] Cons.prems(1) p(1) add by (auto split: option.split)
qed simp

definition drained :: "(u64 \<times> u32) set \<Rightarrow> u64 set \<Rightarrow> sessionData \<Rightarrow> bool" where
  "drained E D s \<longleftrightarrow> tracks {p \<in> E. fst p \<notin> D} (sd_liveObs s) \<and> tracks {p \<in> E. fst p \<in> D} (sd_sealedObs s)"

lemma drain_drained:
  assumes s: "kv_get (mm_sessions m) e = Some s" and d: "drained E D s"
  shows "\<exists>m' s'. Memory_DrainInferenceValidationObs e i m = (Inr (), m') \<and> kv_get (mm_sessions m') e = Some s'
    \<and> drained E (insert i D) s'"
proof (cases "obs_row (sd_liveObs s) i = []")
  case True
  have "(i, k) \<notin> E \<or> i \<in> D" for k
    using d True unfolding drained_def tracks_def
    by (metis (mono_tags, lifting) fst_conv map_of.simps(1) mem_Collect_eq option.distinct(1))
  then have "{p \<in> E. fst p \<notin> insert i D} = {p \<in> E. fst p \<notin> D}" "{p \<in> E. fst p \<in> insert i D} = {p \<in> E. fst p \<in> D}"
    by force+
  with d have "drained E (insert i D) s" by (simp add: drained_def)
  with True s show ?thesis by (simp add: Memory_DrainInferenceValidationObs_def onSession_def Let_def)
next
  case False
  let ?row = "obs_row (sd_liveObs s) i"
  let ?sealed = "foldl (\<lambda>r (k, ob). addObs r k ob) (obs_row (sd_sealedObs s) i) ?row"
  let ?s = "s\<lparr>sd_sealedObs := kv_set i ?sealed (sd_sealedObs s), sd_liveObs := kv_del i (sd_liveObs s)\<rparr>"
  have ok: "obs_ok (sd_liveObs s)" "obs_ok (sd_sealedObs s)" using d by (simp_all add: drained_def tracks_def)
  have live: "kv_get (obs_row (sd_liveObs s) j) k = (if (j, k) \<in> E \<and> j \<notin> D then Some (unit_row k) else None)" for j k
    using d by (simp add: drained_def tracks_def)
  have sealed: "kv_get (obs_row (sd_sealedObs s) j) k = (if (j, k) \<in> E \<and> j \<in> D then Some (unit_row k) else None)" for j k
    using d by (simp add: drained_def tracks_def)
  have nD: "i \<notin> D"
  proof
    assume "i \<in> D"
    then have "kv_get ?row k = None" for k by (simp add: live)
    from kv_empty [OF this] False show False by simp
  qed
  have inv: "kv_inv ?row" using obs_ok_row [OF ok(1), of i] by (simp add: obs_row_ok_def)
  have row: "kv_get ?sealed k = kv_get ?row k" for k
  proof -
    have "\<forall>(k, ob)\<in>set ?row. ob = unit_row k \<and> kv_get (obs_row (sd_sealedObs s) i) k = None"
      using nD live [of i] sealed [of i] inv by (auto simp: kv_get_in [symmetric] split: if_splits)
    from add_units [OF kv_inv_distinct [OF inv] this] show ?thesis
      using nD by (simp add: sealed split: option.split)
  qed
  have "drained E (insert i D) ?s"
    using ok nD by (auto simp: drained_def tracks_def obs_intros obs_row_set obs_row_del row live sealed)
  with False s show ?thesis by (simp add: Memory_DrainInferenceValidationObs_def onSession_def Let_def)
qed

lemma drainAll_drained:
  assumes "kv_get (mm_sessions m) e = Some s" and "drained E D s"
  shows "\<exists>m' s'. drainAll e ids m = (Inr (), m') \<and> kv_get (mm_sessions m') e = Some s' \<and> drained E (D \<union> set ids) s'"
  using assms
proof (induction ids arbitrary: m s D)
  case (Cons i ids)
  obtain m1 s1 where "Memory_DrainInferenceValidationObs e i m = (Inr (), m1)" "kv_get (mm_sessions m1) e = Some s1"
      "drained E (insert i D) s1"
    using drain_drained [OF Cons.prems] by blast
  with Cons.IH [of m1 s1 "insert i D"] show ?case by simp
qed simp

section \<open>Aggregation\<close>

lemma merge_units:
  assumes "\<forall>ob\<in>set rows. ob = unit_row (so_SlotID ob)"
    and "\<And>k. kv_get r k = (if c k = 0 then None else Some (count_row k (c k)))"
  shows "kv_get (foldl (\<lambda>r ob. addObs r (so_SlotID ob) ob) r rows) k =
    (let n = c k + length (filter (\<lambda>ob. so_SlotID ob = k) rows) in if n = 0 then None else Some (count_row k n))"
  using assms
proof (induction rows arbitrary: r c)
  case (Cons ob rows)
  define k0 where "k0 = so_SlotID ob"
  have ob: "ob = unit_row k0" using Cons.prems(1) by (simp add: k0_def)
  have add: "kv_get (addObs r k0 ob) j =
      (if (c(k0 := Suc (c k0))) j = 0 then None else Some (count_row j ((c(k0 := Suc (c k0))) j)))" for j
    by (simp add: addObs_def Let_def Cons.prems(2) ob unit_row_def count_row_def)
  have "kv_get (foldl (\<lambda>r ob. addObs r (so_SlotID ob) ob) (addObs r k0 ob) rows) k =
      (let n = (c(k0 := Suc (c k0))) k + length (filter (\<lambda>ob. so_SlotID ob = k) rows)
       in if n = 0 then None else Some (count_row k n))"
    by (rule Cons.IH) (use Cons.prems(1) add in simp_all)
  then show ?case by (simp add: k0_def)
qed simp

lemma merge_inv: "kv_inv r \<Longrightarrow> kv_inv (foldl (\<lambda>r ob. addObs r (so_SlotID ob) ob) r rows)"
  by (induction rows arbitrary: r) (simp_all add: addObs_def Let_def)

lemma kv_listing: "kv_inv m \<Longrightarrow> m = map (\<lambda>k. (k, the (kv_get m k))) (sorted_list_of_set (dom (kv_get m)))"
proof -
  assume m: "kv_inv m"
  then have "sorted_list_of_set (dom (kv_get m)) = map fst m"
    by (metis kv_inv_def kv_keys_dom list.set_map sorted_list_of_set.idem_if_sorted_distinct strict_sorted_iff)
  moreover have "map (\<lambda>k. (k, the (kv_get m k))) (map fst m) = m"
    using kv_inv_distinct [OF m] by (auto simp: comp_def intro!: map_idI)
  ultimately show ?thesis by simp
qed

lemma tracks_rows:
  assumes "tracks E obs" and "(i, r) \<in> set obs"
  shows "kv_inv r" and "(k, ob) \<in> set r \<longleftrightarrow> (i, k) \<in> E \<and> ob = unit_row k"
proof -
  have "kv_get obs i = Some r" using assms by (simp add: tracks_def obs_ok_def kv_get_in)
  then have r: "obs_row obs i = r" by (simp add: obs_row_def)
  show inv: "kv_inv r" using assms(1) obs_ok_row [of obs i] r by (simp add: tracks_def obs_row_ok_def)
  have "kv_get r k = (if (i, k) \<in> E then Some (unit_row k) else None)" using assms(1) r by (auto simp: tracks_def)
  then show "(k, ob) \<in> set r \<longleftrightarrow> (i, k) \<in> E \<and> ob = unit_row k" using kv_get_in [OF inv, of k ob] by (auto split: if_splits)
qed

lemma flatten_units: "tracks E obs \<Longrightarrow> ob \<in> set (flattenInferenceValidationObs obs) \<Longrightarrow> ob = unit_row (so_SlotID ob)"
  by (auto simp: flattenInferenceValidationObs_def tracks_rows unit_row_def)

lemma row_count:
  assumes "tracks E obs" and "(i, r) \<in> set obs"
  shows "length (filter (\<lambda>ob. so_SlotID ob = k) (map snd r)) = (if (i, k) \<in> E then 1 else 0)"
proof -
  note r = tracks_rows [OF assms]
  have d: "distinct r" using kv_inv_distinct [OF r(1)] by (simp add: distinct_map)
  have s: "set (filter (\<lambda>p. so_SlotID (snd p) = k) r) = (if (i, k) \<in> E then {(k, unit_row k)} else {})"
    using r(2) by (auto simp: unit_row_def)
  have "length (filter (\<lambda>ob. so_SlotID ob = k) (map snd r)) = length (filter (\<lambda>p. so_SlotID (snd p) = k) r)"
    by (simp add: filter_map comp_def)
  also have "\<dots> = card (set (filter (\<lambda>p. so_SlotID (snd p) = k) r))"
    using distinct_card [OF distinct_filter [OF d]] by (rule sym)
  finally show ?thesis unfolding s by simp
qed

lemma tracks_count:
  assumes t: "tracks E obs"
  shows "length (filter (\<lambda>ob. so_SlotID ob = k) (flattenInferenceValidationObs obs)) = card {i. (i, k) \<in> E}"
    and "finite {i. (i, k) \<in> E}"
proof -
  have inv: "kv_inv obs" using t by (simp add: tracks_def obs_ok_def)
  have "i \<in> fst ` set obs" if "(i, k) \<in> E" for i
  proof -
    have "kv_get (obs_row obs i) k = Some (unit_row k)" using t that by (simp add: tracks_def)
    then have "kv_get obs i \<noteq> None" by (auto simp: obs_row_def split: option.splits)
    then show ?thesis by (simp add: kv_keys_dom domIff)
  qed
  then have keys: "{i. (i, k) \<in> E} = {i \<in> fst ` set obs. (i, k) \<in> E}" by auto
  then show "finite {i. (i, k) \<in> E}" by simp
  have "length (filter (\<lambda>ob. so_SlotID ob = k) (flattenInferenceValidationObs obs)) =
      sum_list (map (\<lambda>(i, r). length (filter (\<lambda>ob. so_SlotID ob = k) (map snd r))) obs)"
    by (simp add: flattenInferenceValidationObs_def filter_concat length_concat comp_def split_def)
  also have "\<dots> = sum_list (map (\<lambda>i. if (i, k) \<in> E then 1 else 0) (map fst obs))"
  proof -
    have "(case p of (i, r) \<Rightarrow> length (filter (\<lambda>ob. so_SlotID ob = k) (map snd r))) = (if (fst p, k) \<in> E then 1 else 0)"
      if "p \<in> set obs" for p
      using row_count [OF t, of "fst p" "snd p" k] that by (simp only: prod.collapse split_def)
    then show ?thesis unfolding map_map comp_def by (intro arg_cong [where f = sum_list] map_cong refl)
  qed
  also have "\<dots> = (\<Sum>i\<in>fst ` set obs. if (i, k) \<in> E then 1 else 0)"
    using sum_list_distinct_conv_sum_set [OF kv_inv_distinct [OF inv]] by (simp only: list.set_map)
  also have "\<dots> = card {i \<in> fst ` set obs. (i, k) \<in> E}" by (simp add: sum.If_cases Int_def)
  finally show "length (filter (\<lambda>ob. so_SlotID ob = k) (flattenInferenceValidationObs obs)) = card {i. (i, k) \<in> E}"
    using keys by simp
qed

lemma drained_count:
  assumes "drained E D s"
  shows "finite {i. (i, k) \<in> E}"
    and "length (filter (\<lambda>ob. so_SlotID ob = k)
      (flattenInferenceValidationObs (sd_liveObs s) @ flattenInferenceValidationObs (sd_sealedObs s))) = card {i. (i, k) \<in> E}"
proof -
  note t = assms [unfolded drained_def]
  have split: "{i. (i, k) \<in> E} = {i. (i, k) \<in> {p \<in> E. fst p \<notin> D}} \<union> {i. (i, k) \<in> {p \<in> E. fst p \<in> D}}" by auto
  note a = tracks_count [OF conjunct1 [OF t], of k] and b = tracks_count [OF conjunct2 [OF t], of k]
  show "finite {i. (i, k) \<in> E}" unfolding split using a(2) b(2) by (rule finite_UnI)
  have "card {i. (i, k) \<in> E} = card {i. (i, k) \<in> {p \<in> E. fst p \<notin> D}} + card {i. (i, k) \<in> {p \<in> E. fst p \<in> D}}"
    unfolding split by (rule card_Un_disjoint [OF a(2) b(2)]) auto
  then show "length (filter (\<lambda>ob. so_SlotID ob = k)
      (flattenInferenceValidationObs (sd_liveObs s) @ flattenInferenceValidationObs (sd_sealedObs s))) = card {i. (i, k) \<in> E}"
    using a(1) b(1) by simp
qed

lemma merge_drained:
  assumes "drained E D s"
  shows "mergeValidationObsBySlot [flattenInferenceValidationObs (sd_liveObs s), flattenInferenceValidationObs (sd_sealedObs s)]
    = map (\<lambda>k. count_row k (card {i. (i, k) \<in> E})) (sorted_list_of_set (snd ` E))"
proof -
  note t = assms [unfolded drained_def]
  let ?rows = "flattenInferenceValidationObs (sd_liveObs s) @ flattenInferenceValidationObs (sd_sealedObs s)"
  let ?m = "foldl (\<lambda>r ob. addObs r (so_SlotID ob) ob) [] ?rows"
  note fin = drained_count(1) [OF assms] and n = drained_count(2) [OF assms]
  have "\<forall>ob\<in>set ?rows. ob = unit_row (so_SlotID ob)" using flatten_units t by auto
  then have "kv_get ?m k = (let c = 0 + length (filter (\<lambda>ob. so_SlotID ob = k) ?rows)
      in if c = 0 then None else Some (count_row k c))" for k
    by (rule merge_units [where c = "\<lambda>_. 0"]) simp
  then have "kv_get ?m k = (if card {i. (i, k) \<in> E} = 0 then None else Some (count_row k (card {i. (i, k) \<in> E})))" for k
    by (simp only: n Let_def add_0)
  moreover have "card {i. (i, k) \<in> E} = 0 \<longleftrightarrow> k \<notin> snd ` E" for k
    using fin [of k] by (auto simp: image_iff)
  ultimately have get: "kv_get ?m k = (if k \<in> snd ` E then Some (count_row k (card {i. (i, k) \<in> E})) else None)" for k
    by (simp only: not_not if_not_P split: if_split) simp
  then have dom: "dom (kv_get ?m) = snd ` E" by (auto simp: dom_def split: if_splits)
  have "map snd ?m = map (\<lambda>k. the (kv_get ?m k)) (sorted_list_of_set (snd ` E))"
    using arg_cong [OF kv_listing [OF merge_inv [of "[]" ?rows]], of "map snd"] unfolding dom by (simp add: comp_def)
  also have "\<dots> = map (\<lambda>k. count_row k (card {i. (i, k) \<in> E})) (sorted_list_of_set (snd ` E))"
  proof (rule map_cong [OF refl])
    fix k assume "k \<in> set (sorted_list_of_set (snd ` E))"
    then have "k \<in> snd ` E" by (metis empty_iff list.set(1) sorted_list_of_set.fold_insort_key.infinite sorted_list_of_set.set_sorted_key_list_of_set)
    with get show "the (kv_get ?m k) = count_row k (card {i. (i, k) \<in> E})" by simp
  qed
  finally show ?thesis by (simp add: mergeValidationObsBySlot_def)
qed

text \<open>
  C28. The rebuild of the validation counters succeeds for every session, and the counters then
  are exact: the slots listed, in order, are those that some validation or vote of the journal names, and
  each is credited with the number of distinct inferences it is named for (as a \<open>uint32\<close>), whichever
  inferences have been sealed and whatever the counters were before.
\<close>

theorem rebuild_counts:
  assumes "kv_get (mm_sessions m) e = Some s"
  shows "\<exists>m'. RebuildValidationObsFromDiffs e records sealedIDs m = (Inr (), m')
    \<and> Memory_GetValidationObservability e m' = Inr (map (\<lambda>k. count_row k (card {i. (i, k) \<in> obs_pairs records}))
        (sorted_list_of_set (snd ` obs_pairs records)))"
proof -
  let ?s = "s\<lparr>sd_liveObs := [], sd_sealedObs := []\<rparr>"
  let ?m = "m\<lparr>mm_sessions := kv_set e ?s (mm_sessions m)\<rparr>"
  have c: "Memory_ClearValidationObs e m = (Inr (), ?m)"
    using assms by (simp add: Memory_ClearValidationObs_def onSession_def)
  obtain m1 s1 where r: "recordAll e records ?m = (Inr (), m1)" "kv_get (mm_sessions m1) e = Some s1"
      "tracks (obs_pairs records) (sd_liveObs s1)" "sd_sealedObs s1 = []"
    using recordAll_tracks [of ?m e ?s "{}" records] by auto
  then have "drained (obs_pairs records) {} s1" by (simp add: drained_def)
  then obtain m2 s2 where d: "drainAll e (sort sealedIDs) m1 = (Inr (), m2)" "kv_get (mm_sessions m2) e = Some s2"
      "drained (obs_pairs records) (set sealedIDs) s2"
    using drainAll_drained [OF r(2), of _ _ "sort sealedIDs"] by fastforce
  show ?thesis
    using c r(1) d(1,2) merge_drained [OF d(3)]
    by (simp add: RebuildValidationObsFromDiffs_def Memory_GetValidationObservability_def)
qed

text \<open>A journal in which slot 2 votes on inferences 4 and 5, on the latter twice.\<close>

definition ex_votes :: "SignedRecord list" where
  "ex_votes = map (\<lambda>(n, i). (ex_record n [9])\<lparr>dr_Diff := \<lparr>d_Nonce = n, d_Txs = [TxValidationVote
     \<lparr>vv_InferenceId = i, vv_VoterSlot = 2, vv_VoteValid = True, vv_ProposerSig = [], vv_EscrowId = []\<rparr>],
     d_UserSig = [], d_PostStateRoot = []\<rparr>\<rparr>) [(1, 4), (2, 5), (3, 5)]"

lemma ex_votes_pairs: "obs_pairs ex_votes = {(4, 2), (5, 2)}"
  by (auto simp: obs_pairs_def ex_votes_def List.map_filter_simps)

theorem rebuild_counts_witness:
  "\<exists>m'. RebuildValidationObsFromDiffs ''7'' ex_votes [5] ex_store = (Inr (), m')
    \<and> Memory_GetValidationObservability ''7'' m' = Inr [count_row 2 2]"
proof -
  have "{i. (i, 2) \<in> obs_pairs ex_votes} = {4, 5}" "snd ` obs_pairs ex_votes = {2}"
    by (auto simp: ex_votes_pairs)
  then show ?thesis using rebuild_counts [OF ex_store_session, of ex_votes "[5]"] by (simp add: numeral_2_eq_2)
qed

section \<open>Recording after a drain\<close>

text \<open>
  C29. A validation recorded again after its inference has been drained is counted again: the live row,
  which is the only record of what has been counted, is gone.
\<close>

theorem drained_validation_counts_twice:
  assumes "kv_get (mm_sessions m) e = Some s" and "obs_row (sd_liveObs s) i = []" and "obs_row (sd_sealedObs s) i = []"
  shows "\<exists>m1 m2 m3 s3. Memory_RecordValidationsAppliedOnce e [(i, k)] m = (Inr (), m1)
    \<and> Memory_DrainInferenceValidationObs e i m1 = (Inr (), m2)
    \<and> Memory_RecordValidationsAppliedOnce e [(i, k)] m2 = (Inr (), m3)
    \<and> kv_get (mm_sessions m3) e = Some s3
    \<and> obs_row (sd_liveObs s3) i = [(k, unit_row k)] \<and> obs_row (sd_sealedObs s3) i = [(k, unit_row k)]"
  using assms
  by (simp add: Memory_RecordValidationsAppliedOnce_def Memory_DrainInferenceValidationObs_def onSession_def Let_def
      recordValidationAppliedOnceLockedSession_def obs_row_set obs_row_del addObs_def unit_row_def)

theorem drained_validation_counts_twice_witness:
  "\<exists>m1 m2 m3. Memory_RecordValidationsAppliedOnce ''7'' [(5, 0)] ex_store = (Inr (), m1)
    \<and> Memory_DrainInferenceValidationObs ''7'' 5 m1 = (Inr (), m2)
    \<and> Memory_RecordValidationsAppliedOnce ''7'' [(5, 0)] m2 = (Inr (), m3)"
  using drained_validation_counts_twice [OF ex_store_session, of 5 0]
  by (auto simp: ex_session_data_def obs_row_def)

end
