(* ===== verification/Spec2Isabelle.thy ===== *)
theory Spec2Isabelle
  imports DevshardProperties DevshardSettlement ChainProperties UserProperties StorageCounters
begin

text \<open>
  A verification library for the devshard sessions of gonka: the off-chain sessions in which a
  user pays a group of hosts for inferences, and the on-chain escrows that fund and settle them.

  \<^bold>\<open>The program.\<close> A creator locks an amount in an escrow on chain (\<open>inference-chain/x/inference\<close>).
  The escrow samples a group of validator slots. Off chain (\<open>devshard\<close>) the user is the sequencer
  of a session: it composes transactions into numbered diffs, applies them to a state machine,
  signs them, stores them, and sends them to the hosts in turn. Hosts apply the same diffs and
  sign the resulting state roots. At the end the user finalizes the session, collects signatures
  of more than two thirds of the slots, and submits the final state to the chain. The chain checks
  the proof, pays the validators and refunds the creator. Escrows that nobody settles are
  distributed when their epoch is pruned.

  \<^bold>\<open>Foundations.\<close> \<open>Prelude\<close> has the machine integers, results of fallible operations, maps as
  key-ordered association lists, and the locales \<^verbatim>\<open>totalled_store\<close> and \<^verbatim>\<open>conserving\<close>. \<open>GoStd\<close> models what the
  code uses of the Go library: SHA-256 (its constants are computed from the primes they come
  from), integer encodings and decimal strings.

  \<^bold>\<open>The state machine\<close> (\<open>devshard/types\<close>, \<open>devshard/state\<close>).
  \<^item> \<open>DevshardTypes\<close>: records, statuses, bitmaps, configuration, messages (\<open>domain.go\<close>, \<open>config.go\<close>,
    \<open>bitmap.go\<close>, \<open>max_nonce.go\<close>).
  \<^item> \<open>DevshardHash\<close>: the state root (\<open>hash.go\<close>), with deterministic protobuf encoding as a parameter.
  \<^item> \<open>DevshardMachine\<close>, \<open>DevshardSeal\<close>, \<open>DevshardDiff\<close>: one definition for each handler of \<open>machine.go\<close> and
    \<open>seal.go\<close>, from \<open>applyStartInference\<close> to \<open>ApplyDiff\<close>, \<open>ValidateDiff\<close> and \<open>CommitValidated\<close>. The state is the record
    \<^verbatim>\<open>StateMachine\<close>; a handler returns an error or a value together with the next machine.
  \<^item> \<open>DevshardSession\<close> is the abstract contract of a session. \<open>DevshardRefine\<close> and \<open>DevshardRuns\<close> show that every
    outcome of every operation that applies, previews, validates or commits diffs is a run of the contract;
    \<open>RestoreState\<close> and \<open>SealInference\<close>, which recovery and an explicit seal use, are defined but are not steps of
    the runs. \<open>DevshardFrame\<close> shows what transactions do not
    read. \<open>DevshardGuarantees\<close> and \<open>DevshardProperties\<close> draw the consequences: conservation of the escrow,
    completeness of the settlement, absence of panics, rollback, bounds on faults and votes, the life
    cycle of inferences and the settlement deadline. \<open>DevshardReplay\<close> relates composing and applying a diff.
  \<^item> \<open>DevshardSettlement\<close> and \<open>Signing\<close>: the settlement payload, the sampling of validations and the recovery of
    addresses (\<open>settlement.go\<close>, \<open>validation.go\<close>, \<open>signing/secp256k1.go\<close>).

  \<^bold>\<open>The user session\<close> (\<open>devshard/user/session.go\<close>). \<open>UserSession\<close> has the session record and its operations.
  Hosts, the signer and the storage back end are fields of \<^verbatim>\<open>user_env\<close>, functions of what has been sent or stored
  before. \<open>UserRounds\<close>, \<open>UserInvariant\<close>, \<open>UserFinalize\<close> and \<open>UserPool\<close> have the step relation of the session and its
  invariants; \<open>UserExample\<close> is a concrete session; \<open>UserProperties\<close> shows how far a call of
  finalization gets and what it reports, that a reported quorum is made of verified signatures in the pool, that
  the stored journal is the log, when the retries of a persist succeed, that the catch-up of a host ends, and two ways in
  which a host response disturbs a session.

  \<^bold>\<open>The storage\<close> (\<open>devshard/storage\<close>). \<open>DevshardStorage\<close> models every operation of the in-memory back end
  (\<open>memory.go\<close>), the validation leases (\<open>leases.go\<close>), the identity check of replayed diffs (\<open>diff_identity.go\<close>) and the
  rebuild of the validation counters (\<open>validation_obs_rebuild.go\<close>). \<open>proto.Equal\<close> is a parameter. \<open>StorageInvariant\<close>
  shows that every operation keeps the store well formed. \<open>StorageProperties\<close> shows that diffs are read back as
  written, through the locale \<^verbatim>\<open>journal\<close>, that replays and forks are told apart, that the journal only
  grows, and that a lease is completed at most once. \<open>StorageCounters\<close> shows that the rebuilt counters are exact,
  and that a recording after a drain counts again.

  \<^bold>\<open>The chain\<close> (\<open>inference-chain/x/inference\<close>). \<open>SlotSampling\<close> has both samplers of \<open>calculations/slots.go\<close> and their
  equivalence. \<open>ChainState\<close>, \<open>ChainEscrow\<close>, \<open>ChainSettlement\<close> and \<open>ChainPruning\<close> have the stores, the handlers
  \<open>CreateDevshardEscrow\<close>, \<open>SettleDevshardEscrow\<close> and \<open>SetClaimRecipients\<close>, and the pruner. \<open>ChainVerify\<close> gives the exact
  condition of the proof check, \<open>ChainPayout\<close> the split of an escrow, and \<open>ChainSolvency\<close> the invariant of the escrow
  account over all histories, through the locale \<^verbatim>\<open>pruner_invariant\<close>. \<open>ChainExample\<close> is a concrete chain, \<open>ChainProperties\<close>
  has the properties.

  \<^bold>\<open>Bounds.\<close> Integers are words of their Go width, so wrap-around is part of the model; only the
  epochs and counters of the pruner (\<open>int64\<close>) and the times of leases are unbounded integers. Loops are structural
  recursion or have a termination proof; no fuel is used. Hypotheses on lengths (a log shorter than
  \<open>2 ^ 64\<close> diffs, fewer than \<open>2 ^ 32\<close> slots) appear where a counter could wrap.

  \<^bold>\<open>Parameters.\<close> Protobuf encoding and equality, elliptic-curve recovery, bech32, the bank and the hosts are not code of
  the modelled packages: they are arguments, with what the code relies on as named hypotheses. The update of a
  participant's status (\<open>participant_status.go\<close>), which settlement calls on the way to storing a participant, is such an argument
  as well, with the hypothesis that it keeps the address and the balance.

  \<^bold>\<open>Not modelled.\<close>
  \<^item> The request handler of a host (\<open>devshard/host\<close>) and its mempool: it runs executions and validations in
    concurrent goroutines around the machine and the storage, which are modelled.
  \<^item> The PostgreSQL, SQLite, hybrid and managed stores: SQL and routing.
  \<^item> Transport, gossip, servers and command-line programs: network I/O.
  \<^item> In the user session: the collection of timeout votes, machine snapshots, the verifier queue, the
    persistence of signatures (a failure there is only logged) and the flag against concurrent calls of \<open>Finalize\<close>. Locks and
    goroutines appear as atomic operations and schedules; the retries and timeouts of the collection of signatures are an arbitrary
    schedule of actions.
  \<^item> In the chain: events, and the modules for proof of compute, rewards, bridge, BLS and collateral.
  \<^item> The decentralized API and the node software.
\<close>

end
